(* ===== verification/Zvmh_Prelude.thy ===== *)
theory Zvmh_Prelude
  imports Main "HOL-Library.Char_ord" "HOL-Library.List_Lexorder" "HOL-Library.Sublist"
    "HOL-Library.Word"
begin

text \<open>
  Shared vocabulary of the development: bytes and byte strings (\<open>std::string\<close> is a list of
  8-bit \<open>char\<close>s), the \<open>std::string\<close> searches the sources use, decimal rendering
  (\<open>std::to_string\<close>), narrowing to a 32-bit \<open>int\<close>, results that carry a thrown exception,
  and \<open>std::map\<close> as an association list kept in key order, with the lookup laws its clients
  use stated once in a locale.
\<close>

named_theorems map_laws \<open>lookup laws of ordered maps\<close>
named_theorems str_laws \<open>laws of the string helpers\<close>

unbundle bit_operations_syntax

section \<open>Bytes and strings\<close>

abbreviation byte :: "char \<Rightarrow> nat" where
  "byte c \<equiv> of_char c"

abbreviation nl :: char where "nl \<equiv> CHR 0x0A"
abbreviation cr :: char where "cr \<equiv> CHR 0x0D"
abbreviation tab :: char where "tab \<equiv> CHR 0x09"
abbreviation dquote :: char where "dquote \<equiv> CHR 0x22"
abbreviation squote :: char where "squote \<equiv> CHR 0x27"

abbreviation NL :: string where "NL \<equiv> [nl]"

text \<open>UTF-8 of U+2026 (the ellipsis the previews are cut with) and U+FFFD.\<close>

definition ellipsis :: string where
  "ellipsis = [CHR 0xE2, CHR 0x80, CHR 0xA6]"

lemma byte_less: "byte c < 256"
  using of_char_mod_256 [of c, where 'a = nat] by (metis mod_less_divisor zero_less_numeral)

definition starts_with :: "string \<Rightarrow> string \<Rightarrow> bool" where
  "starts_with s p \<longleftrightarrow> prefix p s"

definition ends_with :: "string \<Rightarrow> string \<Rightarrow> bool" where
  "ends_with s p \<longleftrightarrow> suffix p s"

text \<open>\<open>s.find(pat)\<close>: the first index at which \<open>pat\<close> occurs.\<close>

fun find_sub :: "string \<Rightarrow> string \<Rightarrow> nat option" where
  "find_sub pat [] = (if pat = [] then Some 0 else None)"
| "find_sub pat (c # cs) =
     (if prefix pat (c # cs) then Some 0 else map_option Suc (find_sub pat cs))"

lemma find_sub_Some:
  assumes "find_sub pat s = Some i"
  shows "s = take i s @ pat @ drop (i + length pat) s" and "i + length pat \<le> length s"
  using assms
proof (induction s arbitrary: i)
  case Nil
  { case 1 then show ?case by (simp split: if_splits) }
  { case 2 then show ?case by (simp split: if_splits) }
next
  case (Cons c cs)
  { case 1 then show ?case
      using Cons.IH(1) by (auto simp: prefix_def split: if_splits) }
  { case 2 then show ?case
      using Cons.IH(2) by (auto dest: prefix_length_le split: if_splits) }
qed

lemma find_sub_None: "find_sub pat s = None \<longleftrightarrow> \<not> sublist pat s"
  by (induction s) (auto simp: sublist_Cons_right)

lemma find_sub_minimal:
  "find_sub pat s = Some i \<Longrightarrow> j < i \<Longrightarrow> \<not> prefix pat (drop j s)"
proof (induction s arbitrary: i j)
  case Nil
  then show ?case by (simp split: if_splits)
next
  case (Cons c cs)
  then show ?case by (cases j) (auto split: if_splits)
qed

lemma find_sub_append_free:
  "find_sub pat s = Some i \<Longrightarrow> find_sub pat (s @ t) = Some i"
proof (induction s arbitrary: i)
  case Nil
  then show ?case by (cases t) (auto split: if_splits)
next
  case (Cons c cs)
  show ?case
  proof (cases "prefix pat (c # cs)")
    case True
    then have "prefix pat ((c # cs) @ t)" by (rule prefix_append[THEN iffD2, OF disjI1])
    with True Cons.prems show ?thesis by simp
  next
    case False
    with Cons.prems obtain z where z: "find_sub pat cs = Some z" "i = Suc z" by auto
    from find_sub_Some(2)[OF z(1)] have len: "length pat \<le> length (c # cs)" by simp
    have "\<not> prefix pat ((c # cs) @ t)"
    proof
      assume "prefix pat ((c # cs) @ t)"
      with len have "prefix pat (c # cs)"
        by (metis append_prefixD prefix_length_prefix prefixI)
      with False show False by simp
    qed
    with Cons.IH[OF z(1)] z(2) show ?thesis by simp
  qed
qed

text \<open>\<open>s.find(pat, pos)\<close>.\<close>

definition find_from :: "string \<Rightarrow> string \<Rightarrow> nat \<Rightarrow> nat option" where
  "find_from pat s pos =
     (if pos \<le> length s then map_option (\<lambda>i. pos + i) (find_sub pat (drop pos s)) else None)"

definition contains_sub :: "string \<Rightarrow> string \<Rightarrow> bool" where
  "contains_sub s pat \<longleftrightarrow> find_sub pat s \<noteq> None"

lemma contains_sub_iff: "contains_sub s pat \<longleftrightarrow> sublist pat s"
  by (simp add: contains_sub_def find_sub_None)

text \<open>Splitting at the first occurrence of a byte: what precedes it and what follows it.\<close>

fun split_at :: "char \<Rightarrow> string \<Rightarrow> (string \<times> string) option" where
  "split_at d [] = None"
| "split_at d (c # cs) =
     (if c = d then Some ([], cs)
      else map_option (\<lambda>(a, b). (c # a, b)) (split_at d cs))"

lemma split_at_Some: "split_at d s = Some (a, b) \<longleftrightarrow> s = a @ d # b \<and> d \<notin> set a"
  by (induction s arbitrary: a b) (auto simp: Cons_eq_append_conv)

lemma split_at_None: "split_at d s = None \<longleftrightarrow> d \<notin> set s"
  by (induction s) auto

lemma split_at_append: "split_at d s = Some (a, b) \<Longrightarrow> split_at d (s @ t) = Some (a, b @ t)"
  by (auto simp: split_at_Some)

lemma split_at_length: "split_at d s = Some (a, b) \<Longrightarrow> length b < length s"
  by (auto simp: split_at_Some)

text \<open>The trimming loops: bytes of a set dropped at both ends.\<close>

definition trim_of :: "char list \<Rightarrow> string \<Rightarrow> string" where
  "trim_of ws s = rev (dropWhile (\<lambda>c. c \<in> set ws) (rev (dropWhile (\<lambda>c. c \<in> set ws) s)))"

lemma trim_of_prefix: "prefix (trim_of ws s) (dropWhile (\<lambda>c. c \<in> set ws) s)"
  unfolding trim_of_def by (metis rev_rev_ident suffix_dropWhile suffix_to_prefix)

lemma trim_of_hd: "trim_of ws s \<noteq> [] \<Longrightarrow> hd (trim_of ws s) \<notin> set ws"
proof -
  assume ne: "trim_of ws s \<noteq> []"
  let ?t = "dropWhile (\<lambda>c. c \<in> set ws) s"
  from ne trim_of_prefix[of ws s] have t: "?t \<noteq> []" by (metis prefix_Nil)
  from ne trim_of_prefix[of ws s] have "hd (trim_of ws s) = hd ?t"
    by (metis prefixE hd_append2)
  note t this
  then show ?thesis using hd_dropWhile[of "\<lambda>c. c \<in> set ws" s] by simp
qed

lemma trim_of_last: "trim_of ws s \<noteq> [] \<Longrightarrow> last (trim_of ws s) \<notin> set ws"
  unfolding trim_of_def
  using hd_dropWhile[of "\<lambda>c. c \<in> set ws" "rev (dropWhile (\<lambda>c. c \<in> set ws) s)"]
  by (auto simp: last_rev)

lemma trim_of_id: "s \<noteq> [] \<Longrightarrow> hd s \<notin> set ws \<Longrightarrow> last s \<notin> set ws \<Longrightarrow> trim_of ws s = s"
proof -
  let ?P = "\<lambda>c. c \<in> set ws"
  assume h: "s \<noteq> []" "hd s \<notin> set ws" "last s \<notin> set ws"
  then have "dropWhile ?P s = s" and "dropWhile ?P (rev s) = rev s"
    by (simp_all only: dropWhile_eq_self_iff hd_rev simp_thms)
  then show "trim_of ws s = s" by (simp only: trim_of_def rev_rev_ident)
qed

lemma trim_of_Nil [simp]: "trim_of ws [] = []"
  by (simp add: trim_of_def)

lemma trim_of_idem [str_laws]: "trim_of ws (trim_of ws s) = trim_of ws s"
  by (cases "trim_of ws s = []") (simp_all add: trim_of_id trim_of_hd trim_of_last)

lemma trim_of_empty: "trim_of ws s = [] \<longleftrightarrow> set s \<subseteq> set ws"
proof
  assume "trim_of ws s = []"
  then have all: "\<forall>c \<in> set (dropWhile (\<lambda>c. c \<in> set ws) s). c \<in> set ws"
    by (simp only: trim_of_def rev_is_Nil_conv dropWhile_eq_Nil_conv set_rev)
  have "dropWhile (\<lambda>c. c \<in> set ws) s = []"
  proof (rule ccontr)
    assume ne: "dropWhile (\<lambda>c. c \<in> set ws) s \<noteq> []"
    show False using bspec[OF all hd_in_set[OF ne]] hd_dropWhile[OF ne] by simp
  qed
  then show "set s \<subseteq> set ws" by (auto simp: dropWhile_eq_Nil_conv)
next
  assume "set s \<subseteq> set ws"
  then have "dropWhile (\<lambda>c. c \<in> set ws) s = []" by (auto simp: dropWhile_eq_Nil_conv)
  then show "trim_of ws s = []" by (simp only: trim_of_def dropWhile.simps rev.simps)
qed

text \<open>Joining with a separator, as every \<open>join\<close> of the sources does.\<close>

fun join_with :: "string \<Rightarrow> string list \<Rightarrow> string" where
  "join_with sep [] = []"
| "join_with sep [x] = x"
| "join_with sep (x # y # zs) = x @ sep @ join_with sep (y # zs)"

lemma join_with_Cons:
  "join_with sep (x # xs) = (if xs = [] then x else x @ sep @ join_with sep xs)"
  by (cases xs) auto

section \<open>Numbers\<close>

text \<open>\<open>std::to_string\<close>: decimal digits, a minus sign for negative values.\<close>

fun nat_str :: "nat \<Rightarrow> string" where
  "nat_str n =
     (if n < 10 then [char_of (48 + n)] else nat_str (n div 10) @ [char_of (48 + n mod 10)])"

declare nat_str.simps [simp del]

definition int_str :: "int \<Rightarrow> string" where
  "int_str i = (if i < 0 then CHR ''-'' # nat_str (nat (- i)) else nat_str (nat i))"

text \<open>Reading the digits back, to state that rendering loses nothing.\<close>

definition digits_value :: "string \<Rightarrow> nat" where
  "digits_value s = foldl (\<lambda>n c. 10 * n + (byte c - 48)) 0 s"

lemma nat_str_value: "digits_value (nat_str n) = n"
proof (induction n rule: nat_str.induct)
  case (1 n)
  have "n mod 10 < 10" by simp
  then have "48 + n mod 10 < 256" by linarith
  then show ?case
    using 1 by (cases "n < 10") (simp_all add: nat_str.simps[of n] digits_value_def)
qed

lemma nat_str_inj: "nat_str m = nat_str n \<Longrightarrow> m = n"
proof -
  assume "nat_str m = nat_str n"
  then have "digits_value (nat_str m) = digits_value (nat_str n)" by (rule arg_cong)
  then show "m = n" by (simp only: nat_str_value)
qed

text \<open>Conversion of a 64-bit value to \<open>int\<close> (32 bits, two's complement).\<close>

definition to_int32 :: "int \<Rightarrow> int" where
  "to_int32 i = (i + 2147483648) mod 4294967296 - 2147483648"

lemma to_int32_range: "-2147483648 \<le> to_int32 i \<and> to_int32 i \<le> 2147483647"
  using pos_mod_bound[of 4294967296 "i + 2147483648"] pos_mod_sign[of 4294967296 "i + 2147483648"]
  unfolding to_int32_def by linarith

lemma to_int32_id: "-2147483648 \<le> i \<Longrightarrow> i \<le> 2147483647 \<Longrightarrow> to_int32 i = i"
  by (simp add: to_int32_def)

section \<open>Results that may throw\<close>

text \<open>
  \<open>Inl\<close> carries what stopped the computation: the text of a thrown \<open>std::exception\<close> (its
  \<open>what()\<close>), or undefined behaviour of the language or library, which no handler catches.
\<close>

datatype failure = Thrown string | Undefined

type_synonym 'a outcome = "failure + 'a"

definition bind_outcome :: "'a outcome \<Rightarrow> ('a \<Rightarrow> 'b outcome) \<Rightarrow> 'b outcome" where
  "bind_outcome r f = (case r of Inl e \<Rightarrow> Inl e | Inr a \<Rightarrow> f a)"

lemma bind_outcome_simps [simp]:
  "bind_outcome (Inl e) f = Inl e" "bind_outcome (Inr a) f = f a"
  by (simp_all add: bind_outcome_def)

lemma bind_outcome_Inr:
  "bind_outcome r f = Inr b \<longleftrightarrow> (\<exists>a. r = Inr a \<and> f a = Inr b)"
  by (cases r) auto

section \<open>Ordered maps\<close>

text \<open>
  \<open>std::map\<close> iterates in key order, so it is an association list in strictly increasing key
  order. The laws of lookup need no order; iteration does.
\<close>

type_synonym ('k, 'v) omap = "('k \<times> 'v) list"

fun om_put :: "'k::linorder \<Rightarrow> 'v \<Rightarrow> ('k, 'v) omap \<Rightarrow> ('k, 'v) omap" where
  "om_put k v [] = [(k, v)]"
| "om_put k v ((k', v') # m) =
     (if k < k' then (k, v) # (k', v') # m
      else if k = k' then (k, v) # m
      else (k', v') # om_put k v m)"

definition om_get :: "('k, 'v) omap \<Rightarrow> 'k \<Rightarrow> 'v option" where
  "om_get m k = map_of m k"

definition om_del :: "'k \<Rightarrow> ('k, 'v) omap \<Rightarrow> ('k, 'v) omap" where
  "om_del k m = filter (\<lambda>(k', _). k' \<noteq> k) m"

definition om_keys :: "('k, 'v) omap \<Rightarrow> 'k list" where
  "om_keys m = map fst m"

definition om_ok :: "('k::linorder, 'v) omap \<Rightarrow> bool" where
  "om_ok m \<longleftrightarrow> sorted_wrt (<) (om_keys m)"

lemma om_get_put: "om_get (om_put k v m) k' = (if k' = k then Some v else om_get m k')"
  by (induction k v m rule: om_put.induct) (auto simp: om_get_def)

lemma om_get_del: "om_get (om_del k m) k' = (if k' = k then None else om_get m k')"
  by (induction m) (auto simp: om_get_def om_del_def)

lemma om_get_Nil [simp]: "om_get [] k = None"
  by (simp add: om_get_def)

lemma om_keys_Nil [simp]: "om_keys [] = []"
  by (simp add: om_keys_def)

lemma om_ok_Nil [simp]: "om_ok []"
  by (simp add: om_ok_def)

lemma om_get_None: "om_get m k = None \<longleftrightarrow> k \<notin> set (om_keys m)"
  by (simp add: om_get_def om_keys_def map_of_eq_None_iff)

lemma om_get_dom: "om_get m k \<noteq> None \<longleftrightarrow> k \<in> set (om_keys m)"
  by (simp add: om_get_None)

lemma om_keys_put: "set (om_keys (om_put k v m)) = insert k (set (om_keys m))"
  by (induction k v m rule: om_put.induct) (auto simp: om_keys_def)

lemma om_keys_del: "set (om_keys (om_del k m)) = set (om_keys m) - {k}"
  by (auto simp: om_keys_def om_del_def)

lemma om_ok_put: "om_ok m \<Longrightarrow> om_ok (om_put k v m)"
proof (induction k v m rule: om_put.induct)
  case (2 k v k' v' m)
  have keys: "set (map fst (om_put k v m)) = insert k (set (map fst m))"
    using om_keys_put[of k v m] by (simp add: om_keys_def)
  show ?case
    using 2 keys by (auto simp: om_ok_def om_keys_def)
qed (simp add: om_ok_def om_keys_def)

lemma om_ok_del: "om_ok m \<Longrightarrow> om_ok (om_del k m)"
  by (induction m) (auto simp: om_ok_def om_keys_def om_del_def)

lemma om_ok_distinct: "om_ok m \<Longrightarrow> distinct (om_keys m)"
  by (simp add: om_ok_def strict_sorted_iff)

text \<open>In key order, a map is determined by its lookups.\<close>

lemma om_ext:
  assumes "om_ok m" "om_ok n" "\<And>k. om_get m k = om_get n k"
  shows "m = n"
proof -
  have d: "distinct (map fst m)" "distinct (map fst n)"
    using om_ok_distinct[OF assms(1)] om_ok_distinct[OF assms(2)] by (simp_all add: om_keys_def)
  have e: "map_of m = map_of n" using assms(3) by (auto simp: om_get_def)
  then have "dom (map_of m) = dom (map_of n)" by simp
  then have s: "set (map fst m) = set (map fst n)" by (simp add: dom_map_of_conv_image_fst)
  have "sorted_wrt (<) (map fst m)" "sorted_wrt (<) (map fst n)"
    using assms(1,2) by (simp_all add: om_ok_def om_keys_def)
  from strict_sorted_equal[OF this s[symmetric]] have k: "map fst m = map fst n" by simp
  have at: "map_of l (fst (l ! i)) = Some (snd (l ! i))"
    if "distinct (map fst l)" "i < length l" for l :: "('a, 'b) omap" and i
    using that by (intro map_of_is_SomeI) simp_all
  show ?thesis
  proof (rule nth_equalityI)
    show "length m = length n" using k by (metis length_map)
    fix i assume i: "i < length m"
    then have i': "i < length n" using k by (metis length_map)
    have f: "fst (m ! i) = fst (n ! i)" using k i i' by (metis nth_map)
    have "Some (snd (m ! i)) = Some (snd (n ! i))"
      using at[OF d(1) i] at[OF d(2) i'] e f by simp
    with f show "m ! i = n ! i" by (simp add: prod_eq_iff)
  qed
qed

text \<open>
  The interface of a keyed store: a lookup after a write or an erase. Both \<open>std::map\<close> and the
  file system of the file tools are such stores.
\<close>

locale keyed_store =
  fixes get :: "'m \<Rightarrow> 'k \<Rightarrow> 'v option"
    and put :: "'k \<Rightarrow> 'v \<Rightarrow> 'm \<Rightarrow> 'm"
    and del :: "'k \<Rightarrow> 'm \<Rightarrow> 'm"
  assumes get_put: "get (put k v m) k' = (if k' = k then Some v else get m k')"
    and get_del: "get (del k m) k' = (if k' = k then None else get m k')"
begin

lemma get_put_same: "get (put k v m) k = Some v"
  by (simp add: get_put)

lemma get_put_other: "k' \<noteq> k \<Longrightarrow> get (put k v m) k' = get m k'"
  by (simp add: get_put)

lemma get_put_all:
  "get (fold (\<lambda>k. put k v) ks m) k' = (if k' \<in> set ks then Some v else get m k')"
  by (induction ks arbitrary: m) (auto simp: get_put)

lemma get_del_all:
  "get (fold del ks m) k' = (if k' \<in> set ks then None else get m k')"
  by (induction ks arbitrary: m) (auto simp: get_del)

lemma put_put_same: "get (put k v (put k w m)) k' = get (put k v m) k'"
  by (simp add: get_put)

end

interpretation om: keyed_store om_get om_put om_del
  by unfold_locales (simp_all add: om_get_put om_get_del)

lemmas om_lookups [map_laws] = om_get_put om_get_del om_keys_put om_keys_del

end
