(* ===== verification/Utf8.thy ===== *)
theory Utf8
  imports Zvmh_Prelude
begin

text \<open>
  \<open>src/utf8.h\<close>: \<open>utf8_valid\<close> and \<open>utf8_sanitize\<close>, and the three helpers that cut or step over
  UTF-8 text by looking at lead and continuation bytes (\<open>truncate_utf8\<close> of \<open>webfetch.h\<close>,
  \<open>truncate_to\<close> of \<open>read.h\<close>). The reference is the encoding of Unicode scalar values: a string
  is accepted exactly when it is the encoding of a list of scalar values.
\<close>

section \<open>The validator\<close>

text \<open>The loops walk an index \<open>i\<close> over the string; here they recurse on the bytes from \<open>i\<close> on.\<close>

definition is_cont :: "char \<Rightarrow> bool" where
  "is_cont c \<longleftrightarrow> byte c AND 0xC0 = 0x80"

definition utf8_need :: "nat \<Rightarrow> nat option" where
  "utf8_need c =
     (if 0xC2 \<le> c \<and> c \<le> 0xDF then Some 1
      else if 0xE0 \<le> c \<and> c \<le> 0xEF then Some 2
      else if 0xF0 \<le> c \<and> c \<le> 0xF4 then Some 3
      else None)"

definition utf8_bad_second :: "nat \<Rightarrow> nat \<Rightarrow> bool" where
  "utf8_bad_second c b1 \<longleftrightarrow>
     (c = 0xE0 \<and> b1 < 0xA0) \<or> (c = 0xED \<and> b1 > 0x9F) \<or>
     (c = 0xF0 \<and> b1 < 0x90) \<or> (c = 0xF4 \<and> b1 > 0x8F)"

fun utf8_valid :: "string \<Rightarrow> bool" where
  "utf8_valid [] = True"
| "utf8_valid (c # cs) =
     (if byte c < 0x80 then utf8_valid cs
      else (case utf8_need (byte c) of
        None \<Rightarrow> False
      | Some need \<Rightarrow>
          if need \<ge> length (c # cs) then False
          else if \<not> list_all is_cont (take need cs) then False
          else if utf8_bad_second (byte c) (byte (hd cs)) then False
          else utf8_valid (drop need cs)))"

definition utf8_replacement :: string where
  "utf8_replacement = [CHR 0xEF, CHR 0xBF, CHR 0xBD]"

fun utf8_sanitize_loop :: "string \<Rightarrow> string" where
  "utf8_sanitize_loop [] = []"
| "utf8_sanitize_loop (c # cs) =
     (if byte c < 0x80 then c # utf8_sanitize_loop cs
      else (case utf8_need (byte c) of
        None \<Rightarrow> utf8_replacement @ utf8_sanitize_loop cs
      | Some need \<Rightarrow>
          if need \<ge> length (c # cs) then utf8_replacement
          else if list_all is_cont (take need cs) \<and> \<not> utf8_bad_second (byte c) (byte (hd cs))
          then c # take need cs @ utf8_sanitize_loop (drop need cs)
          else utf8_replacement @ utf8_sanitize_loop cs))"

definition utf8_sanitize :: "string \<Rightarrow> string" where
  "utf8_sanitize s = (if utf8_valid s then s else utf8_sanitize_loop s)"

section \<open>Scalar values and their encoding\<close>

definition scalar_value :: "nat \<Rightarrow> bool" where
  "scalar_value cp \<longleftrightarrow> cp < 0x110000 \<and> \<not> (0xD800 \<le> cp \<and> cp < 0xE000)"

definition utf8_encode :: "nat \<Rightarrow> string" where
  "utf8_encode cp =
     (if cp < 0x80 then [char_of cp]
      else if cp < 0x800 then [char_of (0xC0 + cp div 64), char_of (0x80 + cp mod 64)]
      else if cp < 0x10000 then
        [char_of (0xE0 + cp div 4096), char_of (0x80 + cp div 64 mod 64),
         char_of (0x80 + cp mod 64)]
      else
        [char_of (0xF0 + cp div 262144), char_of (0x80 + cp div 4096 mod 64),
         char_of (0x80 + cp div 64 mod 64), char_of (0x80 + cp mod 64)])"

definition utf8_text :: "string \<Rightarrow> bool" where
  "utf8_text s \<longleftrightarrow> (\<exists>cps. list_all scalar_value cps \<and> s = concat (map utf8_encode cps))"

lemma and_C0: "(n::nat) AND 0xC0 = 64 * (n div 64 mod 4)"
proof -
  have c: "(0xC0::nat) = push_bit 6 (mask 2)"
    by (simp add: mask_eq_exp_minus_1 push_bit_eq_mult)
  have "n AND push_bit 6 (mask 2) = push_bit 6 (drop_bit 6 n AND mask 2)"
    by (rule bit_eqI) (auto simp: bit_simps)
  also have "\<dots> = 64 * (n div 64 mod 4)"
    by (simp add: push_bit_eq_mult take_bit_eq_mod drop_bit_eq_div flip: take_bit_eq_mask)
  finally show ?thesis by (simp only: c)
qed

lemma in_quarter: "(n::nat) < 256 \<Longrightarrow> 64 * (n div 64 mod 4) = 0x80 \<longleftrightarrow> 0x80 \<le> n \<and> n \<le> 0xBF"
proof -
  assume "n < 256"
  then have "n div 64 < 4" by linarith
  then have m: "n div 64 mod 4 = n div 64" by simp
  have "n = 64 * (n div 64) + n mod 64" "n mod 64 < 64" by simp_all
  moreover have "n div 64 < 2 \<or> n div 64 = 2 \<or> 3 \<le> n div 64" by linarith
  ultimately have "64 * (n div 64) = 0x80 \<longleftrightarrow> 0x80 \<le> n \<and> n \<le> 0xBF"
    by (elim disjE; intro iffI conjI; linarith)
  then show ?thesis unfolding m .
qed

lemma is_cont_range: "is_cont c \<longleftrightarrow> 0x80 \<le> byte c \<and> byte c \<le> 0xBF"
  by (simp only: is_cont_def and_C0 in_quarter byte_less)

lemma base64_digit: "(w::nat) < 64 \<Longrightarrow> (a * 64 + w) div 64 = a \<and> (a * 64 + w) mod 64 = w"
  by simp

text \<open>One accepted sequence is the encoding of one scalar value, and the other way round.\<close>

lemma char_ofI: "byte c = n \<Longrightarrow> char_of n = c"
  by auto

lemma cont_offset:
  assumes "is_cont b"
  obtains y where "byte b = 0x80 + y" "y < 64" "char_of (0x80 + y) = b"
proof -
  from assms have "byte b = 0x80 + (byte b - 0x80)" "byte b - 0x80 < 64"
    by (auto simp: is_cont_range)
  then show thesis using that[of "byte b - 0x80"] char_ofI by metis
qed

lemma seq1_encode: "byte c < 0x80 \<Longrightarrow> \<exists>cp. scalar_value cp \<and> utf8_encode cp = [c]"
  by (rule exI[of _ "byte c"]) (simp add: scalar_value_def utf8_encode_def)

lemma seq2_encode:
  assumes c: "0xC2 \<le> byte c" "byte c \<le> 0xDF" and b: "is_cont b"
  shows "\<exists>cp. scalar_value cp \<and> utf8_encode cp = [c, b]"
proof -
  from c have "byte c = 0xC0 + (byte c - 0xC0)" by simp
  then obtain x where x: "byte c = 0xC0 + x" by blast
  obtain y where y: "byte b = 0x80 + y" "y < 64" "char_of (0x80 + y) = b"
    using b by (rule cont_offset)
  have "2 \<le> x" "x < 32" using c x by simp_all
  then show ?thesis using y char_ofI[OF x]
    by (intro exI[of _ "x * 64 + y"]) (simp add: scalar_value_def utf8_encode_def)
qed

lemma seq3_encode:
  assumes c: "0xE0 \<le> byte c" "byte c \<le> 0xEF" and b: "is_cont b" and d: "is_cont d"
    and ok: "\<not> utf8_bad_second (byte c) (byte b)"
  shows "\<exists>cp. scalar_value cp \<and> utf8_encode cp = [c, b, d]"
proof -
  from c have "byte c = 0xE0 + (byte c - 0xE0)" by simp
  then obtain x where x: "byte c = 0xE0 + x" by blast
  obtain y where y: "byte b = 0x80 + y" "y < 64" "char_of (0x80 + y) = b"
    using b by (rule cont_offset)
  obtain z where z: "byte d = 0x80 + z" "z < 64" "char_of (0x80 + z) = d"
    using d by (rule cont_offset)
  define v where "v = x * 64 + y"
  define cp where "cp = v * 64 + z"
  have v: "v div 64 = x" "v mod 64 = y" using base64_digit[OF y(2)] by (simp_all add: v_def)
  have q: "cp div 64 = v" "cp mod 64 = z" using base64_digit[OF z(2)] by (simp_all add: cp_def)
  have "cp div 4096 = cp div 64 div 64" by (simp flip: div_mult2_eq)
  then have q2: "cp div 4096 = x" by (simp only: q v)
  have "x < 16" using c x by simp
  moreover have "x = 0 \<longrightarrow> 32 \<le> y" "x = 13 \<longrightarrow> y < 32"
    using ok x y by (auto simp: utf8_bad_second_def)
  moreover have "x < 13 \<or> x = 13 \<or> 14 \<le> x" by linarith
  ultimately have "0x800 \<le> cp" "cp < 0x10000" "\<not> (0xD800 \<le> cp \<and> cp < 0xE000)"
    using y z by (auto simp: cp_def v_def)
  then show ?thesis using y z q q2 v char_ofI[OF x]
    by (intro exI[of _ cp]) (simp add: scalar_value_def utf8_encode_def)
qed

lemma seq4_encode:
  assumes c: "0xF0 \<le> byte c" "byte c \<le> 0xF4" and b: "is_cont b" and d: "is_cont d"
    and e: "is_cont e" and ok: "\<not> utf8_bad_second (byte c) (byte b)"
  shows "\<exists>cp. scalar_value cp \<and> utf8_encode cp = [c, b, d, e]"
proof -
  from c have "byte c = 0xF0 + (byte c - 0xF0)" by simp
  then obtain x where x: "byte c = 0xF0 + x" by blast
  obtain y where y: "byte b = 0x80 + y" "y < 64" "char_of (0x80 + y) = b"
    using b by (rule cont_offset)
  obtain z where z: "byte d = 0x80 + z" "z < 64" "char_of (0x80 + z) = d"
    using d by (rule cont_offset)
  obtain w where w: "byte e = 0x80 + w" "w < 64" "char_of (0x80 + w) = e"
    using e by (rule cont_offset)
  define v where "v = x * 64 + y"
  define u where "u = v * 64 + z"
  define cp where "cp = u * 64 + w"
  have v: "v div 64 = x" "v mod 64 = y" using base64_digit[OF y(2)] by (simp_all add: v_def)
  have u: "u div 64 = v" "u mod 64 = z" using base64_digit[OF z(2)] by (simp_all add: u_def)
  have q: "cp div 64 = u" "cp mod 64 = w" using base64_digit[OF w(2)] by (simp_all add: cp_def)
  have "cp div 4096 = cp div 64 div 64" by (simp flip: div_mult2_eq)
  then have q2: "cp div 4096 = v" by (simp only: q u)
  have "cp div 262144 = cp div 4096 div 64" by (simp flip: div_mult2_eq)
  then have q3: "cp div 262144 = x" by (simp only: q2 v)
  have "x < 5" using c x by simp
  moreover have "x = 0 \<longrightarrow> 16 \<le> y" "x = 4 \<longrightarrow> y < 16"
    using ok x y by (auto simp: utf8_bad_second_def)
  ultimately have "0x10000 \<le> cp" "cp < 0x110000"
    using y z w by (auto simp: cp_def u_def v_def)
  then show ?thesis using y z w q q2 q3 u v char_ofI[OF x]
    by (intro exI[of _ cp]) (simp add: scalar_value_def utf8_encode_def)
qed

text \<open>Hence the validator consumes one encoded scalar value at a time, and only those.\<close>

lemma char_of_byte: "n < 256 \<Longrightarrow> byte (char_of n) = n"
  by simp

lemma is_cont_char_of: "(m::nat) < 64 \<Longrightarrow> is_cont (char_of (0x80 + m))"
  by (simp add: is_cont_range)

lemma utf8_accept_head:
  assumes "byte c \<ge> 0x80" "utf8_need (byte c) = Some need" "need < length (c # cs)"
    "list_all is_cont (take need cs)" "\<not> utf8_bad_second (byte c) (byte (hd cs))"
  shows "\<exists>cp. scalar_value cp \<and> utf8_encode cp = c # take need cs"
proof -
  from assms(2) have "need = 1 \<or> need = 2 \<or> need = 3"
    by (auto simp: utf8_need_def split: if_splits)
  then consider "need = 1" | "need = 2" | "need = 3" by blast
  then show ?thesis
  proof cases
    case 1
    with assms obtain b bs where cs: "cs = b # bs" by (cases cs) auto
    have "0xC2 \<le> byte c" "byte c \<le> 0xDF"
      using assms(2) 1 by (auto simp: utf8_need_def split: if_splits)
    then show ?thesis using assms(4) 1 cs seq2_encode[of c b] by simp
  next
    case 2
    with assms obtain b d bs where cs: "cs = b # d # bs"
      by (cases cs; cases "tl cs") auto
    have "0xE0 \<le> byte c" "byte c \<le> 0xEF"
      using assms(2) 2 by (auto simp: utf8_need_def split: if_splits)
    then show ?thesis using assms(4,5) 2 cs seq3_encode[of c b d] by (simp add: numeral_2_eq_2)
  next
    case 3
    with assms obtain b d e bs where cs: "cs = b # d # e # bs"
      by (cases cs; cases "tl cs"; cases "tl (tl cs)") auto
    have "0xF0 \<le> byte c" "byte c \<le> 0xF4"
      using assms(2) 3 by (auto simp: utf8_need_def split: if_splits)
    then show ?thesis using assms(4,5) 3 cs seq4_encode[of c b d e] by (simp add: numeral_3_eq_3)
  qed
qed

lemma utf8_encode_ne: "utf8_encode cp \<noteq> []"
  by (simp add: utf8_encode_def)

lemma utf8_valid_encode:
  assumes "scalar_value cp"
  shows "utf8_valid (utf8_encode cp @ rest) = utf8_valid rest"
proof -
  consider "cp < 0x80" | "0x80 \<le> cp" "cp < 0x800" | "0x800 \<le> cp" "cp < 0x10000" | "0x10000 \<le> cp"
    by linarith
  then show ?thesis
  proof cases
    case 1
    then show ?thesis by (simp add: utf8_encode_def)
  next
    case 2
    then have "2 \<le> cp div 64" "cp div 64 < 32" by linarith+
    then show ?thesis using 2
      by (simp add: utf8_encode_def utf8_need_def utf8_bad_second_def is_cont_char_of)
  next
    case 3
    have q: "cp div 4096 = cp div 64 div 64" by (simp flip: div_mult2_eq)
    define u where "u = cp div 64"
    have u: "u < 1024" "32 \<le> u" using 3 by (simp_all add: u_def)
    have h: "u div 64 < 16" "u mod 64 < 64" using u by linarith+
    have e: "u = 64 * (u div 64) + u mod 64" by simp
    then have b: "u div 64 = 0 \<longrightarrow> 32 \<le> u mod 64" using u by linarith
    have "\<not> (0xD800 \<le> cp \<and> cp < 0xE000)" using assms by (simp add: scalar_value_def)
    then have "\<not> (864 \<le> u \<and> u < 896)" unfolding u_def by linarith
    with e have "u div 64 = 13 \<longrightarrow> u mod 64 < 32" by linarith
    then show ?thesis using 3 h b
      by (auto simp add: utf8_encode_def utf8_need_def utf8_bad_second_def is_cont_char_of q
          u_def[symmetric] numeral_2_eq_2)
  next
    case 4
    have cp: "cp < 0x110000" using assms by (simp add: scalar_value_def)
    have q: "cp div 262144 = cp div 4096 div 64" by (simp flip: div_mult2_eq)
    define u where "u = cp div 4096"
    have u: "u < 272" "16 \<le> u" using cp 4 by (simp_all add: u_def)
    have h: "u div 64 < 5" "u mod 64 < 64" using u by linarith+
    have e: "u = 64 * (u div 64) + u mod 64" by simp
    then have b: "u div 64 = 0 \<longrightarrow> 16 \<le> u mod 64" using u by linarith
    from e have "u div 64 = 4 \<longrightarrow> u mod 64 < 16" using u by linarith
    then show ?thesis using 4 h b
      by (auto simp add: utf8_encode_def utf8_need_def utf8_bad_second_def is_cont_char_of q
          u_def[symmetric] numeral_3_eq_3)
  qed
qed

lemma utf8_valid_concat: "list_all scalar_value cps \<Longrightarrow> utf8_valid (concat (map utf8_encode cps))"
  by (induction cps) (simp_all add: utf8_valid_encode)

lemma utf8_text_Nil: "utf8_text []"
  unfolding utf8_text_def by (rule exI[of _ "[]"]) simp

lemma utf8_text_encode: "scalar_value cp \<Longrightarrow> utf8_text s \<Longrightarrow> utf8_text (utf8_encode cp @ s)"
proof -
  assume cp: "scalar_value cp" and "utf8_text s"
  then obtain cps where "list_all scalar_value cps" "s = concat (map utf8_encode cps)"
    by (auto simp: utf8_text_def)
  with cp show ?thesis unfolding utf8_text_def by (intro exI[of _ "cp # cps"]) simp
qed

lemma utf8_valid_text: "utf8_valid s \<Longrightarrow> utf8_text s"
proof (induction s rule: utf8_valid.induct)
  case 1
  then show ?case by (simp add: utf8_text_Nil)
next
  case (2 c cs)
  show ?case
  proof (cases "byte c < 0x80")
    case True
    then obtain cp where "scalar_value cp" "utf8_encode cp = [c]" using seq1_encode by blast
    then show ?thesis using 2 True utf8_text_encode[of cp cs] by simp
  next
    case False
    then obtain need where n: "utf8_need (byte c) = Some need" "need < length (c # cs)"
        "list_all is_cont (take need cs)" "\<not> utf8_bad_second (byte c) (byte (hd cs))"
        "utf8_valid (drop need cs)"
      using 2(3) by (auto split: option.splits if_splits)
    have "utf8_text (drop need cs)" using 2(2)[OF False n(1)] n by simp
    moreover obtain cp where "scalar_value cp" "utf8_encode cp = c # take need cs"
      using utf8_accept_head[of c need cs] False n by auto
    ultimately show ?thesis using utf8_text_encode[of cp "drop need cs"] by simp
  qed
qed

lemma utf8_valid_iff_text: "utf8_valid s \<longleftrightarrow> utf8_text s"
  using utf8_valid_text utf8_valid_concat unfolding utf8_text_def by blast

section \<open>The sanitizer\<close>

lemma utf8_replacement_encode: "utf8_replacement = utf8_encode 0xFFFD"
  by (auto simp: utf8_replacement_def utf8_encode_def intro!: char_ofI[symmetric])

lemma utf8_valid_replacement [simp]: "utf8_valid (utf8_replacement @ s) = utf8_valid s"
  by (simp only: utf8_replacement_encode) (rule utf8_valid_encode, simp add: scalar_value_def)

lemma utf8_valid_replacement_only [simp]: "utf8_valid utf8_replacement"
  using utf8_valid_replacement[of "[]"] by simp

lemma utf8_valid_sanitize_loop: "utf8_valid (utf8_sanitize_loop s)"
proof (induction s rule: utf8_sanitize_loop.induct)
  case 1
  then show ?case by simp
next
  case (2 c cs)
  show ?case
  proof (cases "byte c < 0x80")
    case True
    then show ?thesis using 2 by simp
  next
    case False
    note ge = False
    show ?thesis
    proof (cases "utf8_need (byte c)")
      case None
      then show ?thesis using False 2 by simp
    next
      case (Some need)
      show ?thesis
      proof (cases "need < length (c # cs) \<and> list_all is_cont (take need cs)
          \<and> \<not> utf8_bad_second (byte c) (byte (hd cs))")
        case True
        then obtain cp where cp: "scalar_value cp" "utf8_encode cp = c # take need cs"
          using utf8_accept_head[of c need cs] ge Some by auto
        have "utf8_valid (utf8_sanitize_loop (drop need cs))"
          using 2(3)[OF ge Some] True by simp
        with cp have "utf8_valid ((c # take need cs) @ utf8_sanitize_loop (drop need cs))"
          using utf8_valid_encode[OF cp(1)] by metis
        then show ?thesis using ge Some True by simp
      next
        case False
        then show ?thesis using ge Some 2(4)[OF ge Some] by auto
      qed
    qed
  qed
qed

lemma utf8_sanitize_valid: "utf8_valid (utf8_sanitize s)"
  by (simp add: utf8_sanitize_def utf8_valid_sanitize_loop)

lemma utf8_sanitize_id: "utf8_valid s \<Longrightarrow> utf8_sanitize s = s"
  by (simp add: utf8_sanitize_def)

section \<open>Cutting without splitting a sequence\<close>

text \<open>
  \<open>truncate_utf8\<close> (\<open>webfetch.h\<close>) and \<open>truncate_to\<close> (\<open>read.h\<close>) are the same loop: the cut moves
  back over continuation bytes.
\<close>

fun back_off :: "string \<Rightarrow> nat \<Rightarrow> nat" where
  "back_off s 0 = 0"
| "back_off s (Suc n) = (if is_cont (s ! Suc n) then back_off s n else Suc n)"

definition truncate_utf8 :: "string \<Rightarrow> nat \<Rightarrow> string" where
  "truncate_utf8 s max_bytes =
     (if length s \<le> max_bytes then s else take (back_off s max_bytes) s)"

lemma back_off_le: "back_off s n \<le> n"
  by (induction n) auto

lemma back_off_not_cont: "back_off s n = 0 \<or> \<not> is_cont (s ! back_off s n)"
  by (induction n) auto

lemma back_off_greatest: "j \<le> n \<Longrightarrow> \<not> is_cont (s ! j) \<Longrightarrow> j \<le> back_off s n"
  by (induction n) (auto simp: le_Suc_eq)

lemma encode_shape:
  assumes "scalar_value cp"
  shows "\<exists>c cs. utf8_encode cp = c # cs \<and> \<not> is_cont c \<and> list_all is_cont cs \<and> length cs \<le> 3"
proof -
  have lt: "x < 64 \<Longrightarrow> is_cont (char_of (0x80 + x))" for x :: nat by (rule is_cont_char_of)
  have d: "cp < 0x800 \<Longrightarrow> cp div 64 < 32" "cp < 0x10000 \<Longrightarrow> cp div 4096 < 16"
    "cp < 0x110000 \<Longrightarrow> cp div 262144 < 8" by linarith+
  show ?thesis using assms lt d
    by (auto simp: utf8_encode_def scalar_value_def is_cont_range)
qed

lemma text_cut:
  assumes "list_all scalar_value cps" "i \<le> length (concat (map utf8_encode cps))"
    and "i = length (concat (map utf8_encode cps)) \<or> \<not> is_cont (concat (map utf8_encode cps) ! i)"
  shows "utf8_text (take i (concat (map utf8_encode cps)))"
  using assms
proof (induction cps arbitrary: i)
  case Nil
  then show ?case by (simp add: utf8_text_Nil)
next
  case (Cons cp cps)
  let ?r = "concat (map utf8_encode cps)"
  obtain c cs where e: "utf8_encode cp = c # cs" "\<not> is_cont c" "list_all is_cont cs"
    using Cons.prems(1) encode_shape[of cp] by auto
  show ?case
  proof (cases "i \<le> length cs \<and> i \<noteq> 0")
    case True
    then have "is_cont ((c # cs) ! i)" using e(3) by (auto simp: list_all_length nth_Cons')
    moreover have "i - Suc 0 < length cs" using True by linarith
    ultimately have False using True Cons.prems(3) e(1) by (auto simp: nth_append)
    then show ?thesis ..
  next
    case False
    show ?thesis
    proof (cases "i = 0")
      case True
      then show ?thesis by (simp add: utf8_text_Nil)
    next
      case i: False
      with False have "length (c # cs) \<le> i" by simp
      then obtain k where k: "i = length (c # cs) + k" using le_Suc_ex by blast
      have nth: "((c # cs) @ ?r) ! i = ?r ! k"
        unfolding k by (rule nth_append_length_plus)
      have "utf8_text (take k ?r)"
        using Cons.IH[of k] Cons.prems e(1) nth k by auto
      then show ?thesis
        using utf8_text_encode[of cp] Cons.prems(1) e(1) k by simp
    qed
  qed
qed

lemma text_lead_near:
  assumes "list_all scalar_value cps" "i < length (concat (map utf8_encode cps))"
  shows "\<exists>j \<le> i. i < j + 4 \<and> \<not> is_cont (concat (map utf8_encode cps) ! j)"
  using assms
proof (induction cps arbitrary: i)
  case Nil
  then show ?case by simp
next
  case (Cons cp cps)
  let ?r = "concat (map utf8_encode cps)"
  obtain c cs where e: "utf8_encode cp = c # cs" "\<not> is_cont c" "length cs \<le> 3"
    using Cons.prems(1) encode_shape[of cp] by auto
  show ?case
  proof (cases "i \<le> length cs")
    case True
    then show ?thesis using e by (intro exI[of _ 0]) simp
  next
    case False
    then have "i - length (c # cs) < length ?r" using Cons.prems e(1) by auto
    with Cons.IH[of "i - length (c # cs)"] Cons.prems(1) obtain j where
      j: "j \<le> i - length (c # cs)" "i - length (c # cs) < j + 4" "\<not> is_cont (?r ! j)" by auto
    then show ?thesis using False e(1)
      by (intro exI[of _ "j + length (c # cs)"]) (auto simp: nth_append)
  qed
qed

lemma truncate_utf8_valid: "utf8_valid s \<Longrightarrow> utf8_valid (truncate_utf8 s m)"
proof -
  assume "utf8_valid s"
  then obtain cps where c: "list_all scalar_value cps" "s = concat (map utf8_encode cps)"
    unfolding utf8_valid_iff_text utf8_text_def by blast
  show ?thesis
  proof (cases "length s \<le> m")
    case True
    then show ?thesis using \<open>utf8_valid s\<close> by (simp add: truncate_utf8_def)
  next
    case False
    with back_off_le[of s m] have le: "back_off s m \<le> length s" by simp
    have "utf8_text (take (back_off s m) s)"
    proof (cases "back_off s m = 0")
      case True
      then show ?thesis by (simp add: utf8_text_Nil)
    next
      case b: False
      then show ?thesis
        using text_cut[OF c(1), of "back_off s m"] le back_off_not_cont[of s m] c(2) by auto
    qed
    then show ?thesis using False by (simp add: truncate_utf8_def utf8_valid_iff_text)
  qed
qed

lemma truncate_utf8_prefix: "prefix (truncate_utf8 s m) s"
  by (simp add: truncate_utf8_def take_is_prefix)

lemma truncate_utf8_length: "length (truncate_utf8 s m) \<le> m"
  using back_off_le[of s m] by (simp add: truncate_utf8_def)

lemma truncate_utf8_tight:
  assumes "utf8_valid s" "m < length s"
  shows "m < length (truncate_utf8 s m) + 4"
proof -
  obtain cps where c: "list_all scalar_value cps" "s = concat (map utf8_encode cps)"
    using assms(1) unfolding utf8_valid_iff_text utf8_text_def by blast
  obtain j where "j \<le> m" "m < j + 4" "\<not> is_cont (s ! j)"
    using text_lead_near[OF c(1), of m] assms(2) c(2) by auto
  then have "m < back_off s m + 4" using back_off_greatest[of j m s] by simp
  then show ?thesis using assms(2) back_off_le[of s m] by (simp add: truncate_utf8_def)
qed

section \<open>Properties\<close>

text \<open>C9: \<open>utf8_valid\<close> accepts exactly the UTF-8 encodings of sequences of Unicode scalar values (no
  surrogates, nothing above U+10FFFF, no overlong form).\<close>

theorem utf8_valid_decides: "utf8_valid s = utf8_text s"
  by (rule utf8_valid_iff_text)

text \<open>\<open>utf8_sanitize\<close> always returns valid UTF-8, and leaves exactly the valid texts alone.\<close>

theorem utf8_sanitize_correct:
  "utf8_valid (utf8_sanitize s) \<and> (utf8_sanitize s = s) = utf8_valid s"
  by (metis utf8_sanitize_id utf8_sanitize_valid)

text \<open>cutting a valid text longer than the limit gives a valid prefix within the limit, at most
  three bytes short of it.\<close>

theorem truncate_keeps_valid:
  assumes "utf8_valid s" and "m < length s"
  shows "utf8_valid (truncate_utf8 s m) \<and> prefix (truncate_utf8 s m) s \<and>
    length (truncate_utf8 s m) \<le> m \<and> m < length (truncate_utf8 s m) + 4"
  using truncate_utf8_valid truncate_utf8_prefix truncate_utf8_length truncate_utf8_tight assms
  by blast

theorem truncate_keeps_valid_witness:
  "utf8_valid (truncate_utf8 (''ab'' @ utf8_replacement) 4) \<and>
   truncate_utf8 (''ab'' @ utf8_replacement) 4 = ''ab''"
proof
  have "utf8_valid (''ab'' @ utf8_replacement)" "4 < length (''ab'' @ utf8_replacement)"
    by code_simp+
  from truncate_keeps_valid[OF this] show "utf8_valid (truncate_utf8 (''ab'' @ utf8_replacement) 4)"
    by blast
  show "truncate_utf8 (''ab'' @ utf8_replacement) 4 = ''ab''" by code_simp
qed

text \<open>a lead byte whose sequence would run past the end swallows the whole rest: the sanitizer
  returns one U+FFFD and drops valid bytes that follow it.\<close>

theorem utf8_sanitize_drops_tail:
  "utf8_sanitize (''ok'' @ [CHR 0xE2, CHR ''A'']) = ''ok'' @ utf8_replacement"
  by code_simp

end
