(* ===== verification/Json_Value.thy ===== *)
theory Json_Value
  imports Utf8
begin

text \<open>
  JSON values and the reads and writes the sources make of them. The library (\<open>nlohmann::json\<close>) is
  not part of the repository: its parser and printer are parameters wherever they are used, and
  the accessors below state its documented behaviour on a value, failures included (a read of the
  wrong type throws \<open>type_error\<close>, \<open>operator[]\<close> on a constant object without the key is undefined).
  \<open>sanitize_json_strings\<close> is the function of \<open>src/utf8.h\<close>.
\<close>

section \<open>Values\<close>

text \<open>
  An object keeps its members in key order. A floating-point number is represented by its value
  truncated towards zero, the only thing the program ever reads of one.
\<close>

datatype json =
    JNull
  | JBool bool
  | JInt int
  | JFloat int
  | JStr string
  | JArr "json list"
  | JObj "(string \<times> json) list"

definition type_error_302 :: failure where "type_error_302 = Thrown ''type_error.302''"
definition type_error_305 :: failure where "type_error_305 = Thrown ''type_error.305''"
definition type_error_306 :: failure where "type_error_306 = Thrown ''type_error.306''"

section \<open>Reading\<close>

fun jfind :: "json \<Rightarrow> string \<Rightarrow> json option" where
  "jfind (JObj m) k = map_of m k"
| "jfind _ k = None"

definition jcontains :: "json \<Rightarrow> string \<Rightarrow> bool" where
  "jcontains j k \<longleftrightarrow> jfind j k \<noteq> None"

fun is_jstr :: "json \<Rightarrow> bool" where
  "is_jstr (JStr s) = True"
| "is_jstr _ = False"

text \<open>\<open>j.get<T>()\<close>.\<close>

fun get_str :: "json \<Rightarrow> string outcome" where
  "get_str (JStr s) = Inr s"
| "get_str _ = Inl type_error_302"

fun get_bool :: "json \<Rightarrow> bool outcome" where
  "get_bool (JBool b) = Inr b"
| "get_bool _ = Inl type_error_302"

fun get_i64 :: "json \<Rightarrow> int outcome" where
  "get_i64 (JInt i) = Inr i"
| "get_i64 (JFloat i) = Inr i"
| "get_i64 (JBool b) = Inr (if b then 1 else 0)"
| "get_i64 _ = Inl type_error_302"

definition get_int :: "json \<Rightarrow> int outcome" where
  "get_int j = (case get_i64 j of Inl e \<Rightarrow> Inl e | Inr i \<Rightarrow> Inr (to_int32 i))"

text \<open>\<open>j.value(key, default)\<close>: the default when the key is absent, \<open>type_error.306\<close> on a non-object.\<close>

definition value_of :: "(json \<Rightarrow> 'a outcome) \<Rightarrow> json \<Rightarrow> string \<Rightarrow> 'a \<Rightarrow> 'a outcome" where
  "value_of get j k d =
     (case j of
        JObj m \<Rightarrow> (case map_of m k of None \<Rightarrow> Inr d | Some v \<Rightarrow> get v)
      | _ \<Rightarrow> Inl type_error_306)"

abbreviation value_str :: "json \<Rightarrow> string \<Rightarrow> string \<Rightarrow> string outcome" where
  "value_str \<equiv> value_of get_str"

abbreviation value_int :: "json \<Rightarrow> string \<Rightarrow> int \<Rightarrow> int outcome" where
  "value_int \<equiv> value_of get_int"

abbreviation value_i64 :: "json \<Rightarrow> string \<Rightarrow> int \<Rightarrow> int outcome" where
  "value_i64 \<equiv> value_of get_i64"

abbreviation value_bool :: "json \<Rightarrow> string \<Rightarrow> bool \<Rightarrow> bool outcome" where
  "value_bool \<equiv> value_of get_bool"

abbreviation value_json :: "json \<Rightarrow> string \<Rightarrow> json \<Rightarrow> json outcome" where
  "value_json \<equiv> value_of Inr"

text \<open>\<open>j[key]\<close> on a constant value: undefined when an object lacks the key.\<close>

fun jindex :: "json \<Rightarrow> string \<Rightarrow> json outcome" where
  "jindex (JObj m) k = (case map_of m k of None \<Rightarrow> Inl Undefined | Some v \<Rightarrow> Inr v)"
| "jindex _ k = Inl type_error_305"

text \<open>\<open>j[key]\<close> read on a mutable value: a missing member reads as the null it creates.\<close>

fun jsub :: "json \<Rightarrow> string \<Rightarrow> json outcome" where
  "jsub (JObj m) k = Inr (case map_of m k of None \<Rightarrow> JNull | Some v \<Rightarrow> v)"
| "jsub JNull k = Inr JNull"
| "jsub _ k = Inl type_error_305"

section \<open>Writing\<close>

text \<open>\<open>j[key] = v\<close>: a null becomes an object.\<close>

fun jset :: "json \<Rightarrow> string \<Rightarrow> json \<Rightarrow> json outcome" where
  "jset (JObj m) k v = Inr (JObj (om_put k v m))"
| "jset JNull k v = Inr (JObj [(k, v)])"
| "jset _ k v = Inl type_error_305"

text \<open>\<open>*it = v\<close> through an iterator found by key.\<close>

fun jreplace :: "json \<Rightarrow> string \<Rightarrow> json \<Rightarrow> json" where
  "jreplace (JObj m) k v = JObj (om_put k v m)"
| "jreplace j k v = j"

text \<open>\<open>j.update(fields)\<close> and the object literal of an initializer list.\<close>

definition jobj :: "(string \<times> json) list \<Rightarrow> json" where
  "jobj kvs = JObj (fold (\<lambda>(k, v) m. om_put k v m) kvs [])"

fun jupdate :: "json \<Rightarrow> json \<Rightarrow> json" where
  "jupdate (JObj m) (JObj n) = JObj (fold (\<lambda>(k, v) m. om_put k v m) n m)"
| "jupdate j _ = j"

lemma map_of_fold_put:
  "map_of (fold (\<lambda>(k, v) m. om_put k v m) kvs m) k =
     (case map_of (rev kvs) k of Some v \<Rightarrow> Some v | None \<Rightarrow> map_of m k)"
proof (induction kvs arbitrary: m)
  case (Cons kv kvs)
  obtain k' v' where kv: "kv = (k', v')" by fastforce
  have "map_of (om_put k' v' m) k = (if k = k' then Some v' else map_of m k)"
    using om_get_put[of k' v' m k] by (simp add: om_get_def)
  then show ?case using Cons kv by (auto simp: map_add_def split: option.splits)
qed simp

lemma jfind_jobj: "jfind (jobj kvs) k = map_of (rev kvs) k"
  by (simp add: jobj_def map_of_fold_put split: option.splits)

lemma jfind_jset: "jset j k v = Inr j' \<Longrightarrow> jfind j' k' = (if k' = k then Some v else jfind j k')"
  using om_get_put[of k v _ k'] by (cases "(j, k, v)" rule: jset.cases) (auto simp: om_get_def)

section \<open>Making every string valid UTF-8\<close>

text \<open>Only values are visited: \<open>item.value()\<close> leaves the member names alone.\<close>

fun sanitize_json_strings :: "json \<Rightarrow> json" where
  "sanitize_json_strings (JStr s) = JStr (utf8_sanitize s)"
| "sanitize_json_strings (JArr xs) = JArr (map sanitize_json_strings xs)"
| "sanitize_json_strings (JObj m) = JObj (map (\<lambda>(k, v). (k, sanitize_json_strings v)) m)"
| "sanitize_json_strings j = j"

fun json_values_valid :: "json \<Rightarrow> bool" where
  "json_values_valid (JStr s) = utf8_valid s"
| "json_values_valid (JArr xs) = list_all json_values_valid xs"
| "json_values_valid (JObj m) = list_all (\<lambda>(k, v). json_values_valid v) m"
| "json_values_valid j = True"

lemma sanitize_json_valid: "json_values_valid (sanitize_json_strings j)"
  by (induction j rule: sanitize_json_strings.induct)
     (auto simp: utf8_sanitize_valid list_all_iff)

lemma sanitize_json_id: "json_values_valid j \<Longrightarrow> sanitize_json_strings j = j"
  by (induction j rule: json_values_valid.induct)
     (auto simp: utf8_sanitize_id list_all_iff intro!: map_idI)

lemma sanitize_json_find:
  "jfind (sanitize_json_strings j) k = map_option sanitize_json_strings (jfind j k)"
  by (cases j) (simp_all add: map_of_map)

section \<open>Properties\<close>

text \<open>after \<open>sanitize_json_strings\<close> every string value of the document is valid UTF-8, and a second
  run changes nothing.\<close>

theorem sanitize_json_correct:
  "json_values_valid (sanitize_json_strings j) \<and>
   sanitize_json_strings (sanitize_json_strings j) = sanitize_json_strings j"
  by (simp add: sanitize_json_valid sanitize_json_id)

end
