(* ===== verification/Messages.thy ===== *)
theory Messages
  imports Json_Value
begin

text \<open>
  The data every component passes around: the conversation (\<open>src/message/message.h\<close>), the stream
  events a provider emits and the callbacks of \<open>StreamSink\<close> (\<open>src/agent.h\<close>), the tool registry
  (\<open>src/tool/tool.h\<close>) and the state of a provider (\<open>src/provider/provider.h\<close>). The well-formedness
  of a conversation (each tool use answered by its results, in order) is defined here, because the
  agent keeps it and the provider relies on it.
\<close>

section \<open>Conversation\<close>

datatype role = User | Assistant | System

datatype content_block =
    TextBlock (tb_text: string)
  | ToolUseBlock (tu_id: string) (tu_name: string) (tu_input: json)
  | ToolResultBlock (tr_tool_use_id: string) (tr_content: string)

record message =
  msg_role :: role
  msg_content :: "content_block list"

record tool_definition =
  td_name :: string
  td_description :: string
  td_input_schema :: json

datatype stream_event =
    TextDelta string
  | ToolUseStart int string string
  | ToolInputDelta int string
  | ToolUseEnd
  | MessageEnd string

text \<open>One constructor per callback of \<open>StreamSink\<close>; a sink is the list of the calls it received.\<close>

datatype sink_call =
    SinkHeader string string
  | SinkTextDelta string
  | SinkToolStart string
  | SinkToolCall string json
  | SinkToolResult string bool
  | SinkSummary string int int
  | SinkWarning string

abbreviation user_text :: "string \<Rightarrow> message" where
  "user_text t \<equiv> \<lparr>msg_role = User, msg_content = [TextBlock t]\<rparr>"

abbreviation tool_answer :: "string \<Rightarrow> string \<Rightarrow> message" where
  "tool_answer i c \<equiv> \<lparr>msg_role = User, msg_content = [ToolResultBlock i c]\<rparr>"

section \<open>Well-formed conversations\<close>

text \<open>
  Scanning a conversation with the ids of the tool uses not yet answered: an assistant message opens
  its tool uses, a result answers the oldest of them, and a user text or another assistant message
  may come only when none is open. \<open>None\<close> is a malformed conversation.
\<close>

fun tool_use_ids :: "content_block list \<Rightarrow> string list" where
  "tool_use_ids [] = []"
| "tool_use_ids (ToolUseBlock i n a # bs) = i # tool_use_ids bs"
| "tool_use_ids (b # bs) = tool_use_ids bs"

definition open_after_message :: "string list \<Rightarrow> message \<Rightarrow> string list option" where
  "open_after_message opened m =
     (case (msg_role m, msg_content m) of
        (User, [ToolResultBlock i c]) \<Rightarrow>
          (case opened of [] \<Rightarrow> None | j # js \<Rightarrow> if i = j then Some js else None)
      | (User, [TextBlock t]) \<Rightarrow> if opened = [] then Some [] else None
      | (Assistant, bs) \<Rightarrow>
          if opened = [] \<and> list_all (\<lambda>b. case b of ToolResultBlock i c \<Rightarrow> False | _ \<Rightarrow> True) bs
          then Some (tool_use_ids bs) else None
      | _ \<Rightarrow> None)"

fun open_after :: "string list \<Rightarrow> message list \<Rightarrow> string list option" where
  "open_after opened [] = Some opened"
| "open_after opened (m # ms) =
     (case open_after_message opened m of None \<Rightarrow> None | Some o' \<Rightarrow> open_after o' ms)"

definition well_formed :: "message list \<Rightarrow> bool" where
  "well_formed ms \<longleftrightarrow> open_after [] ms = Some []"

lemma open_after_append:
  "open_after q (xs @ ys) = (case open_after q xs of None \<Rightarrow> None | Some r \<Rightarrow> open_after r ys)"
  by (induction xs arbitrary: q) (auto split: option.splits)

lemma open_after_user_text [simp]: "open_after_message [] (user_text t) = Some []"
  by (simp add: open_after_message_def)

lemma open_after_tool_answer [simp]: "open_after_message (i # js) (tool_answer i c) = Some js"
  by (simp add: open_after_message_def)

lemma well_formed_Nil [simp]: "well_formed []"
  by (simp add: well_formed_def)

section \<open>Tool registry\<close>

text \<open>A registered tool is known to the registry by its definition (name, description, schema).\<close>

type_synonym registry = "(string, tool_definition) omap"

definition register_tool :: "tool_definition \<Rightarrow> registry \<Rightarrow> registry" where
  "register_tool t r = om_put (td_name t) t r"

definition registry_definitions :: "registry \<Rightarrow> tool_definition list" where
  "registry_definitions r = map snd r"

definition registry_get :: "registry \<Rightarrow> string \<Rightarrow> tool_definition option" where
  "registry_get r name = om_get r name"

definition registry_has :: "registry \<Rightarrow> string \<Rightarrow> bool" where
  "registry_has r name \<longleftrightarrow> om_get r name \<noteq> None"

text \<open>The names registered by \<open>register_builtin_tools\<close> (\<open>src/tool/registry.h\<close>), in its order.\<close>

definition builtin_tool_names :: "string list" where
  "builtin_tool_names =
     [''apply_patch'', ''bash'', ''read'', ''write'', ''edit'', ''glob'', ''grep'', ''ls'', ''skill'',
      ''websearch'', ''webfetch'']"

definition register_builtin_tools :: "(string \<Rightarrow> tool_definition) \<Rightarrow> registry \<Rightarrow> registry" where
  "register_builtin_tools tool_named r =
     fold (\<lambda>n. register_tool (tool_named n)) builtin_tool_names r"

lemma registry_get_register:
  "registry_get (register_tool t r) n = (if n = td_name t then Some t else registry_get r n)"
  by (simp add: registry_get_def register_tool_def om_get_put)

section \<open>Provider state\<close>

record provider =
  p_name :: string
  p_api_key :: string
  p_model :: string
  p_prompt_tokens :: int
  p_completion_tokens :: int
  p_cancel :: bool
  p_context_cache :: "(string, int) omap"

definition request_cancel :: "provider \<Rightarrow> provider" where
  "request_cancel p = p\<lparr>p_cancel := True\<rparr>"

definition clear_cancel :: "provider \<Rightarrow> provider" where
  "clear_cancel p = p\<lparr>p_cancel := False\<rparr>"

text \<open>\<open>context_window\<close>: \<open>query\<close> is the catalogue request, made on a cache miss only.\<close>

definition context_window :: "(string \<Rightarrow> int) \<Rightarrow> string \<Rightarrow> provider \<Rightarrow> int \<times> provider" where
  "context_window query model p =
     (case om_get (p_context_cache p) model of
        Some ctx \<Rightarrow> (ctx, p)
      | None \<Rightarrow>
          let ctx = query model
          in (ctx, p\<lparr>p_context_cache := om_put model ctx (p_context_cache p)\<rparr>))"

lemma context_window_cached:
  "context_window q' m (snd (context_window q m p)) =
     (fst (context_window q m p), snd (context_window q m p))"
  by (auto simp: context_window_def Let_def om_get_put split: option.splits)

end
