(* ===== verification/Openrouter.thy ===== *)
theory Openrouter
  imports Messages
begin

text \<open>
  \<open>src/provider/openrouter.cpp\<close>: the URLs, the request body built from a conversation, the
  server-sent-event stream (the write callback that reassembles lines, \<open>emit_sse_data\<close> that turns
  one data line into stream events) and the outcome of \<open>complete\<close>. JSON parsing and printing and
  the HTTP transport are parameters.
\<close>

section \<open>URLs\<close>

definition api_url :: "string option \<Rightarrow> string" where
  "api_url base_env =
     (case base_env of Some b \<Rightarrow> b | None \<Rightarrow> ''https://openrouter.ai/api/v1/chat/completions'')"

definition models_url :: "string option \<Rightarrow> string" where
  "models_url base_env =
     (let url = api_url base_env; sfx = ''/chat/completions''
      in if ends_with url sfx then take (length url - length sfx) url @ ''/models''
         else url @ ''/models'')"

text \<open>\<open>query_context_window\<close> on the parsed catalogue; any failure is \<open>-1\<close>.\<close>

fun jelems :: "json \<Rightarrow> json list" where
  "jelems (JArr xs) = xs"
| "jelems (JObj m) = map snd m"
| "jelems JNull = []"
| "jelems j = [j]"

fun find_context_length :: "string \<Rightarrow> json list \<Rightarrow> int outcome" where
  "find_context_length model [] = Inr (-1)"
| "find_context_length model (e # es) =
     (case value_str e ''id'' '''' of
        Inl x \<Rightarrow> Inl x
      | Inr i \<Rightarrow> if i = model then value_int e ''context_length'' (-1)
                 else find_context_length model es)"

definition query_context_window ::
    "(string \<Rightarrow> json option) \<Rightarrow> (bool \<times> int \<times> string) \<Rightarrow> string \<Rightarrow> int" where
  "query_context_window parse response model =
     (case response of (err, status, body) \<Rightarrow>
        if err \<or> status \<noteq> 200 then -1
        else (case parse body of
            None \<Rightarrow> -1
          | Some j \<Rightarrow>
              (case value_json j ''data'' (JArr []) of
                 Inl _ \<Rightarrow> -1
               | Inr d \<Rightarrow> (case find_context_length model (jelems d) of Inl _ \<Rightarrow> -1 | Inr c \<Rightarrow> c))))"

section \<open>Stream events of one data line\<close>

record sse_state =
  sse_tool_id :: string
  sse_tool_name :: string
  sse_prompt_tokens :: int
  sse_completion_tokens :: int
  sse_events :: "stream_event list"

definition sse_emit :: "stream_event \<Rightarrow> sse_state \<Rightarrow> sse_state" where
  "sse_emit e s = s\<lparr>sse_events := sse_events s @ [e]\<rparr>"

text \<open>
  A thrown JSON exception stops the handling of the line and keeps what was done before it, so each
  part returns the exception, if any, with the state reached.
\<close>

type_synonym sse_part = "sse_state \<Rightarrow> failure option \<times> sse_state"

definition sse_then :: "sse_part \<Rightarrow> sse_part \<Rightarrow> sse_part" where
  "sse_then f g s = (case f s of (Some e, s') \<Rightarrow> (Some e, s') | (None, s') \<Rightarrow> g s')"

definition jempty :: "json \<Rightarrow> bool" where
  "jempty j \<longleftrightarrow> (case j of JNull \<Rightarrow> True | JArr xs \<Rightarrow> xs = [] | JObj m \<Rightarrow> m = [] | _ \<Rightarrow> False)"

definition sse_usage :: "json \<Rightarrow> sse_part" where
  "sse_usage chunk s =
     (case jfind chunk ''usage'' of
        None \<Rightarrow> (None, s)
      | Some JNull \<Rightarrow> (None, s)
      | Some u \<Rightarrow>
          (case value_int u ''prompt_tokens'' 0 of
             Inl e \<Rightarrow> (Some e, s)
           | Inr p \<Rightarrow>
               let s1 = s\<lparr>sse_prompt_tokens := p\<rparr>
               in (case value_int u ''completion_tokens'' 0 of
                     Inl e \<Rightarrow> (Some e, s1)
                   | Inr c \<Rightarrow> (None, s1\<lparr>sse_completion_tokens := c\<rparr>))))"

definition sse_finish :: "json \<Rightarrow> sse_part" where
  "sse_finish choice s =
     (case jfind choice ''finish_reason'' of
        None \<Rightarrow> (None, s)
      | Some JNull \<Rightarrow> (None, s)
      | Some r \<Rightarrow>
          let s1 = (if sse_tool_id s \<noteq> []
                    then sse_emit ToolUseEnd (s\<lparr>sse_tool_id := [], sse_tool_name := []\<rparr>) else s)
          in (case get_str r of
                Inl e \<Rightarrow> (Some e, s1)
              | Inr t \<Rightarrow> (None, sse_emit (MessageEnd t) s1)))"

definition sse_content :: "json \<Rightarrow> sse_part" where
  "sse_content delta s =
     (case jfind delta ''content'' of
        None \<Rightarrow> (None, s)
      | Some JNull \<Rightarrow> (None, s)
      | Some c \<Rightarrow> (case get_str c of Inl e \<Rightarrow> (Some e, s) | Inr t \<Rightarrow> (None, sse_emit (TextDelta t) s)))"

text \<open>The two halves of one element of \<open>tool_calls\<close>: a new call, then a piece of its arguments.\<close>

definition sse_call_start :: "int \<Rightarrow> json \<Rightarrow> sse_part" where
  "sse_call_start index tc s =
     (case jfind tc ''id'' of
        None \<Rightarrow> (None, s)
      | Some JNull \<Rightarrow> (None, s)
      | Some i \<Rightarrow>
          (case get_str i of
             Inl e \<Rightarrow> (Some e, s)
           | Inr tid \<Rightarrow>
               let s1 = s\<lparr>sse_tool_id := tid\<rparr>;
                   nm = (case jfind tc ''function'' of
                           None \<Rightarrow> Inr []
                         | Some f \<Rightarrow> (case jfind f ''name'' of None \<Rightarrow> Inr [] | Some n \<Rightarrow> get_str n))
               in (case nm of
                     Inl e \<Rightarrow> (Some e, s1)
                   | Inr n \<Rightarrow> (None, sse_emit (ToolUseStart index tid n) (s1\<lparr>sse_tool_name := n\<rparr>)))))"

definition sse_call_args :: "int \<Rightarrow> json \<Rightarrow> sse_part" where
  "sse_call_args index tc s =
     (case jfind tc ''function'' of
        None \<Rightarrow> (None, s)
      | Some f \<Rightarrow>
          (case jfind f ''arguments'' of
             None \<Rightarrow> (None, s)
           | Some JNull \<Rightarrow> (None, s)
           | Some a \<Rightarrow> (case get_str a of
                 Inl e \<Rightarrow> (Some e, s)
               | Inr t \<Rightarrow> (None, sse_emit (ToolInputDelta index t) s))))"

definition sse_call :: "json \<Rightarrow> sse_part" where
  "sse_call tc s =
     (case value_int tc ''index'' 0 of
        Inl e \<Rightarrow> (Some e, s)
      | Inr index \<Rightarrow> sse_then (sse_call_start index tc) (sse_call_args index tc) s)"

fun sse_calls :: "json list \<Rightarrow> sse_part" where
  "sse_calls [] s = (None, s)"
| "sse_calls (tc # tcs) s = sse_then (sse_call tc) (sse_calls tcs) s"

definition sse_delta :: "json \<Rightarrow> sse_part" where
  "sse_delta choice s =
     (case jfind choice ''delta'' of
        None \<Rightarrow> (None, s)
      | Some delta \<Rightarrow>
          sse_then (sse_content delta)
            (\<lambda>s. case jfind delta ''tool_calls'' of
                   None \<Rightarrow> (None, s)
                 | Some tcs \<Rightarrow> sse_calls (jelems tcs) s) s)"

definition sse_choices :: "json \<Rightarrow> sse_part" where
  "sse_choices chunk s =
     (case jfind chunk ''choices'' of
        None \<Rightarrow> (None, s)
      | Some cs \<Rightarrow>
          if jempty cs then (None, s)
          else (case cs of
              JArr (choice # _) \<Rightarrow> sse_then (sse_finish choice) (sse_delta choice) s
            | _ \<Rightarrow> (Some type_error_305, s)))"

definition emit_sse_data :: "(string \<Rightarrow> json option) \<Rightarrow> string \<Rightarrow> sse_state \<Rightarrow> sse_state" where
  "emit_sse_data parse data s =
     (if data = ''[DONE]'' then sse_emit (MessageEnd []) s
      else (case parse data of
          None \<Rightarrow> s
        | Some chunk \<Rightarrow> snd (sse_then (sse_usage chunk) (sse_choices chunk) s)))"

section \<open>The write callback: lines out of chunks\<close>

definition kErrorTail :: nat where "kErrorTail = 16384"

record sse_reader =
  rd_pending :: string
  rd_error_tail :: string
  rd_sse :: sse_state

definition sse_line :: "(string \<Rightarrow> json option) \<Rightarrow> string \<Rightarrow> sse_state \<Rightarrow> sse_state" where
  "sse_line parse line s =
     (if take 6 line = ''data: '' then emit_sse_data parse (drop 6 line) s else s)"

function sse_drain ::
    "(string \<Rightarrow> json option) \<Rightarrow> string \<Rightarrow> sse_state \<Rightarrow> string \<times> sse_state" where
  "sse_drain parse pending s =
     (case split_at nl pending of
        None \<Rightarrow> (pending, s)
      | Some (line, rest) \<Rightarrow> sse_drain parse rest (sse_line parse line s))"
  by pat_completeness auto
termination
  by (relation "measure (\<lambda>(parse, pending, s). length pending)") (auto dest: split_at_length)

declare sse_drain.simps [simp del]

definition keep_tail :: "nat \<Rightarrow> string \<Rightarrow> string" where
  "keep_tail n s = (if length s > n then drop (length s - n) s else s)"

definition sse_chunk :: "(string \<Rightarrow> json option) \<Rightarrow> string \<Rightarrow> sse_reader \<Rightarrow> sse_reader" where
  "sse_chunk parse data r =
     (let tail = keep_tail kErrorTail (rd_error_tail r @ data);
          (pending, s) = sse_drain parse (rd_pending r @ data) (rd_sse r)
      in r\<lparr>rd_error_tail := tail, rd_pending := pending, rd_sse := s\<rparr>)"

definition sse_stream :: "(string \<Rightarrow> json option) \<Rightarrow> string list \<Rightarrow> sse_reader \<Rightarrow> sse_reader" where
  "sse_stream parse chunks r = fold (sse_chunk parse) chunks r"

definition sse_start :: "int \<Rightarrow> int \<Rightarrow> sse_reader" where
  "sse_start p c =
     \<lparr>rd_pending = [], rd_error_tail = [],
      rd_sse = \<lparr>sse_tool_id = [], sse_tool_name = [], sse_prompt_tokens = p,
                sse_completion_tokens = c, sse_events = []\<rparr>\<rparr>"

text \<open>Draining in two goes is draining at once: the leftover of the first is the start of the second.\<close>

lemma sse_drain_append:
  "sse_drain parse (x @ y) s =
     (let (p, s') = sse_drain parse x s in sse_drain parse (p @ y) s')"
proof (induction parse x s rule: sse_drain.induct)
  case (1 parse x s)
  show ?case
  proof (cases "split_at nl x")
    case None
    then show ?thesis by (simp add: sse_drain.simps[of parse x])
  next
    case (Some lr)
    obtain line rest where lr: "lr = (line, rest)" by fastforce
    with Some have a: "split_at nl (x @ y) = Some (line, rest @ y)" by (simp add: split_at_append)
    show ?thesis using 1 Some lr a
      by (simp add: sse_drain.simps[of parse x] sse_drain.simps[of parse "x @ y"])
  qed
qed

lemma keep_tail_append: "keep_tail n (keep_tail n x @ y) = keep_tail n (x @ y)"
  by (auto simp: keep_tail_def add.commute)

lemma sse_chunk_chunk: "sse_chunk parse b (sse_chunk parse a r) = sse_chunk parse (a @ b) r"
  using sse_drain_append[of parse "rd_pending r @ a" b "rd_sse r"]
    keep_tail_append[of kErrorTail "rd_error_tail r @ a" b]
  by (simp add: sse_chunk_def Let_def split_beta)

lemma sse_stream_concat:
  "cs \<noteq> [] \<Longrightarrow> sse_stream parse cs r = sse_chunk parse (concat cs) r"
proof (induction cs arbitrary: r)
  case (Cons c cs)
  show ?case
  proof (cases "cs = []")
    case True
    then show ?thesis by (simp add: sse_stream_def)
  next
    case False
    have "sse_stream parse (c # cs) r = sse_stream parse cs (sse_chunk parse c r)"
      by (simp add: sse_stream_def)
    then show ?thesis using Cons.IH[OF False] by (simp add: sse_chunk_chunk)
  qed
qed simp

section \<open>The request body\<close>

text \<open>One conversation message becomes zero or more API messages; \<open>dump\<close> prints JSON.\<close>

fun api_user_block :: "content_block \<Rightarrow> json list" where
  "api_user_block (TextBlock t) = [jobj [(''role'', JStr ''user''), (''content'', JStr t)]]"
| "api_user_block (ToolResultBlock i c) =
     [jobj [(''role'', JStr ''tool''), (''content'', JStr c), (''tool_call_id'', JStr i)]]"
| "api_user_block (ToolUseBlock i n a) = []"

fun assistant_text :: "content_block list \<Rightarrow> string" where
  "assistant_text [] = []"
| "assistant_text (TextBlock t # bs) = t @ assistant_text bs"
| "assistant_text (b # bs) = assistant_text bs"

fun assistant_calls :: "(json \<Rightarrow> string) \<Rightarrow> content_block list \<Rightarrow> json list" where
  "assistant_calls dump [] = []"
| "assistant_calls dump (ToolUseBlock i n a # bs) =
     jobj [(''id'', JStr i), (''type'', JStr ''function''),
           (''function'', jobj [(''name'', JStr n),
                              (''arguments'', JStr (dump (sanitize_json_strings a)))])]
       # assistant_calls dump bs"
| "assistant_calls dump (b # bs) = assistant_calls dump bs"

definition api_assistant :: "(json \<Rightarrow> string) \<Rightarrow> content_block list \<Rightarrow> json" where
  "api_assistant dump bs =
     (let text_content = assistant_text bs; tool_calls = assistant_calls dump bs
      in jobj ([(''role'', JStr ''assistant'')]
         @ (if text_content \<noteq> [] then [(''content'', JStr text_content)] else [])
         @ (if tool_calls \<noteq> [] then [(''tool_calls'', JArr tool_calls)] else [])))"

definition api_of_message :: "(json \<Rightarrow> string) \<Rightarrow> message \<Rightarrow> json list" where
  "api_of_message dump m =
     (case msg_role m of
        User \<Rightarrow> concat (map api_user_block (msg_content m))
      | Assistant \<Rightarrow> [api_assistant dump (msg_content m)]
      | System \<Rightarrow> [])"

definition api_messages :: "(json \<Rightarrow> string) \<Rightarrow> string \<Rightarrow> message list \<Rightarrow> json list" where
  "api_messages dump system msgs =
     jobj [(''role'', JStr ''system''), (''content'', JStr system)]
       # concat (map (api_of_message dump) msgs)"

definition api_tool :: "tool_definition \<Rightarrow> json" where
  "api_tool t =
     jobj [(''type'', JStr ''function''),
           (''function'', jobj [(''name'', JStr (td_name t)),
              (''description'', JStr (td_description t)), (''parameters'', td_input_schema t)])]"

definition request_body ::
    "(json \<Rightarrow> string) \<Rightarrow> string \<Rightarrow> string \<Rightarrow> message list \<Rightarrow> tool_definition list \<Rightarrow> json" where
  "request_body dump model system msgs tools =
     (let body = sanitize_json_strings
            (jobj [(''model'', JStr model), (''stream'', JBool True),
                   (''messages'', JArr (api_messages dump system msgs))])
      in if tools = [] then body
         else jreplace body ''tools'' (JArr (map api_tool tools)))"

text \<open>The outcome of \<open>complete\<close>: what the transport delivered, and the exception it ends with, if any.\<close>

record http_reply =
  http_chunks :: "string list"
  http_error :: "string option"
  http_status :: int

definition openrouter_complete ::
    "(string \<Rightarrow> json option) \<Rightarrow> http_reply \<Rightarrow> provider \<Rightarrow>
      stream_event list \<times> failure option \<times> provider" where
  "openrouter_complete parse reply p =
     (let r = sse_stream parse (http_chunks reply)
                (sse_start (p_prompt_tokens p) (p_completion_tokens p));
          tail = rd_error_tail r;
          p' = p\<lparr>p_prompt_tokens := sse_prompt_tokens (rd_sse r),
                 p_completion_tokens := sse_completion_tokens (rd_sse r)\<rparr>;
          failed = (case http_error reply of
              Some msg \<Rightarrow> Some (Thrown (''OpenRouter request error: '' @ msg
                            @ (if tail = [] then [] else '' '' @ tail)))
            | None \<Rightarrow>
                if http_status reply \<noteq> 200
                then Some (Thrown (''OpenRouter API error: '' @ int_str (http_status reply)
                            @ '' '' @ tail))
                else None)
      in (sse_events (rd_sse r), failed, p'))"

text \<open>\<open>chat\<close>: one request, the four fields of the reply, or the exception of the first bad one.\<close>

fun jfirst :: "json \<Rightarrow> json outcome" where
  "jfirst (JArr (x # xs)) = Inr x"
| "jfirst (JArr []) = Inr JNull"
| "jfirst JNull = Inr JNull"
| "jfirst _ = Inl type_error_305"

record chat_response =
  cr_message :: string
  cr_model :: string
  cr_prompt_tokens :: int
  cr_completion_tokens :: int

definition chat_body :: "string \<Rightarrow> string \<Rightarrow> json" where
  "chat_body model prompt =
     sanitize_json_strings (jobj [(''model'', JStr model),
       (''messages'', JArr [jobj [(''role'', JStr ''user''), (''content'', JStr prompt)]])])"

definition openrouter_chat ::
    "(string \<Rightarrow> json option) \<Rightarrow> string \<Rightarrow> provider \<Rightarrow> chat_response outcome \<times> provider" where
  "openrouter_chat parse body p =
     (case parse body of
        None \<Rightarrow> (Inl (Thrown ''parse_error''), p)
      | Some j \<Rightarrow>
         (let result =
            bind_outcome (jsub j ''choices'') (\<lambda>cs.
            bind_outcome (jfirst cs) (\<lambda>c.
            bind_outcome (jsub c ''message'') (\<lambda>m.
            bind_outcome (jsub m ''content'') (\<lambda>t.
            bind_outcome (get_str t) (\<lambda>msg.
            bind_outcome (jsub j ''model'') (\<lambda>mj.
            bind_outcome (get_str mj) (\<lambda>model.
            bind_outcome (jsub j ''usage'') (\<lambda>u.
            bind_outcome (jsub u ''prompt_tokens'') (\<lambda>pj.
            bind_outcome (get_int pj) (\<lambda>pt.
            bind_outcome (jsub u ''completion_tokens'') (\<lambda>cj.
            bind_outcome (get_int cj) (\<lambda>ct.
              Inr \<lparr>cr_message = msg, cr_model = model, cr_prompt_tokens = pt,
                    cr_completion_tokens = ct\<rparr>))))))))))))
          in (case result of
                Inl e \<Rightarrow> (Inl e, p)
              | Inr r \<Rightarrow> (Inr r, p\<lparr>p_prompt_tokens := cr_prompt_tokens r,
                                    p_completion_tokens := cr_completion_tokens r\<rparr>))))"

section \<open>A well-formed conversation makes a well-formed request\<close>

text \<open>
  What the API demands of the message list: each \<open>tool\<close> message answers the oldest open call id,
  and nothing else may come while calls are open.
\<close>

definition json_str_at :: "json \<Rightarrow> string \<Rightarrow> string" where
  "json_str_at j k = (case jfind j k of Some (JStr s) \<Rightarrow> s | _ \<Rightarrow> [])"

definition api_call_ids :: "json \<Rightarrow> string list" where
  "api_call_ids j =
     (case jfind j ''tool_calls'' of
        Some (JArr tcs) \<Rightarrow> map (\<lambda>tc. json_str_at tc ''id'') tcs | _ \<Rightarrow> [])"

fun api_open :: "string list \<Rightarrow> json list \<Rightarrow> string list option" where
  "api_open q [] = Some q"
| "api_open q (j # js) =
     (if json_str_at j ''role'' = ''tool'' then
        (case q of [] \<Rightarrow> None
         | i # is \<Rightarrow> if json_str_at j ''tool_call_id'' = i then api_open is js else None)
      else if q = [] then api_open (api_call_ids j) js
      else None)"

lemma api_open_append:
  "api_open q (xs @ ys) = (case api_open q xs of None \<Rightarrow> None | Some r \<Rightarrow> api_open r ys)"
  by (induction q xs rule: api_open.induct) (auto split: list.splits)

lemma ascii_sanitize [simp]: "list_all (\<lambda>c. byte c < 0x80) s \<Longrightarrow> utf8_sanitize s = s"
  by (rule utf8_sanitize_id) (induction s, auto)

lemma json_str_at_sanitize:
  "json_str_at (sanitize_json_strings j) k = utf8_sanitize (json_str_at j k)"
proof (cases "jfind j k")
  case None
  then show ?thesis by (simp add: json_str_at_def sanitize_json_find)
next
  case (Some v)
  then show ?thesis by (cases v) (simp_all add: json_str_at_def sanitize_json_find)
qed

lemma api_call_ids_sanitize:
  "api_call_ids (sanitize_json_strings j) = map utf8_sanitize (api_call_ids j)"
proof (cases "jfind j ''tool_calls''")
  case None
  then show ?thesis by (simp add: api_call_ids_def sanitize_json_find)
next
  case (Some v)
  then show ?thesis
    by (cases v) (simp_all add: api_call_ids_def sanitize_json_find json_str_at_sanitize)
qed

lemma json_str_at_jobj: "json_str_at (jobj kvs) k =
    (case map_of (rev kvs) k of Some (JStr s) \<Rightarrow> s | _ \<Rightarrow> [])"
  by (simp add: json_str_at_def jfind_jobj)

lemma assistant_calls_ids:
  "map (\<lambda>tc. json_str_at tc ''id'') (assistant_calls dump bs) = tool_use_ids bs"
  by (induction dump bs rule: assistant_calls.induct) (auto simp: json_str_at_jobj)

lemma api_assistant_ids: "api_call_ids (api_assistant dump bs) = tool_use_ids bs"
proof (cases "assistant_calls dump bs = []")
  case True
  then have "tool_use_ids bs = []" using assistant_calls_ids[of dump bs] by simp
  with True show ?thesis by (simp add: api_call_ids_def api_assistant_def Let_def jfind_jobj)
next
  case False
  then show ?thesis
    by (simp add: api_call_ids_def api_assistant_def Let_def jfind_jobj assistant_calls_ids)
qed

lemma api_assistant_role: "json_str_at (api_assistant dump bs) ''role'' = ''assistant''"
  by (simp add: api_assistant_def Let_def json_str_at_jobj)

lemma api_open_message:
  assumes "open_after_message q m = Some r"
  shows "api_open (map utf8_sanitize q) (map sanitize_json_strings (api_of_message dump m))
           = Some (map utf8_sanitize r)"
proof (cases "msg_role m")
  case User
  with assms consider (prompt) t where "msg_content m = [TextBlock t]" "q = []" "r = []"
    | (answer) i c where "msg_content m = [ToolResultBlock i c]" "q = i # r"
    by (auto simp: open_after_message_def split: list.splits content_block.splits if_splits)
  then show ?thesis
  proof cases
    case prompt
    then show ?thesis using User
      by (simp add: api_of_message_def json_str_at_sanitize json_str_at_jobj
          api_call_ids_def sanitize_json_find jfind_jobj)
  next
    case answer
    then show ?thesis using User
      by (simp add: api_of_message_def json_str_at_sanitize json_str_at_jobj)
  qed
next
  case Assistant
  with assms have "q = []" "r = tool_use_ids (msg_content m)"
    by (auto simp: open_after_message_def split: if_splits)
  then show ?thesis using Assistant
    by (simp add: api_of_message_def json_str_at_sanitize api_assistant_role
        api_call_ids_sanitize api_assistant_ids)
next
  case System
  with assms show ?thesis by (simp add: open_after_message_def split: list.splits content_block.splits)
qed

lemma api_open_messages:
  assumes "open_after q ms = Some r"
  shows "api_open (map utf8_sanitize q)
           (map sanitize_json_strings (concat (map (api_of_message dump) ms)))
           = Some (map utf8_sanitize r)"
  using assms
proof (induction ms arbitrary: q)
  case (Cons m ms)
  then obtain q' where "open_after_message q m = Some q'" "open_after q' ms = Some r"
    by (auto split: option.splits)
  with Cons.IH[of q'] api_open_message[of q m q' dump] show ?case
    by (simp add: api_open_append)
qed simp

lemma jfind_jreplace: "jfind (jreplace (JObj m) k v) k' = (if k' = k then Some v else map_of m k')"
  using om_get_put[of k v m k'] by (simp add: om_get_def)

lemma sanitize_jobj: "\<exists>m. sanitize_json_strings (jobj kvs) = JObj m"
  by (simp add: jobj_def)

lemma request_body_messages:
  "jfind (request_body dump model system msgs tools) ''messages'' =
     Some (JArr (map sanitize_json_strings (api_messages dump system msgs)))"
proof -
  let ?j = "jobj [(''model'', JStr model), (''stream'', JBool True),
                  (''messages'', JArr (api_messages dump system msgs))]"
  have f: "jfind (sanitize_json_strings ?j) ''messages'' =
      Some (JArr (map sanitize_json_strings (api_messages dump system msgs)))"
    by (simp add: sanitize_json_find jfind_jobj)
  obtain m where m: "sanitize_json_strings ?j = JObj m" using sanitize_jobj by blast
  show ?thesis using f jfind_jreplace[of m "''tools''"] m
    by (simp add: request_body_def Let_def m)
qed

lemma request_body_values_valid: "json_values_valid (JArr (map sanitize_json_strings js))"
  by (simp add: list_all_iff sanitize_json_valid)

lemma api_messages_answered:
  assumes "well_formed msgs"
  shows "api_open [] (map sanitize_json_strings (api_messages dump system msgs)) = Some []"
  using api_open_messages[of "[]" msgs "[]" dump] assms
  by (simp add: api_messages_def well_formed_def json_str_at_sanitize json_str_at_jobj
      api_call_ids_def sanitize_json_find jfind_jobj)

section \<open>Properties\<close>

text \<open>C8: the SSE reader does not depend on how the transport cuts the response: two ways of
  delivering the same bytes emit the same events, end in the same state and keep the same error tail.\<close>

theorem sse_chunking_irrelevant:
  assumes "concat cs = concat ds" and "cs \<noteq> []" and "ds \<noteq> []"
  shows "sse_stream parse cs r = sse_stream parse ds r"
  using sse_stream_concat[OF assms(2)] sse_stream_concat[OF assms(3)] assms(1) by metis

theorem sse_chunking_irrelevant_witness:
  "sse_stream (\<lambda>_. None) [''data: [DO'', ''NE]'' @ NL] (sse_start 0 0) =
   sse_stream (\<lambda>_. None) [''data: '', ''[DONE]'', NL] (sse_start 0 0)"
  by (rule sse_chunking_irrelevant) simp_all

text \<open>the request for a well-formed history is one the API accepts: every tool message answers the
  oldest open call of the assistant message before it, and no call is left open.\<close>

theorem request_is_accepted:
  assumes "well_formed msgs"
  shows "\<exists>ms. jfind (request_body dump model system msgs tools) ''messages'' = Some (JArr ms) \<and>
    api_open [] ms = Some []"
  using request_body_messages api_messages_answered[OF assms] by blast

theorem request_is_accepted_witness:
  "\<exists>ms. jfind (request_body (\<lambda>_. ''{}'') ''m'' ''sys''
      [user_text ''hi'',
       \<lparr>msg_role = Assistant, msg_content = [ToolUseBlock ''c1'' ''ls'' (JObj [])]\<rparr>,
       tool_answer ''c1'' ''a.txt''] []) ''messages'' = Some (JArr ms) \<and> api_open [] ms = Some []"
  by (rule request_is_accepted) code_simp

end
