(* ===== verification/Auth.thy ===== *)
theory Auth
  imports Json_Value
begin

text \<open>
  \<open>src/auth.cpp\<close>: the saved credentials. The file system is a map from paths to contents; what the
  system calls answer while saving is an argument, as are the JSON parser and printer.
\<close>

record provider_info =
  pi_id :: string
  pi_display_name :: string

definition supported_providers :: "provider_info list" where
  "supported_providers = [\<lparr>pi_id = ''openrouter'', pi_display_name = ''OpenRouter''\<rparr>]"

text \<open>\<open>std::filesystem::path::operator/\<close> with a relative right-hand side.\<close>

definition path_join :: "string \<Rightarrow> string \<Rightarrow> string" where
  "path_join a b =
     (if a = [] then b else if last a = CHR ''/'' then a @ b else a @ CHR ''/'' # b)"

definition default_dir :: "string option \<Rightarrow> string" where
  "default_dir home = (case home of Some h \<Rightarrow> path_join h ''.zvmh'' | None \<Rightarrow> ''.zvmh'')"

definition auth_file_path :: "string option \<Rightarrow> string" where
  "auth_file_path home = path_join (default_dir home) ''auth.json''"

fun known_provider :: "string \<Rightarrow> provider_info list \<Rightarrow> bool" where
  "known_provider pid [] = False"
| "known_provider pid (p # ps) = (if pi_id p = pid then True else known_provider pid ps)"

text \<open>The result and the two outputs; \<open>Inl\<close> is the JSON exception of a member that is no string.\<close>

definition load_credentials ::
    "(string \<Rightarrow> json option) \<Rightarrow> string option \<Rightarrow> (string \<rightharpoonup> string)
      \<Rightarrow> (bool \<times> string \<times> string) outcome" where
  "load_credentials parse home fs =
     (case fs (auth_file_path home) of
        None \<Rightarrow> Inr (False, [], [])
      | Some contents \<Rightarrow>
          (case parse contents of
             Some (JObj m) \<Rightarrow>
               bind_outcome (value_str (JObj m) ''provider'' []) (\<lambda>pid.
               bind_outcome (value_str (JObj m) ''api_key'' []) (\<lambda>key.
                 if pid = [] \<or> key = [] then Inr (False, pid, key)
                 else Inr (known_provider pid supported_providers, pid, key)))
           | _ \<Rightarrow> Inr (False, [], [])))"

definition credentials_json :: "string \<Rightarrow> string \<Rightarrow> json" where
  "credentials_json pid key = jobj [(''provider'', JStr pid), (''api_key'', JStr key)]"

text \<open>What the operating system answers to the calls of one save.\<close>

record save_env =
  sv_dirs_ok :: bool
  sv_open_ok :: bool
  sv_write_ok :: bool
  sv_rename_ok :: bool

definition save_credentials ::
    "(json \<Rightarrow> string) \<Rightarrow> save_env \<Rightarrow> string option \<Rightarrow> string \<Rightarrow> string \<Rightarrow> (string \<rightharpoonup> string)
      \<Rightarrow> bool \<times> (string \<rightharpoonup> string)" where
  "save_credentials dump env home pid key fs =
     (if pid = [] \<or> key = [] then (False, fs)
      else if \<not> known_provider pid supported_providers then (False, fs)
      else
        let j = credentials_json pid key;
            path = auth_file_path home;
            tmp = path @ ''.tmp''
        in if \<not> sv_dirs_ok env then (False, fs)
           else if \<not> sv_open_ok env then (False, fs)
           else if \<not> sv_write_ok env then (False, fs(tmp := None))
           else let fs1 = fs(tmp := Some (dump j @ NL))
                in if \<not> sv_rename_ok env then (False, fs1(tmp := None))
                   else (True, fs1(path := fs1 tmp, tmp := None)))"

definition active_api_key ::
    "(string \<Rightarrow> json option) \<Rightarrow> string option \<Rightarrow> string option \<Rightarrow> (string \<rightharpoonup> string)
      \<Rightarrow> string outcome" where
  "active_api_key parse env_key home fs =
     (case env_key of
        Some (c # cs) \<Rightarrow> Inr (c # cs)
      | _ \<Rightarrow> bind_outcome (load_credentials parse home fs)
               (\<lambda>(ok, pid, key). Inr (if ok then key else [])))"

definition active_provider_id ::
    "(string \<Rightarrow> json option) \<Rightarrow> string option \<Rightarrow> (string \<rightharpoonup> string) \<Rightarrow> string outcome" where
  "active_provider_id parse home fs =
     bind_outcome (load_credentials parse home fs) (\<lambda>(ok, pid, key). Inr (if ok then pid else []))"

lemma save_credentials_file:
  assumes "save_credentials dump env home pid key fs = (True, fs')"
  shows "fs' (auth_file_path home)
      = Some (dump (credentials_json pid key) @ NL) \<and>
    pid \<noteq> [] \<and> key \<noteq> [] \<and> known_provider pid supported_providers"
  using assms by (auto simp: save_credentials_def Let_def split: if_splits)

section \<open>Properties\<close>

text \<open>C11: A save that reports success is what the next load returns, given only that the JSON parser
  reads back what the printer wrote.\<close>

theorem save_then_load:
  assumes "save_credentials dump env home pid key fs = (True, fs')"
    and "parse (dump (credentials_json pid key) @ NL) = Some (credentials_json pid key)"
  shows "load_credentials parse home fs' = Inr (True, pid, key) \<and>
    active_api_key parse None home fs' = Inr key \<and> active_provider_id parse home fs' = Inr pid"
proof -
  note f = save_credentials_file[OF assms(1)]
  have "load_credentials parse home fs' = Inr (True, pid, key)"
    using f assms(2) by (simp add: load_credentials_def credentials_json_def jobj_def value_of_def om_get_def)
  then show ?thesis by (simp add: active_api_key_def active_provider_id_def)
qed

theorem save_then_load_witness:
  "let dump = (\<lambda>_. ''{..}''); parse = (\<lambda>_. Some (credentials_json ''openrouter'' ''k''));
     env = \<lparr>sv_dirs_ok = True, sv_open_ok = True, sv_write_ok = True, sv_rename_ok = True\<rparr>;
     fs = snd (save_credentials dump env (Some ''/home/u'') ''openrouter'' ''k'' Map.empty)
   in load_credentials parse (Some ''/home/u'') fs = Inr (True, ''openrouter'', ''k'') \<and>
      active_api_key parse None (Some ''/home/u'') fs = Inr ''k''"
proof -
  let ?r = "save_credentials (\<lambda>_. ''{..}'')
      \<lparr>sv_dirs_ok = True, sv_open_ok = True, sv_write_ok = True, sv_rename_ok = True\<rparr>
      (Some ''/home/u'') ''openrouter'' ''k'' Map.empty"
  have "fst ?r = True" by code_simp
  then have "?r = (True, snd ?r)" by (simp add: prod_eq_iff)
  from save_then_load[OF this, of "\<lambda>_. Some (credentials_json ''openrouter'' ''k'')"]
  show ?thesis by (simp add: Let_def)
qed

text \<open>C12: A save that fails leaves the stored credentials as they were.\<close>

theorem failed_save_keeps_file:
  assumes "save_credentials dump env home pid key fs = (False, fs')"
  shows "fs' (auth_file_path home) = fs (auth_file_path home)"
  using assms by (auto simp: save_credentials_def Let_def split: if_splits)

theorem failed_save_keeps_file_witness:
  "(snd (save_credentials (\<lambda>_. ''{}'')
      \<lparr>sv_dirs_ok = True, sv_open_ok = True, sv_write_ok = True, sv_rename_ok = False\<rparr>
      None ''openrouter'' ''k'' [''.zvmh/auth.json'' \<mapsto> ''old''])) (auth_file_path None) = Some ''old''"
proof -
  let ?r = "save_credentials (\<lambda>_. ''{}'')
      \<lparr>sv_dirs_ok = True, sv_open_ok = True, sv_write_ok = True, sv_rename_ok = False\<rparr>
      None ''openrouter'' ''k'' [''.zvmh/auth.json'' \<mapsto> ''old'']"
  have p: "auth_file_path None = ''.zvmh/auth.json''" by code_simp
  have "fst ?r = False" by code_simp
  then have "?r = (False, snd ?r)" by (simp add: prod_eq_iff)
  from failed_save_keeps_file[OF this] p show ?thesis by simp
qed

end
