(* ===== verification/Wire.thy ===== *)
theory Wire
  imports Messages "HOL-Library.Word"
begin

text \<open>
  \<open>src/server/protocol.h\<close> and \<open>wire_sink.h\<close>: the message builders, the file hash, the newline
  framing of a socket (\<open>send_all\<close>, \<open>LineReader\<close>) and the sink that turns the callbacks of a turn into
  frames. What \<open>send\<close>, \<open>poll\<close> and \<open>recv\<close> answer is a list of events.
\<close>

section \<open>Message builders\<close>

definition frame :: "string \<Rightarrow> (string \<times> json) list \<Rightarrow> json" where
  "frame ty kvs = jobj ((''type'', JStr ty) # kvs)"

definition hello_req :: "string \<Rightarrow> string \<Rightarrow> json" where
  "hello_req repo name = frame ''hello'' [(''repo'', JStr repo), (''name'', JStr name)]"

definition hello_ack :: "string \<Rightarrow> json \<Rightarrow> json" where
  "hello_ack i peers = frame ''hello_ack'' [(''id'', JStr i), (''peers'', peers)]"

definition agent_info :: "string \<Rightarrow> string \<Rightarrow> string \<Rightarrow> json" where
  "agent_info i name repo = jobj [(''id'', JStr i), (''name'', JStr name), (''repo'', JStr repo)]"

definition read_req :: "string \<Rightarrow> string \<Rightarrow> json" where
  "read_req path hash = frame ''read'' [(''path'', JStr path), (''hash'', JStr hash)]"

definition write_req :: "string \<Rightarrow> string \<Rightarrow> json" where
  "write_req path hash = frame ''write'' [(''path'', JStr path), (''hash'', JStr hash)]"

definition conflict_notice :: "string \<Rightarrow> string \<Rightarrow> string \<Rightarrow> string \<Rightarrow> json" where
  "conflict_notice path who at hash =
     frame ''conflict'' [(''path'', JStr path), (''by'', JStr who), (''at'', JStr at), (''hash'', JStr hash)]"

definition msg_req :: "string \<Rightarrow> string \<Rightarrow> json" where
  "msg_req to t = frame ''msg'' [(''to'', JStr to), (''text'', JStr t)]"

definition msg_notice :: "string \<Rightarrow> string \<Rightarrow> string \<Rightarrow> json" where
  "msg_notice sender t at =
     frame ''msg'' [(''from'', JStr sender), (''text'', JStr t), (''at'', JStr at)]"

definition agents_req :: json where "agents_req = frame ''agents'' []"

definition agents_list :: "json \<Rightarrow> json" where
  "agents_list agents = frame ''agents_list'' [(''agents'', agents)]"

definition ping_msg :: json where "ping_msg = frame ''ping'' []"
definition pong_msg :: json where "pong_msg = frame ''pong'' []"
definition bye_msg :: json where "bye_msg = frame ''bye'' []"
definition shutdown_msg :: json where "shutdown_msg = frame ''shutdown'' []"

definition prompt_req :: "string \<Rightarrow> json" where
  "prompt_req t = frame ''prompt'' [(''text'', JStr t)]"

definition cancel_req :: json where "cancel_req = frame ''cancel'' []"
definition clear_req :: json where "clear_req = frame ''clear'' []"

definition model_req :: "string \<Rightarrow> json" where
  "model_req model = frame ''model_set'' [(''model'', JStr model)]"

definition auth_req :: "string \<Rightarrow> string \<Rightarrow> json" where
  "auth_req prov key = frame ''auth_set'' [(''provider'', JStr prov), (''api_key'', JStr key)]"

definition state_packet :: "string \<Rightarrow> string \<Rightarrow> json \<Rightarrow> int \<Rightarrow> json" where
  "state_packet prov model tools ctx_total =
     frame ''state'' [(''provider'', JStr prov), (''model'', JStr model), (''tools'', tools),
                      (''ctx'', JInt ctx_total)]"

definition stream_packet :: "json \<Rightarrow> json" where
  "stream_packet kvs = jupdate (frame ''stream'' []) kvs"

definition ctx_packet :: "int \<Rightarrow> int \<Rightarrow> json" where
  "ctx_packet used whole = frame ''ctx'' [(''used'', JInt used), (''total'', JInt whole)]"

definition turn_done_packet :: "int \<Rightarrow> json" where
  "turn_done_packet rc = frame ''turn_done'' [(''rc'', JInt rc)]"

definition type_of :: "json \<Rightarrow> string" where
  "type_of j = (case jfind j ''type'' of Some (JStr s) \<Rightarrow> s | _ \<Rightarrow> [])"

lemma jfind_frame: "k \<noteq> ''type'' \<Longrightarrow> jfind (frame ty kvs) k = map_of (rev kvs) k"
  by (auto simp: frame_def jfind_jobj map_add_def split: option.splits)

lemma type_of_frame: "list_all (\<lambda>(k, v). k \<noteq> ''type'') kvs \<Longrightarrow> type_of (frame ty kvs) = ty"
proof -
  assume a: "list_all (\<lambda>(k, v). k \<noteq> ''type'') kvs"
  have "map_of (rev kvs) ''type'' = None"
    using a by (auto simp: map_of_eq_None_iff list_all_iff)
  then show ?thesis by (simp add: type_of_def frame_def jfind_jobj map_add_def)
qed

section \<open>The file hash\<close>

definition fnv_offset :: "64 word" where "fnv_offset = 1469598103934665603"
definition fnv_prime :: "64 word" where "fnv_prime = 1099511628211"

definition fnv_step :: "char \<Rightarrow> 64 word \<Rightarrow> 64 word" where
  "fnv_step c h = (h XOR word_of_nat (byte c)) * fnv_prime"

definition fnv1a64 :: "string \<Rightarrow> 64 word" where
  "fnv1a64 bytes = fold fnv_step bytes fnv_offset"

text \<open>\<open>None\<close> is a file that cannot be opened.\<close>

definition hash_file :: "string option \<Rightarrow> string" where
  "hash_file contents =
     (case contents of None \<Rightarrow> [] | Some bytes \<Rightarrow> nat_str (unat (fnv1a64 bytes)))"

text \<open>The prime is odd, so multiplying by it is a permutation of the words.\<close>

lemma fnv_prime_inverse: "fnv_prime * 14886173955864302971 = 1"
  by (simp add: fnv_prime_def)

lemma fnv_step_inj_state: "fnv_step c h = fnv_step c h' \<longleftrightarrow> h = h'"
proof
  assume "fnv_step c h = fnv_step c h'"
  then have "(h XOR word_of_nat (byte c)) * (fnv_prime * 14886173955864302971)
      = (h' XOR word_of_nat (byte c)) * (fnv_prime * 14886173955864302971)"
    by (simp add: fnv_step_def flip: mult.assoc)
  then have "h XOR word_of_nat (byte c) = h' XOR word_of_nat (byte c)"
    by (simp add: fnv_prime_inverse)
  then have "(h XOR word_of_nat (byte c)) XOR word_of_nat (byte c)
      = (h' XOR word_of_nat (byte c)) XOR word_of_nat (byte c)" by simp
  then show "h = h'" by (simp add: xor.assoc)
qed simp

lemma byte_word_inj: "(word_of_nat (byte c) :: 64 word) = word_of_nat (byte d) \<longleftrightarrow> c = d"
proof
  assume e: "(word_of_nat (byte c) :: 64 word) = word_of_nat (byte d)"
  have lt: "byte x < 2 ^ 64" for x by (rule less_trans[of _ 256]) simp_all
  have "byte c = byte d"
    using e lt[of c] lt[of d] by (simp add: word_of_nat_eq_iff take_bit_nat_eq_self)
  then show "c = d" by simp
qed simp

lemma fnv_step_inj_byte: "fnv_step c h = fnv_step d h \<longleftrightarrow> c = d"
proof
  assume "fnv_step c h = fnv_step d h"
  then have "(h XOR word_of_nat (byte c)) * (fnv_prime * 14886173955864302971)
      = (h XOR word_of_nat (byte d)) * (fnv_prime * 14886173955864302971)"
    by (simp add: fnv_step_def flip: mult.assoc)
  then have "h XOR word_of_nat (byte c) = h XOR word_of_nat (byte d)"
    by (simp add: fnv_prime_inverse)
  then have "h XOR (h XOR word_of_nat (byte c)) = h XOR (h XOR word_of_nat (byte d))" by simp
  then have "(word_of_nat (byte c) :: 64 word) = word_of_nat (byte d)"
    by (simp add: xor.assoc[symmetric])
  then show "c = d" by (simp only: byte_word_inj)
qed simp

lemma fnv_fold_inj: "fold fnv_step s h = fold fnv_step s h' \<longleftrightarrow> h = h'"
  by (induction s arbitrary: h h') (simp_all add: fnv_step_inj_state)

lemma fnv_one_byte: "fnv1a64 (p @ c # s) = fnv1a64 (p @ d # s) \<longleftrightarrow> c = d"
  by (simp add: fnv1a64_def fnv_fold_inj fnv_step_inj_byte)

lemma nat_str_nonempty: "nat_str n \<noteq> []"
  by (subst nat_str.simps) simp

lemma hash_file_eq:
  "hash_file (Some a) = hash_file (Some b) \<longleftrightarrow> fnv1a64 a = fnv1a64 b"
proof
  assume "hash_file (Some a) = hash_file (Some b)"
  then have "unat (fnv1a64 a) = unat (fnv1a64 b)" by (auto simp: hash_file_def dest: nat_str_inj)
  then show "fnv1a64 a = fnv1a64 b" by (rule unsigned_word_eqI)
qed (simp add: hash_file_def)

section \<open>Sending\<close>

text \<open>
  One answer of \<open>send\<close>: the number of bytes it took (never more than it was offered), an interrupt,
  or another error. \<open>send_all\<close> yields its result and the bytes that went out; \<open>None\<close> is a call still
  blocked when the answers end.
\<close>

datatype send_event = SendTook nat | SendIntr | SendFailed

fun send_all :: "send_event list \<Rightarrow> string \<Rightarrow> (bool \<times> string \<times> send_event list) option" where
  "send_all evs [] = Some (True, [], evs)"
| "send_all [] (c # cs) = None"
| "send_all (SendIntr # evs) (c # cs) = send_all evs (c # cs)"
| "send_all (SendFailed # evs) (c # cs) = Some (False, [], evs)"
| "send_all (SendTook n # evs) (c # cs) =
     map_option (\<lambda>(ok, out, evs'). (ok, take n (c # cs) @ out, evs'))
       (send_all evs (drop n (c # cs)))"

definition send_json ::
    "(json \<Rightarrow> string) \<Rightarrow> send_event list \<Rightarrow> json \<Rightarrow> (bool \<times> string \<times> send_event list) option" where
  "send_json dump evs j = send_all evs (dump (sanitize_json_strings j) @ NL)"

lemma send_all_bytes:
  "send_all evs data = Some (ok, out, evs') \<Longrightarrow> prefix out data \<and> (ok \<longleftrightarrow> out = data)"
proof (induction evs data arbitrary: ok out evs' rule: send_all.induct)
  case (5 n evs c cs)
  then obtain out' where o: "send_all evs (drop n (c # cs)) = Some (ok, out', evs')"
      "out = take n (c # cs) @ out'"
    by auto
  from 5(1)[OF o(1)] o(2) show ?case
    by (metis append_take_drop_id append_same_eq prefix_def append.assoc same_prefix_prefix
        append_same_eq append_eq_append_conv)
qed auto

section \<open>Receiving lines\<close>

definition kMaxFrameBytes :: nat where "kMaxFrameBytes = 4 * 1024 * 1024"
definition kReadChunkBytes :: nat where "kReadChunkBytes = 64 * 1024"

datatype read_result = ReadOk | ReadEof | ReadStopped | ReadTooLong | ReadError

record line_reader =
  lr_max_wait_ms :: int
  lr_elapsed_ms :: int
  lr_buf :: string
  lr_pos :: nat

definition new_reader :: "int \<Rightarrow> line_reader" where
  "new_reader max_wait =
     \<lparr>lr_max_wait_ms = max_wait, lr_elapsed_ms = 0, lr_buf = [], lr_pos = 0\<rparr>"

text \<open>
  What one turn of the loop meets after it found no line: the answer of \<open>poll\<close> and, when it reports
  input, of \<open>recv\<close>. Each comes with the value of the stop flag read at the top of that turn.
\<close>

datatype net_event =
    PollIntr | PollFailed | PollTimeout | PollOther
  | RecvData string | RecvEof | RecvIntr | RecvFailed

type_synonym tick = "bool \<times> net_event"

text \<open>The scan of the buffer: a line, a line that is too long, or the compacted buffer.\<close>

definition take_line :: "line_reader \<Rightarrow> (string \<times> line_reader) option" where
  "take_line r =
     map_option (\<lambda>(line, rest). (line, r\<lparr>lr_pos := lr_pos r + length line + 1\<rparr>))
       (split_at nl (drop (lr_pos r) (lr_buf r)))"

definition too_long :: "line_reader \<Rightarrow> bool" where
  "too_long r \<longleftrightarrow> length (lr_buf r) - lr_pos r > kMaxFrameBytes"

definition compact :: "line_reader \<Rightarrow> line_reader" where
  "compact r = r\<lparr>lr_buf := drop (lr_pos r) (lr_buf r), lr_pos := 0\<rparr>"

definition expired :: "line_reader \<Rightarrow> bool" where
  "expired r \<longleftrightarrow> lr_max_wait_ms r > 0 \<and> lr_elapsed_ms r \<ge> lr_max_wait_ms r"

definition elapse :: "line_reader \<Rightarrow> line_reader" where
  "elapse r = r\<lparr>lr_elapsed_ms := lr_elapsed_ms r + 200\<rparr>"

text \<open>\<open>None\<close>: the call is still waiting when the events end. A line already buffered is returned
  without consuming the event of that turn.\<close>

fun next_line ::
    "line_reader \<Rightarrow> tick list \<Rightarrow> (read_result \<times> string \<times> line_reader \<times> tick list) option" where
  "next_line r [] =
     (case take_line r of
        Some (line, r') \<Rightarrow> Some (ReadOk, line, r', [])
      | None \<Rightarrow> if too_long r then Some (ReadTooLong, [], r, []) else None)"
| "next_line r ((stop, ev) # ticks) =
     (if stop then Some (ReadStopped, [], r, (stop, ev) # ticks)
      else case take_line r of
        Some (line, r') \<Rightarrow> Some (ReadOk, line, r', (stop, ev) # ticks)
      | None \<Rightarrow>
          if too_long r then Some (ReadTooLong, [], r, (stop, ev) # ticks)
          else let r1 = compact r; r2 = elapse r1 in
            (case ev of
               PollIntr \<Rightarrow> next_line r1 ticks
             | PollFailed \<Rightarrow> Some (ReadError, [], r1, ticks)
             | PollTimeout \<Rightarrow>
                 if expired r2 then Some (ReadStopped, [], r2, ticks) else next_line r2 ticks
             | PollOther \<Rightarrow>
                 if expired r2 then Some (ReadStopped, [], r2, ticks)
                 else Some (ReadError, [], r2, ticks)
             | RecvData data \<Rightarrow>
                 if expired r2 then Some (ReadStopped, [], r2, (stop, ev) # ticks)
                 else next_line (r2\<lparr>lr_buf := lr_buf r2 @ data\<rparr>) ticks
             | RecvEof \<Rightarrow>
                 if expired r2 then Some (ReadStopped, [], r2, (stop, ev) # ticks)
                 else Some (ReadEof, [], r2, ticks)
             | RecvIntr \<Rightarrow>
                 if expired r2 then Some (ReadStopped, [], r2, (stop, ev) # ticks)
                 else next_line r2 ticks
             | RecvFailed \<Rightarrow>
                 if expired r2 then Some (ReadStopped, [], r2, (stop, ev) # ticks)
                 else Some (ReadError, [], r2, ticks)))"

text \<open>What a reader still has to hand out.\<close>

definition unread :: "line_reader \<Rightarrow> string" where
  "unread r = drop (lr_pos r) (lr_buf r)"

definition arrivals :: "string list \<Rightarrow> tick list" where
  "arrivals chunks = map (\<lambda>d. (False, RecvData d)) chunks"

lemma take_line_Some:
  assumes "take_line r = Some (line, r')"
  shows "unread r = line @ nl # unread r' \<and> nl \<notin> set line \<and>
    lr_max_wait_ms r' = lr_max_wait_ms r"
proof -
  obtain rest where "split_at nl (unread r) = Some (line, rest)"
      "r' = r\<lparr>lr_pos := lr_pos r + length line + 1\<rparr>"
    using assms by (auto simp: take_line_def unread_def)
  then have u: "unread r = line @ nl # rest" "nl \<notin> set line"
      "unread r' = drop (lr_pos r + length line + 1) (lr_buf r)"
      "lr_max_wait_ms r' = lr_max_wait_ms r"
    by (auto simp: split_at_Some unread_def)
  have "unread r' = drop (length line + 1) (unread r)"
    unfolding u(3) by (simp add: unread_def add.commute)
  then show ?thesis using u by simp
qed

lemma take_line_None: "take_line r = None \<longleftrightarrow> nl \<notin> set (unread r)"
  by (simp add: take_line_def unread_def split_at_None)

lemma compact_simps [simp]:
  "unread (compact r) = unread r" "lr_pos (compact r) = 0" "lr_buf (compact r) = unread r"
  "lr_max_wait_ms (compact r) = lr_max_wait_ms r"
  by (simp_all add: compact_def unread_def)

lemma elapse_simps [simp]:
  "unread (elapse r) = unread r" "lr_pos (elapse r) = lr_pos r" "lr_buf (elapse r) = lr_buf r"
  "lr_max_wait_ms (elapse r) = lr_max_wait_ms r"
  by (simp_all add: elapse_def unread_def)

lemma not_expired: "lr_max_wait_ms r = 0 \<Longrightarrow> \<not> expired r"
  by (simp add: expired_def)

text \<open>
  A frame of permitted length at the head of what is still to come is returned whole, however the
  transport cuts it, and everything after it stays.
\<close>

lemma next_line_frame:
  assumes "unread r @ concat chunks = f @ nl # rest" "nl \<notin> set f" "length f \<le> kMaxFrameBytes"
    and "lr_max_wait_ms r = 0"
  shows "\<exists>r' chunks'. next_line r (arrivals chunks) = Some (ReadOk, f, r', arrivals chunks') \<and>
    unread r' @ concat chunks' = rest \<and> lr_max_wait_ms r' = 0"
  using assms
proof (induction chunks arbitrary: r)
  case Nil
  have "take_line r \<noteq> None" using Nil(1) by (simp add: take_line_None)
  then obtain line r' where t: "take_line r = Some (line, r')" by auto
  from take_line_Some[OF t] Nil have "line = f" "unread r' = rest" "lr_max_wait_ms r' = 0"
    by (auto simp: append_eq_append_conv2 Cons_eq_append_conv append_eq_Cons_conv)
  then show ?case using t by (intro exI[of _ r'] exI[of _ "[]"]) (simp add: arrivals_def)
next
  case (Cons d ds)
  show ?case
  proof (cases "take_line r")
    case (Some lr)
    then obtain line r' where t: "take_line r = Some (line, r')" by (cases lr) auto
    from take_line_Some[OF t] Cons.prems(1,2,4)
    have "line = f" "unread r' @ concat (d # ds) = rest" "lr_max_wait_ms r' = 0"
      by (auto simp: append_eq_append_conv2 Cons_eq_append_conv append_eq_Cons_conv)
    then show ?thesis using t by (intro exI[of _ r'] exI[of _ "d # ds"]) (simp add: arrivals_def)
  next
    case None
    let ?r = "(elapse (compact r))\<lparr>lr_buf := unread r @ d\<rparr>"
    have n: "nl \<notin> set (unread r)" using None by (simp add: take_line_None)
    have "length (unread r) \<le> length f"
    proof (rule ccontr)
      assume "\<not> ?thesis"
      then obtain us where us: "unread r = f @ us" "us \<noteq> []" "us @ d @ concat ds = nl # rest"
        using Cons.prems(1) by (auto simp: append_eq_append_conv2)
      then have "hd us = nl" by (cases us) auto
      with n us show False by (cases us) auto
    qed
    then have l: "\<not> too_long r" using Cons.prems(3) by (simp add: too_long_def unread_def)
    have u: "unread ?r = unread r @ d" by (simp add: unread_def elapse_def compact_def)
    have "next_line r (arrivals (d # ds)) = next_line ?r (arrivals ds)"
      using None l Cons.prems(4) by (simp add: arrivals_def Let_def not_expired)
    moreover have "unread ?r @ concat ds = f @ nl # rest" using Cons.prems(1) u by simp
    ultimately show ?thesis using Cons.IH[of ?r] Cons.prems by simp
  qed
qed

text \<open>Reading a number of lines in a row.\<close>

fun read_lines :: "nat \<Rightarrow> line_reader \<Rightarrow> tick list \<Rightarrow> string list option" where
  "read_lines 0 r ticks = Some []"
| "read_lines (Suc n) r ticks =
     (case next_line r ticks of
        Some (ReadOk, line, r', ticks') \<Rightarrow> map_option (\<lambda>ls. line # ls) (read_lines n r' ticks')
      | _ \<Rightarrow> None)"

definition frameable :: "string \<Rightarrow> bool" where
  "frameable f \<longleftrightarrow> nl \<notin> set f \<and> length f \<le> kMaxFrameBytes"

lemma read_lines_frames:
  assumes "unread r @ concat chunks = concat (map (\<lambda>f. f @ NL) fs)" "list_all frameable fs"
    and "lr_max_wait_ms r = 0"
  shows "read_lines (length fs) r (arrivals chunks) = Some fs"
  using assms
proof (induction fs arbitrary: r chunks)
  case (Cons f fs)
  have "nl \<notin> set f" "length f \<le> kMaxFrameBytes" using Cons.prems(2) by (auto simp: frameable_def)
  from next_line_frame[of r chunks f "concat (map (\<lambda>f. f @ NL) fs)", OF _ this Cons.prems(3)]
  obtain r' chunks' where n: "next_line r (arrivals chunks) = Some (ReadOk, f, r', arrivals chunks')"
      "unread r' @ concat chunks' = concat (map (\<lambda>f. f @ NL) fs)" "lr_max_wait_ms r' = 0"
    using Cons.prems(1) by auto
  then show ?case using Cons.IH[OF n(2) _ n(3)] Cons.prems(2) by simp
qed simp

section \<open>The sink of a served turn\<close>

text \<open>
  \<open>WireSink\<close>: every callback becomes a \<open>stream\<close> frame for the caller's sender, whose world is \<open>'w\<close>;
  the first failed send turns the sink off for good. The state is the flag \<open>alive_\<close> and that world.
\<close>

fun sink_fields :: "sink_call \<Rightarrow> json" where
  "sink_fields (SinkHeader prov model) =
     jobj [(''event'', JStr ''header''), (''provider'', JStr prov), (''model'', JStr model)]"
| "sink_fields (SinkTextDelta t) = jobj [(''event'', JStr ''text_delta''), (''text'', JStr t)]"
| "sink_fields (SinkToolStart n) = jobj [(''event'', JStr ''tool_start''), (''name'', JStr n)]"
| "sink_fields (SinkToolCall n args) =
     jobj [(''event'', JStr ''tool_call''), (''name'', JStr n), (''args'', args)]"
| "sink_fields (SinkToolResult t e) =
     jobj [(''event'', JStr ''tool_result''), (''text'', JStr t), (''is_error'', JBool e)]"
| "sink_fields (SinkSummary model p c) =
     jobj [(''event'', JStr ''summary''), (''model'', JStr model), (''prompt'', JInt p),
           (''completion'', JInt c)]"
| "sink_fields (SinkWarning t) = jobj [(''event'', JStr ''warning''), (''text'', JStr t)]"

text \<open>The frame of a callback.\<close>

definition call_frame :: "sink_call \<Rightarrow> json" where
  "call_frame c = jupdate (frame ''stream'' []) (sink_fields c)"

definition wire_emit ::
    "(json \<Rightarrow> 'w \<Rightarrow> bool \<times> 'w) \<Rightarrow> json \<Rightarrow> bool \<times> 'w \<Rightarrow> bool \<times> 'w" where
  "wire_emit send kvs s =
     (let (alive, w) = s
      in if \<not> alive then (alive, w)
         else let (ok, w') = send (jupdate (frame ''stream'' []) kvs) w in (ok, w'))"

definition wire_call :: "(json \<Rightarrow> 'w \<Rightarrow> bool \<times> 'w) \<Rightarrow> sink_call \<Rightarrow> bool \<times> 'w \<Rightarrow> bool \<times> 'w" where
  "wire_call send c = wire_emit send (sink_fields c)"

definition wire_ctx :: "(json \<Rightarrow> 'w \<Rightarrow> bool \<times> 'w) \<Rightarrow> int \<Rightarrow> int \<Rightarrow> bool \<times> 'w \<Rightarrow> bool \<times> 'w" where
  "wire_ctx send used whole =
     wire_emit send (jobj [(''type'', JStr ''ctx''), (''used'', JInt used), (''total'', JInt whole)])"

definition wire_done :: "(json \<Rightarrow> 'w \<Rightarrow> bool \<times> 'w) \<Rightarrow> int \<Rightarrow> bool \<times> 'w \<Rightarrow> bool \<times> 'w" where
  "wire_done send rc = wire_emit send (jobj [(''type'', JStr ''turn_done''), (''rc'', JInt rc)])"

lemma wire_emit_dead [simp]: "wire_emit send kvs (False, w) = (False, w)"
  by (simp add: wire_emit_def)

lemma wire_dead: "fold (wire_call send) cs (False, w) = (False, w)"
  by (induction cs) (simp_all add: wire_call_def)

section \<open>Properties\<close>

text \<open>Sending frames one after the other; \<open>None\<close> is a send still blocked.\<close>

fun send_frames ::
    "(json \<Rightarrow> string) \<Rightarrow> send_event list \<Rightarrow> json list \<Rightarrow> (bool \<times> string) option" where
  "send_frames dump evs [] = Some (True, [])"
| "send_frames dump evs (j # js) =
     (case send_json dump evs j of
        None \<Rightarrow> None
      | Some (False, out, evs') \<Rightarrow> Some (False, out)
      | Some (True, out, evs') \<Rightarrow>
          map_option (\<lambda>(ok, out'). (ok, out @ out')) (send_frames dump evs' js))"

definition wire_line :: "(json \<Rightarrow> string) \<Rightarrow> json \<Rightarrow> string" where
  "wire_line dump j = dump (sanitize_json_strings j)"

lemma send_frames_bytes:
  "send_frames dump evs js = Some (True, out) \<Longrightarrow>
     out = concat (map (\<lambda>f. f @ NL) (map (wire_line dump) js))"
proof (induction js arbitrary: evs out)
  case (Cons j js)
  obtain out1 evs1 out2 where o: "send_json dump evs j = Some (True, out1, evs1)"
      "send_frames dump evs1 js = Some (True, out2)" "out = out1 @ out2"
    using Cons.prems by (auto split: option.splits bool.splits)
  have "out1 = wire_line dump j @ NL"
    using o(1) send_all_bytes[of evs] by (auto simp: send_json_def wire_line_def)
  with Cons.IH[OF o(2)] o(3) show ?case by simp
qed simp

text \<open>C10: Whatever short writes, interrupts and packet boundaries occur, a series of frames whose
  sends succeed is read back by \<open>LineReader\<close> as the same lines in the same order.\<close>

theorem frames_survive_the_wire:
  assumes "send_frames dump evs js = Some (True, out)"
    and "concat chunks = out" and "list_all frameable (map (wire_line dump) js)"
  shows "read_lines (length js) (new_reader 0) (arrivals chunks) = Some (map (wire_line dump) js)"
  using read_lines_frames[of "new_reader 0" chunks "map (wire_line dump) js"]
    send_frames_bytes[OF assms(1)] assms(2,3)
  by (simp add: new_reader_def unread_def)

theorem frames_survive_the_wire_witness:
  "read_lines 2 (new_reader 0) (arrivals [''pi'', ''ng'' @ NL @ ''p'', ''ing'' @ NL]) =
     Some [''ping'', ''ping'']"
proof -
  let ?dump = "\<lambda>_. ''ping''"
  have "send_frames ?dump [SendTook 2, SendIntr, SendTook 9, SendTook 5] [ping_msg, ping_msg] =
      Some (True, ''ping'' @ NL @ ''ping'' @ NL)"
    by code_simp
  from frames_survive_the_wire[OF this, of "[''pi'', ''ng'' @ NL @ ''p'', ''ing'' @ NL]"]
  show ?thesis by (simp add: wire_line_def frameable_def kMaxFrameBytes_def numeral_2_eq_2)
qed

text \<open>The file hash separates contents of one length that differ in a single byte, wherever it is,
  and an unreadable file from every readable one.\<close>

theorem hash_detects_one_byte:
  "(hash_file (Some (p @ c # s)) = hash_file (Some (p @ d # s))) = (c = d) \<and>
   (hash_file f = []) = (f = None)"
proof
  show "(hash_file (Some (p @ c # s)) = hash_file (Some (p @ d # s))) = (c = d)"
    by (simp only: hash_file_eq fnv_one_byte)
  show "(hash_file f = []) = (f = None)"
    using nat_str_nonempty by (cases f) (simp_all add: hash_file_def)
qed

text \<open>\<open>max_wait_ms\<close> is charged 200 ms for every \<open>poll\<close> that returns, also one that returns at once
  with data: two packets arriving immediately exhaust a wait of 400 ms.\<close>

theorem max_wait_charges_packets:
  "next_line (new_reader 400) (arrivals [''{}'', NL]) =
     Some (ReadStopped, [], \<lparr>lr_max_wait_ms = 400, lr_elapsed_ms = 400, lr_buf = ''{}'', lr_pos = 0\<rparr>,
       arrivals [NL])"
  by (simp add: arrivals_def new_reader_def take_line_def too_long_def kMaxFrameBytes_def
      compact_def elapse_def expired_def Let_def)

end
