(* ===== verification/Tool_Edit.thy ===== *)
theory Tool_Edit
  imports Json_Value
begin

text \<open>
  The \<open>edit\<close> and \<open>write\<close> tools (\<open>src/tool/edit.h\<close>, \<open>src/tool/write.h\<close>) on a file system that maps
  paths to bytes.
\<close>

type_synonym files = "string \<rightharpoonup> string"

section \<open>Line endings\<close>

abbreviation crlf :: string where "crlf \<equiv> [cr, nl]"

text \<open>A carriage return right before a newline is dropped.\<close>

fun normalize_line_endings :: "string \<Rightarrow> string" where
  "normalize_line_endings [] = []"
| "normalize_line_endings [c] = [c]"
| "normalize_line_endings (c # d # cs) =
     (if c = cr \<and> d = nl then normalize_line_endings (d # cs)
      else c # normalize_line_endings (d # cs))"

definition expand_nl :: "string \<Rightarrow> string" where
  "expand_nl s = concat (map (\<lambda>c. if c = nl then crlf else [c]) s)"

definition convert_to_line_ending :: "string \<Rightarrow> string \<Rightarrow> string" where
  "convert_to_line_ending s ending =
     (let norm = normalize_line_endings s in if ending = NL then norm else expand_nl norm)"

text \<open>Going past a match shortens the text.\<close>

lemma match_shrinks: "pat \<noteq> [] \<Longrightarrow> find_sub pat s = Some p \<Longrightarrow> length (drop (p + length pat) s) < length s"
  using find_sub_Some(2)[of pat s p] by (cases pat) auto

section \<open>Searching and replacing\<close>

text \<open>The loops advance past each match; with an empty pattern the source never runs them.\<close>

function count_occurrences :: "string \<Rightarrow> string \<Rightarrow> nat" where
  "count_occurrences content search =
     (if search = [] then 0
      else case find_sub search content of
        None \<Rightarrow> 0
      | Some p \<Rightarrow> Suc (count_occurrences (drop (p + length search) content) search))"
  by pat_completeness auto
termination
  by (relation "measure (\<lambda>(c, s). length c)") (simp_all add: match_shrinks del: length_drop)

declare count_occurrences.simps [simp del]

definition replace_first :: "string \<Rightarrow> string \<Rightarrow> string \<Rightarrow> string" where
  "replace_first s old new =
     (case find_sub old s of
        None \<Rightarrow> s | Some p \<Rightarrow> take p s @ new @ drop (p + length old) s)"

function replace_all_str :: "string \<Rightarrow> string \<Rightarrow> string \<Rightarrow> string" where
  "replace_all_str s old new =
     (if old = [] then s
      else case find_sub old s of
        None \<Rightarrow> s
      | Some p \<Rightarrow> take p s @ new @ replace_all_str (drop (p + length old) s) old new)"
  by pat_completeness auto
termination
  by (relation "measure (\<lambda>(s, old, new). length s)") (simp_all add: match_shrinks del: length_drop)

declare replace_all_str.simps [simp del]

section \<open>The preview\<close>

fun segments :: "char \<Rightarrow> string \<Rightarrow> string list" where
  "segments d [] = [[]]"
| "segments d (c # cs) =
     (if c = d then [] # segments d cs
      else (case segments d cs of [] \<Rightarrow> [[c]] | x # xs \<Rightarrow> (c # x) # xs))"

definition preview_lines :: "string \<Rightarrow> char \<Rightarrow> string list" where
  "preview_lines value pre =
     (let lines = segments nl (normalize_line_endings value);
          shown = map (\<lambda>l. pre # (if length l > 240 then take 240 l @ ''...'' else l)) (take 6 lines)
      in if length lines > length shown then shown @ [pre # ''...''] else shown)"

section \<open>The tools\<close>

definition utf8_bom :: string where "utf8_bom = [CHR 0xEF, CHR 0xBB, CHR 0xBF]"

text \<open>
  What happens outside during one edit: what others do to the files between the two reads, whether
  the file opens for writing, after how many bytes the write fails, if it does, and whether the
  stream notices the failure before it is closed (the bytes it still buffers are written by its
  destructor, whose failure nobody reads).
\<close>

record edit_env =
  ee_between :: "files \<Rightarrow> files"
  ee_open_ok :: "string \<Rightarrow> bool"
  ee_fails_after :: "nat option"
  ee_noticed :: bool

definition write_bytes :: "edit_env \<Rightarrow> string \<Rightarrow> string \<Rightarrow> files \<Rightarrow> (bool option \<times> files)" where
  "write_bytes env path bytes fs =
     (if \<not> ee_open_ok env path then (None, fs)
      else (case ee_fails_after env of
          None \<Rightarrow> (Some True, fs(path \<mapsto> bytes))
        | Some n \<Rightarrow> (Some (\<not> ee_noticed env), fs(path \<mapsto> take n bytes))))"

text \<open>The text to write, with the number of matches; \<open>Inl\<close> is the error message.\<close>

definition edit_text :: "string \<Rightarrow> string \<Rightarrow> string \<Rightarrow> bool \<Rightarrow> string + (nat \<times> string)" where
  "edit_text raw old_string new_string replace_all =
     (let bom = (take 3 raw = utf8_bom);
          t = (if bom then drop 3 raw else raw);
          ending = (if contains_sub t crlf then crlf else NL);
          old_match = convert_to_line_ending old_string ending;
          new_match = convert_to_line_ending new_string ending;
          n = count_occurrences t old_match
      in if n = 0 then
           Inl ''Error: Could not find old_string in the file. It must match exactly, including whitespace and indentation.''
         else if n > 1 \<and> \<not> replace_all then
           Inl ''Error: Found multiple exact matches for old_string. Provide more surrounding context or set replace_all to true.''
         else Inr (n, (if bom then utf8_bom else []) @
             (if replace_all then replace_all_str t old_match new_match
              else replace_first t old_match new_match)))"

definition edit_report :: "string \<Rightarrow> nat \<Rightarrow> string \<Rightarrow> string \<Rightarrow> string" where
  "edit_report file_path n old_string new_string =
     ''Edited file successfully: '' @ file_path @ NL @ ''Replacements: '' @ nat_str n @ NL @
     ''```diff'' @ NL @
     concat (map (\<lambda>l. l @ NL) (preview_lines old_string (CHR ''-''))) @
     concat (map (\<lambda>l. l @ NL) (preview_lines new_string (CHR ''+''))) @ ''```''"

definition edit_file ::
    "edit_env \<Rightarrow> string \<Rightarrow> string \<Rightarrow> string \<Rightarrow> bool \<Rightarrow> files \<Rightarrow> string \<times> files" where
  "edit_file env file_path old_string new_string replace_all fs =
     (if old_string = new_string then
        (''Error: No changes to apply: old_string and new_string are identical.'', fs)
      else if old_string = [] then
        (''Error: old_string must not be empty. Use write to create or overwrite a file.'', fs)
      else case fs file_path of
        None \<Rightarrow> (''Error: Could not open file: '' @ file_path, fs)
      | Some raw \<Rightarrow>
          (case edit_text raw old_string new_string replace_all of
             Inl e \<Rightarrow> (e, fs)
           | Inr (n, replaced) \<Rightarrow>
               let fs2 = ee_between env fs;
                   now = (case fs2 file_path of None \<Rightarrow> [] | Some b \<Rightarrow> b)
               in if now \<noteq> raw then
                    (''Error: File changed after permission approval. Read it again before editing.'', fs2)
                  else (case write_bytes env file_path replaced fs2 of
                      (None, fs3) \<Rightarrow> (''Error: Could not write file: '' @ file_path, fs3)
                    | (Some False, fs3) \<Rightarrow> (''Error: Could not write file: '' @ file_path, fs3)
                    | (Some True, fs3) \<Rightarrow> (edit_report file_path n old_string new_string, fs3))))"

definition edit_execute :: "edit_env \<Rightarrow> json \<Rightarrow> files \<Rightarrow> string outcome \<times> files" where
  "edit_execute env input fs =
     (case bind_outcome (jindex input ''file_path'') get_str of
        Inl e \<Rightarrow> (Inl e, fs)
      | Inr file_path \<Rightarrow>
     (case bind_outcome (jindex input ''old_string'') get_str of
        Inl e \<Rightarrow> (Inl e, fs)
      | Inr old_string \<Rightarrow>
     (case bind_outcome (jindex input ''new_string'') get_str of
        Inl e \<Rightarrow> (Inl e, fs)
      | Inr new_string \<Rightarrow>
     (case value_bool input ''replace_all'' False of
        Inl e \<Rightarrow> (Inl e, fs)
      | Inr replace_all \<Rightarrow>
          (let (msg, fs') = edit_file env file_path old_string new_string replace_all fs
           in (Inr msg, fs'))))))"

text \<open>\<open>write\<close> reports success once the file is open, also when the bytes cannot be written.\<close>

definition write_execute :: "edit_env \<Rightarrow> json \<Rightarrow> files \<Rightarrow> string outcome \<times> files" where
  "write_execute env input fs =
     (case bind_outcome (jindex input ''file_path'') get_str of
        Inl e \<Rightarrow> (Inl e, fs)
      | Inr file_path \<Rightarrow>
     (case bind_outcome (jindex input ''content'') get_str of
        Inl e \<Rightarrow> (Inl e, fs)
      | Inr content \<Rightarrow>
          (case write_bytes env file_path content fs of
             (None, fs') \<Rightarrow> (Inr (''Error: Could not open file for writing: '' @ file_path), fs')
           | (Some b, fs') \<Rightarrow> (Inr (''File written: '' @ file_path), fs'))))"

section \<open>Matches as a division of the text\<close>

text \<open>The text between successive matches.\<close>

function split_on :: "string \<Rightarrow> string \<Rightarrow> string list" where
  "split_on pat s =
     (if pat = [] then [s]
      else case find_sub pat s of
        None \<Rightarrow> [s]
      | Some p \<Rightarrow> take p s # split_on pat (drop (p + length pat) s))"
  by pat_completeness auto
termination
  by (relation "measure (\<lambda>(pat, s). length s)") (simp_all add: match_shrinks del: length_drop)

declare split_on.simps [simp del]

lemma split_on_nonempty: "split_on pat s \<noteq> []"
  by (subst split_on.simps) (simp split: option.splits)

lemma split_on_join: "join_with pat (split_on pat s) = s"
proof (induction pat s rule: split_on.induct)
  case (1 pat s)
  show ?case
  proof (cases "pat = [] \<or> find_sub pat s = None")
    case True
    then show ?thesis by (subst split_on.simps) auto
  next
    case False
    then obtain p where p: "find_sub pat s = Some p" by auto
    with 1[OF _ p] False show ?thesis
      using find_sub_Some(1)[OF p] split_on_nonempty
      by (subst split_on.simps) (simp add: join_with_Cons)
  qed
qed

lemma split_on_count:
  "pat \<noteq> [] \<Longrightarrow> length (split_on pat s) = Suc (count_occurrences s pat)"
proof (induction pat s rule: split_on.induct)
  case (1 pat s)
  then show ?case
    by (subst split_on.simps, subst count_occurrences.simps) (auto split: option.splits)
qed

lemma split_on_replace:
  "pat \<noteq> [] \<Longrightarrow> replace_all_str s pat new = join_with new (split_on pat s)"
proof (induction pat s rule: split_on.induct)
  case (1 pat s)
  then show ?case
    using split_on_nonempty
    by (subst split_on.simps, subst replace_all_str.simps) (auto simp: join_with_Cons split: option.splits)
qed

lemma find_sub_take_free: "find_sub pat s = Some p \<Longrightarrow> pat \<noteq> [] \<Longrightarrow> \<not> sublist pat (take p s)"
proof
  assume f: "find_sub pat s = Some p" "pat \<noteq> []" and "sublist pat (take p s)"
  then obtain i where i: "find_sub pat (take p s) = Some i" using find_sub_None by blast
  from find_sub_append_free[OF i, of "drop p s"] have "find_sub pat s = Some i" by simp
  with f have "i = p" by simp
  with find_sub_Some(2)[OF i] f(2) show False by (cases pat) auto
qed

lemma split_on_free: "pat \<noteq> [] \<Longrightarrow> x \<in> set (split_on pat s) \<Longrightarrow> \<not> sublist pat x"
proof (induction pat s rule: split_on.induct)
  case (1 pat s)
  show ?case
  proof (cases "find_sub pat s")
    case None
    have "split_on pat s = [s]" using None by (subst split_on.simps) simp
    then have "x = s" using 1(3) by simp
    then show ?thesis using None find_sub_None by blast
  next
    case (Some p)
    have "split_on pat s = take p s # split_on pat (drop (p + length pat) s)"
      using 1(2) Some by (subst split_on.simps) simp
    then have "x = take p s \<or> x \<in> set (split_on pat (drop (p + length pat) s))"
      using 1(3) by simp
    then show ?thesis using 1(1)[OF 1(2) Some 1(2)] find_sub_take_free[OF Some 1(2)] by blast
  qed
qed

lemma single_match:
  assumes "count_occurrences s old = 1"
  shows "\<exists>pre post. s = pre @ old @ post \<and> replace_first s old new = pre @ new @ post \<and>
    \<not> sublist old pre \<and> \<not> sublist old post"
proof -
  have ne: "old \<noteq> []" using assms by (subst (asm) count_occurrences.simps) auto
  obtain p where p: "find_sub old s = Some p"
    using assms ne by (subst (asm) count_occurrences.simps) (auto split: option.splits)
  have "count_occurrences (drop (p + length old) s) old = 0"
    using assms ne p by (subst (asm) count_occurrences.simps) simp
  then have "find_sub old (drop (p + length old) s) = None"
    using ne by (subst (asm) count_occurrences.simps) (simp split: option.splits)
  then have "\<not> sublist old (drop (p + length old) s)" using find_sub_None by blast
  with find_sub_Some(1)[OF p] find_sub_take_free[OF p ne] p show ?thesis
    by (intro exI[of _ "take p s"] exI[of _ "drop (p + length old) s"]) (simp add: replace_first_def)
qed

lemma normalize_nonempty: "s \<noteq> [] \<Longrightarrow> normalize_line_endings s \<noteq> []"
  by (induction s rule: normalize_line_endings.induct) auto

lemma convert_nonempty: "s \<noteq> [] \<Longrightarrow> convert_to_line_ending s e \<noteq> []"
  using normalize_nonempty[of s]
  by (cases "normalize_line_endings s") (auto simp: convert_to_line_ending_def expand_nl_def Let_def)

section \<open>What a successful edit writes\<close>

definition edit_succeeded :: "string \<Rightarrow> bool" where
  "edit_succeeded msg \<longleftrightarrow> starts_with msg ''Edited file successfully: ''"

lemma edit_text_error: "edit_text raw old new all = Inl e \<Longrightarrow> \<not> edit_succeeded e"
  by (auto simp: edit_text_def Let_def edit_succeeded_def starts_with_def split: if_splits)

lemma edit_success:
  assumes "edit_file env path old new all fs = (msg, fs')" "edit_succeeded msg"
  shows "\<exists>raw n replaced. fs path = Some raw \<and> edit_text raw old new all = Inr (n, replaced) \<and>
       (case ee_between env fs path of None \<Rightarrow> [] | Some b \<Rightarrow> b) = raw \<and> old \<noteq> [] \<and> old \<noteq> new \<and>
       (fs' = (ee_between env fs)(path \<mapsto> replaced) \<or>
        (\<exists>k. ee_fails_after env = Some k \<and> \<not> ee_noticed env \<and>
           fs' = (ee_between env fs)(path \<mapsto> take k replaced)))"
proof -
  have g: "old \<noteq> new" "old \<noteq> []" "\<exists>raw. fs path = Some raw"
    using assms by (auto simp: edit_file_def edit_succeeded_def starts_with_def split: if_splits option.splits)
  then obtain raw where raw: "fs path = Some raw" by blast
  have "\<exists>r. edit_text raw old new all = Inr r"
  proof (cases "edit_text raw old new all")
    case (Inl e)
    then have "msg = e" using assms(1) raw g by (simp add: edit_file_def)
    with edit_text_error[OF Inl] assms(2) show ?thesis by simp
  qed auto
  then obtain n replaced where t: "edit_text raw old new all = Inr (n, replaced)" by auto
  have now: "(case ee_between env fs path of None \<Rightarrow> [] | Some b \<Rightarrow> b) = raw"
  proof (rule ccontr)
    assume "(case ee_between env fs path of None \<Rightarrow> [] | Some b \<Rightarrow> b) \<noteq> raw"
    then show False
      using assms raw t g by (auto simp: edit_file_def Let_def edit_succeeded_def starts_with_def)
  qed
  show ?thesis
    using assms raw t now g
    by (auto simp: edit_file_def Let_def write_bytes_def edit_succeeded_def starts_with_def
        split: if_splits option.splits bool.splits)
qed

text \<open>What others made of the files meanwhile is all an unsuccessful edit leaves behind.\<close>

lemma edit_failure:
  assumes "edit_file env path old new all fs = (msg, fs')" "\<not> edit_succeeded msg"
  shows "fs' = fs \<or> fs' = ee_between env fs \<or> (\<exists>k. ee_fails_after env = Some k)"
  using assms
  by (auto simp: edit_file_def Let_def write_bytes_def edit_succeeded_def edit_report_def starts_with_def
      split: if_splits option.splits sum.splits prod.splits bool.splits)

text \<open>The parts \<open>edit_text\<close> works on: byte order mark, text, and both strings in its line ending.\<close>

definition bom_of :: "string \<Rightarrow> string" where
  "bom_of raw = (if take 3 raw = utf8_bom then utf8_bom else [])"

definition text_of :: "string \<Rightarrow> string" where
  "text_of raw = (if take 3 raw = utf8_bom then drop 3 raw else raw)"

definition in_ending_of :: "string \<Rightarrow> string \<Rightarrow> string" where
  "in_ending_of raw s = convert_to_line_ending s (if contains_sub (text_of raw) crlf then crlf else NL)"

lemma bom_text: "bom_of raw @ text_of raw = raw"
proof (cases "take 3 raw = utf8_bom")
  case True
  then have "utf8_bom @ drop 3 raw = raw" by (metis append_take_drop_id)
  then show ?thesis using True by (simp add: bom_of_def text_of_def)
qed (simp add: bom_of_def text_of_def)

lemma edit_text_parts:
  assumes "edit_text raw old new all = Inr (n, replaced)"
  shows "n = count_occurrences (text_of raw) (in_ending_of raw old)" and "n > 0"
    and "\<not> all \<Longrightarrow> n = 1 \<and>
      replaced = bom_of raw @ replace_first (text_of raw) (in_ending_of raw old) (in_ending_of raw new)"
    and "all \<Longrightarrow>
      replaced = bom_of raw @ replace_all_str (text_of raw) (in_ending_of raw old) (in_ending_of raw new)"
proof -
  note d = assms[unfolded edit_text_def Let_def, folded text_of_def, folded in_ending_of_def, folded bom_of_def]
  show "n = count_occurrences (text_of raw) (in_ending_of raw old)" "n > 0"
    using d by (auto split: if_splits)
  show "n = 1 \<and> replaced = bom_of raw @ replace_first (text_of raw) (in_ending_of raw old) (in_ending_of raw new)"
    if "\<not> all" using d that by (auto split: if_splits)
  show "replaced = bom_of raw @ replace_all_str (text_of raw) (in_ending_of raw old) (in_ending_of raw new)"
    if "all" using d that by (auto split: if_splits)
qed

section \<open>Properties\<close>

text \<open>C23: an edit without \<open>replace_all\<close> that reports success, with no failing write, has found
  \<open>old_string\<close> (in the file's line ending) exactly once and changed nothing else: the byte order
  mark and the text around the match are kept, neither side of which holds another match; every
  other file is as others left it.\<close>

theorem edit_replaces_the_only_match:
  assumes "edit_file env path old new False fs = (msg, fs')" "edit_succeeded msg"
    "ee_fails_after env = None"
  shows "\<exists>raw pre post. fs path = Some raw \<and>
    raw = bom_of raw @ pre @ in_ending_of raw old @ post \<and>
    \<not> sublist (in_ending_of raw old) pre \<and> \<not> sublist (in_ending_of raw old) post \<and>
    fs' = (ee_between env fs)(path \<mapsto> bom_of raw @ pre @ in_ending_of raw new @ post)"
proof -
  from edit_success[OF assms(1,2)] assms(3) obtain raw n replaced where
    r: "fs path = Some raw" and t: "edit_text raw old new False = Inr (n, replaced)"
    and w: "fs' = (ee_between env fs)(path \<mapsto> replaced)" by auto
  have one: "count_occurrences (text_of raw) (in_ending_of raw old) = 1"
    using edit_text_parts(1,3)[OF t] by simp
  from single_match[OF one, of "in_ending_of raw new"] obtain pre post where
    pp: "text_of raw = pre @ in_ending_of raw old @ post"
      "replace_first (text_of raw) (in_ending_of raw old) (in_ending_of raw new)
         = pre @ in_ending_of raw new @ post"
      "\<not> sublist (in_ending_of raw old) pre" "\<not> sublist (in_ending_of raw old) post" by blast
  from bom_text[of raw] pp(1) have "raw = bom_of raw @ pre @ in_ending_of raw old @ post" by simp
  moreover have "replaced = bom_of raw @ pre @ in_ending_of raw new @ post"
    using edit_text_parts(3)[OF t] pp(2) by simp
  ultimately show ?thesis using r w pp(3,4) by (intro exI[of _ raw] exI[of _ pre] exI[of _ post]) simp
qed

text \<open>an edit with \<open>replace_all\<close> that reports success, with no failing write, replaces every
  match: the text is a sequence of pieces without a match, joined by \<open>old_string\<close> before and by
  \<open>new_string\<close> after (both in the file's line ending), and the number reported is that of the
  matches.\<close>

theorem edit_replaces_every_match:
  assumes "edit_file env path old new True fs = (msg, fs')" "edit_succeeded msg"
    "ee_fails_after env = None"
  shows "\<exists>raw pieces. fs path = Some raw \<and>
    raw = bom_of raw @ join_with (in_ending_of raw old) pieces \<and>
    (\<forall>x \<in> set pieces. \<not> sublist (in_ending_of raw old) x) \<and>
    fs' = (ee_between env fs)(path \<mapsto> bom_of raw @ join_with (in_ending_of raw new) pieces) \<and>
    edit_text raw old new True = Inr (length pieces - 1, bom_of raw @ join_with (in_ending_of raw new) pieces)"
proof -
  from edit_success[OF assms(1,2)] assms(3) obtain raw n replaced where
    r: "fs path = Some raw" and t: "edit_text raw old new True = Inr (n, replaced)"
    and w: "fs' = (ee_between env fs)(path \<mapsto> replaced)" and ne: "old \<noteq> []" by auto
  let ?o = "in_ending_of raw old" and ?n = "in_ending_of raw new"
  have o: "?o \<noteq> []" unfolding in_ending_of_def using ne by (rule convert_nonempty)
  let ?p = "split_on ?o (text_of raw)"
  have "replaced = bom_of raw @ join_with ?n ?p"
    using edit_text_parts(4)[OF t] split_on_replace[OF o] by simp
  moreover have "n = length ?p - 1" using edit_text_parts(1)[OF t] split_on_count[OF o] by simp
  moreover have "raw = bom_of raw @ join_with ?o ?p" using bom_text split_on_join by simp
  ultimately show ?thesis using r w t split_on_free[OF o] by (intro exI[of _ raw] exI[of _ ?p]) simp
qed

text \<open>an edit that does not report success, with no failing write, leaves every file as it was
  or as others left it meanwhile; one that reports success has read the file twice with the same
  bytes, so no concurrent change to the file is overwritten.\<close>

theorem edit_loses_no_update:
  assumes "edit_file env path old new all fs = (msg, fs')" "ee_fails_after env = None"
  shows "if edit_succeeded msg then \<exists>raw. fs path = Some raw \<and>
      (case ee_between env fs path of None \<Rightarrow> [] | Some b \<Rightarrow> b) = raw
    else fs' = fs \<or> fs' = ee_between env fs"
  using edit_success[OF assms(1)] edit_failure[OF assms(1)] assms(2) by auto

section \<open>Witnesses\<close>

definition quiet_edit :: edit_env where
  "quiet_edit = \<lparr>ee_between = (\<lambda>fs. fs), ee_open_ok = (\<lambda>_. True), ee_fails_after = None, ee_noticed = True\<rparr>"

definition demo_files :: files where
  "demo_files = [''a'' \<mapsto> ''x=1'' @ crlf @ ''y=1'' @ crlf]"

lemma edit_replaces_the_only_match_witness:
  "\<exists>raw pre post. demo_files ''a'' = Some raw \<and>
    raw = bom_of raw @ pre @ in_ending_of raw (''1'' @ NL @ ''y'') @ post \<and>
    \<not> sublist (in_ending_of raw (''1'' @ NL @ ''y'')) pre \<and> \<not> sublist (in_ending_of raw (''1'' @ NL @ ''y'')) post \<and>
    snd (edit_file quiet_edit ''a'' (''1'' @ NL @ ''y'') ''2'' False demo_files) =
      (ee_between quiet_edit demo_files)(''a'' \<mapsto> bom_of raw @ pre @ in_ending_of raw ''2'' @ post)"
proof (rule edit_replaces_the_only_match)
  show "edit_file quiet_edit ''a'' (''1'' @ NL @ ''y'') ''2'' False demo_files =
    (fst (edit_file quiet_edit ''a'' (''1'' @ NL @ ''y'') ''2'' False demo_files),
     snd (edit_file quiet_edit ''a'' (''1'' @ NL @ ''y'') ''2'' False demo_files))" by simp
  show "edit_succeeded (fst (edit_file quiet_edit ''a'' (''1'' @ NL @ ''y'') ''2'' False demo_files))"
    by code_simp
  show "ee_fails_after quiet_edit = None" by (simp add: quiet_edit_def)
qed

lemma edit_replaces_every_match_witness:
  "\<exists>raw pieces. demo_files ''a'' = Some raw \<and>
    raw = bom_of raw @ join_with (in_ending_of raw ''=1'') pieces \<and>
    (\<forall>x \<in> set pieces. \<not> sublist (in_ending_of raw ''=1'') x) \<and>
    snd (edit_file quiet_edit ''a'' ''=1'' ''=20'' True demo_files) =
      (ee_between quiet_edit demo_files)(''a'' \<mapsto> bom_of raw @ join_with (in_ending_of raw ''=20'') pieces) \<and>
    edit_text raw ''=1'' ''=20'' True =
      Inr (length pieces - 1, bom_of raw @ join_with (in_ending_of raw ''=20'') pieces)"
proof (rule edit_replaces_every_match)
  show "edit_file quiet_edit ''a'' ''=1'' ''=20'' True demo_files =
    (fst (edit_file quiet_edit ''a'' ''=1'' ''=20'' True demo_files),
     snd (edit_file quiet_edit ''a'' ''=1'' ''=20'' True demo_files))" by simp
  show "edit_succeeded (fst (edit_file quiet_edit ''a'' ''=1'' ''=20'' True demo_files))" by code_simp
  show "ee_fails_after quiet_edit = None" by (simp add: quiet_edit_def)
qed

text \<open>Another writer gets between the two reads: its text stays.\<close>

lemma edit_loses_no_update_witness:
  "\<exists>msg. edit_file (quiet_edit\<lparr>ee_between := (\<lambda>fs. fs(''a'' \<mapsto> ''new''))\<rparr>) ''a'' ''x'' ''z'' False demo_files =
      (msg, demo_files(''a'' \<mapsto> ''new'')) \<and> \<not> edit_succeeded msg"
proof -
  let ?e = "quiet_edit\<lparr>ee_between := (\<lambda>fs. fs(''a'' \<mapsto> ''new''))\<rparr>"
  let ?r = "edit_file ?e ''a'' ''x'' ''z'' False demo_files"
  have r: "?r = (fst ?r, snd ?r)" by simp
  have f: "ee_fails_after ?e = None" by (simp add: quiet_edit_def)
  have n: "\<not> edit_succeeded (fst ?r)" by code_simp
  have c: "snd ?r ''a'' \<noteq> demo_files ''a''" by code_simp
  from edit_loses_no_update[OF r f] n c have "snd ?r = demo_files(''a'' \<mapsto> ''new'')" by auto
  with r n show ?thesis by (intro exI[of _ "fst ?r"]) (simp add: prod_eq_iff)
qed

text \<open>Overlapping matches are one match, so that an ambiguous \<open>old_string\<close> passes for a unique one.\<close>

lemma overlapping_matches_count_once:
  "edit_text ''aaa'' ''aa'' ''b'' False = Inr (1, ''ba'') \<and> sublist ''aa'' (tl ''aaa'')"
  by code_simp

end
