(* ===== verification/Paths.thy ===== *)
theory Paths
  imports Tool_Edit Wire
begin

text \<open>
  \<open>canonical_path\<close> of \<open>src/server/protocol.h\<close>: the name under which the swarm keeps a file. The
  lexical part (\<open>lexically_normal\<close> and \<open>operator/\<close> of \<open>std::filesystem\<close> on POSIX) is modelled; what
  \<open>weakly_canonical\<close> answers is a parameter, \<open>None\<close> where it sets the error code.
\<close>

section \<open>Names of files\<close>

definition is_absolute :: "string \<Rightarrow> bool" where
  "is_absolute p \<longleftrightarrow> (case p of [] \<Rightarrow> False | c # cs \<Rightarrow> c = CHR ''/'')"

text \<open>\<open>base / rel\<close>: an absolute right side replaces the left one.\<close>

definition path_append :: "string \<Rightarrow> string \<Rightarrow> string" where
  "path_append base rel =
     (if is_absolute rel then rel
      else if base = [] \<or> last base = CHR ''/'' then base @ rel
      else base @ CHR ''/'' # rel)"

definition path_names :: "string \<Rightarrow> string list" where
  "path_names p = filter (\<lambda>n. n \<noteq> []) (segments (CHR ''/'') p)"

text \<open>
  One name of the path onto the names kept so far, the innermost first: a dot is dropped, two dots
  take back a proper name, are dropped at the root and kept otherwise.
\<close>

fun normal_step :: "bool \<Rightarrow> string \<Rightarrow> string list \<Rightarrow> string list" where
  "normal_step root n st =
     (if n = ''.'' then st
      else if n = ''..'' then
        (case st of
           [] \<Rightarrow> if root then [] else [n]
         | m # ms \<Rightarrow> if m = ''..'' then n # m # ms else ms)
      else n # st)"

declare normal_step.simps [simp del]

definition normal_names :: "bool \<Rightarrow> string list \<Rightarrow> string list" where
  "normal_names root ns = rev (fold (normal_step root) ns [])"

text \<open>A directory is marked by a final slash: the path ends in one, in a dot, or in two dots that took
  back a name.\<close>

definition lexically_normal :: "string \<Rightarrow> string" where
  "lexically_normal p =
     (if p = [] then []
      else let root = is_absolute p;
               ns = normal_names root (path_names p);
               dir = (ns \<noteq> [] \<and> last ns \<noteq> ''..'' \<and> last (segments (CHR ''/'') p) \<in> {[], ''.'', ''..''});
               out = join_with ''/'' ns @ (if dir then ''/'' else [])
           in if root then CHR ''/'' # out else if out = [] then ''.'' else out)"

definition canonical_path :: "(string \<Rightarrow> string option) \<Rightarrow> string \<Rightarrow> string \<Rightarrow> string" where
  "canonical_path weak base rel =
     (let combined = (if is_absolute rel then lexically_normal rel
                      else lexically_normal (path_append base rel))
      in case weak combined of None \<Rightarrow> combined | Some resolved \<Rightarrow> resolved)"

section \<open>Where a path leads\<close>

text \<open>
  The reference: walking the names from a directory, given by its names from the root. Two dots at
  the root stay there.
\<close>

fun go_step :: "string list \<Rightarrow> string \<Rightarrow> string list" where
  "go_step d n = (if n = ''.'' then d else if n = ''..'' then butlast d else d @ [n])"

definition walk :: "string list \<Rightarrow> string \<Rightarrow> string list" where
  "walk d p = foldl go_step d (path_names p)"

definition located :: "string \<Rightarrow> string \<Rightarrow> string list" where
  "located base rel = (if is_absolute rel then walk [] rel else walk (walk [] base) rel)"

definition location_str :: "string list \<Rightarrow> string" where
  "location_str ns = CHR ''/'' # join_with ''/'' ns"

text \<open>The path names a file rather than a directory.\<close>

definition names_file :: "string \<Rightarrow> bool" where
  "names_file p \<longleftrightarrow> last (segments (CHR ''/'') p) \<notin> {[], ''.'', ''..''}"

definition proper_name :: "string \<Rightarrow> bool" where
  "proper_name n \<longleftrightarrow> n \<notin> {[], ''.'', ''..''} \<and> CHR ''/'' \<notin> set n"

lemma segments_nonempty [simp]: "segments d s \<noteq> []"
  by (induction s) (auto split: list.splits)

lemma segments_clean: "x \<in> set (segments d s) \<Longrightarrow> d \<notin> set x"
  by (induction s arbitrary: x) (auto split: list.splits if_splits)

lemma segments_append: "segments d (a @ d # b) = segments d a @ segments d b"
  by (induction a) (auto split: list.splits simp: Cons_eq_append_conv)

lemma segments_one: "d \<notin> set a \<Longrightarrow> segments d a = [a]"
  by (induction a) auto

lemma segments_joined:
  "ns \<noteq> [] \<Longrightarrow> (\<And>n. n \<in> set ns \<Longrightarrow> CHR ''/'' \<notin> set n) \<Longrightarrow>
   segments (CHR ''/'') (join_with ''/'' ns) = ns"
proof (induction ns)
  case (Cons n ns)
  then show ?case by (cases "ns = []") (simp_all add: join_with_Cons segments_append segments_one)
qed simp

lemma path_names_clean: "n \<in> set (path_names p) \<Longrightarrow> n \<noteq> [] \<and> CHR ''/'' \<notin> set n"
  using segments_clean by (auto simp: path_names_def)

lemma path_names_append: "path_names (a @ CHR ''/'' # b) = path_names a @ path_names b"
  by (simp add: path_names_def segments_append)

lemma path_names_slash: "path_names (CHR ''/'' # b) = path_names b"
  by (simp add: path_names_def)

lemma path_append_names:
  assumes "\<not> is_absolute rel"
  shows "path_names (path_append base rel) = path_names base @ path_names rel"
proof (cases "base = [] \<or> last base = CHR ''/''")
  case True
  show ?thesis
  proof (cases "base = []")
    case True
    then show ?thesis using assms by (simp add: path_append_def path_names_def)
  next
    case False
    then obtain b where "base = b @ [CHR ''/'']" using True by (metis append_butlast_last_id)
    then show ?thesis
      using assms path_names_append[of b rel] path_names_append[of b "[]"]
      by (simp add: path_append_def path_names_def)
  qed
qed (use assms in \<open>simp add: path_append_def path_names_append\<close>)

lemma path_append_last:
  assumes "\<not> is_absolute rel" "names_file rel"
  shows "last (segments (CHR ''/'') (path_append base rel)) = last (segments (CHR ''/'') rel)"
proof -
  have "last (segments (CHR ''/'') (b @ CHR ''/'' # rel)) = last (segments (CHR ''/'') rel)" for b
    by (simp add: segments_append)
  moreover have "base = [] \<or> last base \<noteq> CHR ''/'' \<or> (\<exists>b. base = b @ [CHR ''/''])"
    by (metis append_butlast_last_id)
  ultimately show ?thesis using assms(1) by (auto simp: path_append_def)
qed

lemma path_append_absolute: "is_absolute base \<Longrightarrow> is_absolute (path_append base rel)"
  by (auto simp: path_append_def is_absolute_def split: list.splits)

section \<open>The lexical normal form\<close>

lemma normal_fold_walk:
  "list_all (\<lambda>n. n \<noteq> ''..'') st \<Longrightarrow>
   fold (normal_step True) ns st = rev (foldl go_step (rev st) ns)"
proof (induction ns arbitrary: st)
  case (Cons n ns)
  have "normal_step True n st = rev (go_step (rev st) n)"
    using Cons.prems by (cases st) (auto simp: normal_step.simps)
  moreover have "list_all (\<lambda>n. n \<noteq> ''..'') (normal_step True n st)"
    using Cons.prems by (cases st) (auto simp: normal_step.simps)
  ultimately show ?case using Cons.IH by simp
qed simp

lemma normal_names_walk: "normal_names True (path_names p) = walk [] p"
  by (simp add: normal_names_def walk_def normal_fold_walk)

lemma walk_proper:
  "list_all proper_name d \<Longrightarrow> list_all proper_name (walk d p)"
proof -
  have "(\<And>n. n \<in> set ns \<Longrightarrow> n \<noteq> [] \<and> CHR ''/'' \<notin> set n) \<Longrightarrow> list_all proper_name d \<Longrightarrow>
      list_all proper_name (foldl go_step d ns)" for ns
  proof (induction ns arbitrary: d)
    case (Cons n ns)
    have "list_all proper_name (go_step d n)"
      using Cons.prems(1)[of n] Cons.prems(2)
      by (auto simp: proper_name_def list_all_iff dest: in_set_butlastD)
    then show ?case using Cons by simp
  qed simp
  then show "list_all proper_name d \<Longrightarrow> list_all proper_name (walk d p)"
    using path_names_clean by (simp add: walk_def)
qed

lemma located_proper: "list_all proper_name (located base rel)"
  by (simp add: located_def walk_proper)

lemma normal_file:
  assumes "is_absolute p" "names_file p"
  shows "lexically_normal p = location_str (walk [] p)"
proof -
  have "p \<noteq> []" using assms(1) by (auto simp: is_absolute_def)
  then show ?thesis
    using assms unfolding lexically_normal_def names_file_def normal_names_walk location_str_def
    by (simp add: Let_def normal_names_walk)
qed

lemma walk_append:
  assumes "\<not> is_absolute rel"
  shows "walk d (path_append base rel) = walk (walk d base) rel"
  using path_append_names[OF assms] by (simp add: walk_def)

lemma combined_file:
  assumes "is_absolute base" "names_file rel"
  shows "(if is_absolute rel then lexically_normal rel else lexically_normal (path_append base rel)) =
    location_str (located base rel)"
proof (cases "is_absolute rel")
  case True
  then show ?thesis using normal_file[OF True assms(2)] by (simp add: located_def)
next
  case False
  have "names_file (path_append base rel)"
    using path_append_last[OF False assms(2)] assms(2) by (simp add: names_file_def)
  then show ?thesis
    using False normal_file[OF path_append_absolute[OF assms(1)]] walk_append[OF False]
    by (simp add: located_def)
qed

lemma location_absolute [simp]: "is_absolute (location_str ns)"
  by (simp add: is_absolute_def location_str_def)

lemma location_segments:
  assumes "list_all proper_name ns" "ns \<noteq> []"
  shows "segments (CHR ''/'') (location_str ns) = [] # ns"
  using assms segments_joined[of ns]
  by (simp add: location_str_def list_all_iff proper_name_def)

lemma walk_plain: "list_all proper_name ns \<Longrightarrow> foldl go_step d ns = d @ ns"
  by (induction ns arbitrary: d) (auto simp: proper_name_def)

lemma location_names:
  assumes "list_all proper_name ns"
  shows "path_names (location_str ns) = ns"
proof (cases "ns = []")
  case True
  show ?thesis unfolding True by code_simp
next
  case False
  then show ?thesis
    using assms unfolding path_names_def location_segments[OF assms False]
    by (simp add: list_all_iff proper_name_def filter_id_conv)
qed

lemma normal_location:
  assumes "list_all proper_name ns"
  shows "lexically_normal (location_str ns) = location_str ns"
proof (cases "ns = []")
  case True
  show ?thesis unfolding True by code_simp
next
  case False
  note n = location_names[OF assms]
  have "names_file (location_str ns)"
    using assms False unfolding names_file_def location_segments[OF assms False]
    by (auto simp: list_all_iff proper_name_def)
  then show ?thesis
    using normal_file[OF location_absolute] walk_plain[OF assms, of "[]"] by (simp add: walk_def n)
qed

section \<open>Canonical paths\<close>

text \<open>
  What \<open>weakly_canonical\<close> is documented to answer on a fixed file system: an absolute path in normal
  form that it does not change again.
\<close>

definition canonicaliser :: "(string \<Rightarrow> string option) \<Rightarrow> bool" where
  "canonicaliser weak \<longleftrightarrow>
     (\<forall>p q. is_absolute p \<and> weak p = Some q \<longrightarrow> is_absolute q \<and> lexically_normal q = q \<and> weak q = Some q)"

lemma canonical_location:
  assumes "is_absolute base" "names_file rel"
  shows "canonical_path weak base rel =
    (case weak (location_str (located base rel)) of
       None \<Rightarrow> location_str (located base rel) | Some q \<Rightarrow> q)"
  unfolding canonical_path_def combined_file[OF assms] Let_def ..

lemma canonicaliserD:
  assumes "canonicaliser weak" "weak (location_str ns) = Some q"
  shows "is_absolute q" "lexically_normal q = q" "weak q = Some q"
  using assms location_absolute unfolding canonicaliser_def by blast+

lemma canonical_absolute:
  assumes "canonicaliser weak" "is_absolute base" "names_file rel"
  shows "is_absolute (canonical_path weak base rel)"
  unfolding canonical_location[OF assms(2,3)]
  by (cases "weak (location_str (located base rel))") (simp_all add: canonicaliserD[OF assms(1)])

lemma canonical_normal:
  assumes "is_absolute k" "lexically_normal k = k"
  shows "canonical_path weak base k = (case weak k of None \<Rightarrow> k | Some q \<Rightarrow> q)"
  by (simp add: canonical_path_def assms)

text \<open>A canonical path is taken for itself, whatever directory it is read against: the daemon
  canonicalises what the client has canonicalised already.\<close>

lemma canonical_again:
  assumes "canonicaliser weak" "is_absolute base" "names_file rel"
  shows "canonical_path weak base' (canonical_path weak base rel) = canonical_path weak base rel"
proof (cases "weak (location_str (located base rel))")
  case None
  then show ?thesis
    unfolding canonical_location[OF assms(2,3)]
    by (simp add: canonical_normal normal_location[OF located_proper])
next
  case (Some q)
  then show ?thesis
    unfolding canonical_location[OF assms(2,3)]
    by (simp add: canonical_normal canonicaliserD[OF assms(1) Some])
qed

section \<open>Properties\<close>

text \<open>The name of a file depends on the place its path leads to and not on the spelling: on a file
  system without symbolic links it is that place written out, so that two spellings have one name
  exactly when they lead to the same place.\<close>

theorem canonical_name_is_the_place:
  assumes "is_absolute base" "names_file p" "is_absolute base'" "names_file q"
  shows "canonical_path (\<lambda>x. None) base p = location_str (located base p) \<and>
    (canonical_path (\<lambda>x. None) base p = canonical_path (\<lambda>x. None) base' q \<longleftrightarrow>
     located base p = located base' q)"
proof -
  have "location_str (located base p) = location_str (located base' q) \<longleftrightarrow> located base p = located base' q"
    using location_names[OF located_proper, of base p] location_names[OF located_proper, of base' q]
    by metis
  then show ?thesis
    unfolding canonical_location[OF assms(1,2)] canonical_location[OF assms(3,4)] by simp
qed

theorem canonical_name_is_the_place_witness:
  "canonical_path (\<lambda>x. None) ''/home/me/repo'' ''./src//../README'' = ''/home/me/repo/README'' \<and>
   canonical_path (\<lambda>x. None) ''/home/me/repo'' ''./src//../README'' =
   canonical_path (\<lambda>x. None) ''/home/me/repo/src'' ''../README''"
proof -
  have n: "is_absolute ''/home/me/repo''" "names_file ''./src//../README''"
    "is_absolute ''/home/me/repo/src''" "names_file ''../README''"
    by code_simp+
  have l: "located ''/home/me/repo'' ''./src//../README'' = located ''/home/me/repo/src'' ''../README''"
    "location_str (located ''/home/me/repo'' ''./src//../README'') = ''/home/me/repo/README''"
    by code_simp+
  note T = canonical_name_is_the_place[OF n]
  show ?thesis by (rule conjI[OF trans[OF conjunct1[OF T] l(2)] iffD2[OF conjunct2[OF T] l(1)]])
qed

end
