(* ===== verification/Sys_Context.thy ===== *)
theory Sys_Context
  imports Json_Value "HOL-Library.Multiset"
begin

text \<open>
  \<open>src/system/\<close>: context sources (\<open>systemcontext.h\<close>: keys, \<open>make\<close>, \<open>combine\<close>, \<open>initialize\<close>,
  \<open>reconcile\<close>, \<open>replace\<close>), their registry (\<open>registry.h\<close>) and the built-in sources
  (\<open>builtins.h\<close>). What a source observes (the loaded value, or \<open>None\<close> for \<open>Unavailable\<close>) is part of
  the source at the moment it is observed.
\<close>

section \<open>Keys\<close>

definition lower_alnum :: "char \<Rightarrow> bool" where
  "lower_alnum c \<longleftrightarrow>
     (CHR ''a'' \<le> c \<and> c \<le> CHR ''z'') \<or> (CHR ''0'' \<le> c \<and> c \<le> CHR ''9'')"

definition key_char :: "char \<Rightarrow> bool" where
  "key_char c \<longleftrightarrow> lower_alnum c \<or> c \<in> set ''._-''"

text \<open>The regular expression: two parts around the first slash, each starting alphanumeric.\<close>

definition key_is_valid :: "string \<Rightarrow> bool" where
  "key_is_valid s =
     (case split_at (CHR ''/'') s of
        Some (a # as, b # bs) \<Rightarrow>
          lower_alnum a \<and> list_all key_char as \<and>
          lower_alnum b \<and> list_all (\<lambda>c. key_char c \<or> c = CHR ''/'') bs
      | _ \<Rightarrow> False)"

datatype ctx_key = Key (key_str: string)

definition make_key :: "string \<Rightarrow> ctx_key outcome" where
  "make_key s =
     (if key_is_valid s then Inr (Key s)
      else Inl (Thrown (''Invalid system context key: '' @ s)))"

text \<open>\<open>operator<\<close> of \<open>Key\<close> compares the strings.\<close>

instantiation ctx_key :: linorder
begin

definition less_ctx_key :: "ctx_key \<Rightarrow> ctx_key \<Rightarrow> bool" where
  "less_ctx_key a b \<longleftrightarrow> key_str a < key_str b"

definition less_eq_ctx_key :: "ctx_key \<Rightarrow> ctx_key \<Rightarrow> bool" where
  "less_eq_ctx_key a b \<longleftrightarrow> key_str a \<le> key_str b"

instance
  by standard (auto simp: less_ctx_key_def less_eq_ctx_key_def ctx_key.expand)

end

definition blocked_message :: "ctx_key list \<Rightarrow> string" where
  "blocked_message keys =
     (if keys = [] then ''System context initialization blocked by unavailable sources''
      else ''System context initialization blocked by unavailable sources: ''
           @ join_with '', '' (map key_str keys))"

section \<open>Sources\<close>

record source_snapshot =
  ss_value :: json
  ss_removed :: "string option"

type_synonym snapshot = "(string, source_snapshot) omap"

record generation =
  gen_baseline :: string
  gen_snapshot :: snapshot

record 'a source =
  src_key :: ctx_key
  src_load :: "'a option"
  src_baseline :: "'a \<Rightarrow> string"
  src_update :: "'a \<Rightarrow> 'a \<Rightarrow> string"
  src_removed :: "('a \<Rightarrow> string option) option"
  src_to_json :: "'a \<Rightarrow> json"
  src_from_json :: "json \<Rightarrow> 'a option"
  src_equivalent :: "'a \<Rightarrow> 'a \<Rightarrow> bool"

record rendered =
  ren_text :: string
  ren_snapshot :: source_snapshot

text \<open>An \<open>Updated\<close> comparison carries the rendering that is run only when it is used.\<close>

datatype compared = Incompatible | SameValue | UpdatedValue "rendered outcome"

record loaded =
  ld_baseline :: "rendered outcome"
  ld_compare :: "json \<Rightarrow> compared"

record packed_source =
  pk_key :: ctx_key
  pk_load :: "loaded option"

definition require_text :: "ctx_key \<Rightarrow> string \<Rightarrow> string \<Rightarrow> string outcome" where
  "require_text key kind t =
     (if t = [] then Inl (Thrown (''System context source '' @ key_str key
                                  @ '' rendered an empty '' @ kind))
      else Inr t)"

definition make_snapshot :: "'a source \<Rightarrow> 'a \<Rightarrow> source_snapshot" where
  "make_snapshot src v =
     \<lparr>ss_value = src_to_json src v,
      ss_removed = (case src_removed src of None \<Rightarrow> None | Some f \<Rightarrow> f v)\<rparr>"

definition render_with :: "'a source \<Rightarrow> 'a \<Rightarrow> string \<Rightarrow> string \<Rightarrow> rendered outcome" where
  "render_with src v kind t =
     (case require_text (src_key src) kind t of
        Inl e \<Rightarrow> Inl e
      | Inr t' \<Rightarrow> Inr \<lparr>ren_text = t', ren_snapshot = make_snapshot src v\<rparr>)"

definition make_loaded :: "'a source \<Rightarrow> 'a \<Rightarrow> loaded" where
  "make_loaded src v =
     \<lparr>ld_baseline = render_with src v ''baseline'' (src_baseline src v),
      ld_compare = (\<lambda>previous.
        case src_from_json src previous of
          None \<Rightarrow> Incompatible
        | Some d \<Rightarrow>
            if src_equivalent src d v then SameValue
            else UpdatedValue (render_with src v ''update'' (src_update src d v)))\<rparr>"

definition make_source :: "'a source \<Rightarrow> packed_source" where
  "make_source src =
     \<lparr>pk_key = src_key src, pk_load = map_option (make_loaded src) (src_load src)\<rparr>"

text \<open>\<open>combine\<close> keeps the order and rejects a key seen twice.\<close>

fun combine_from :: "string list \<Rightarrow> packed_source list \<Rightarrow> packed_source list outcome" where
  "combine_from seen [] = Inr []"
| "combine_from seen (p # ps) =
     (let k = key_str (pk_key p)
      in if k \<in> set seen then Inl (Thrown (''Duplicate system context key: '' @ k))
         else (case combine_from (k # seen) ps of Inl e \<Rightarrow> Inl e | Inr qs \<Rightarrow> Inr (p # qs)))"

definition combine :: "packed_source list list \<Rightarrow> packed_source list outcome" where
  "combine contexts = combine_from [] (concat contexts)"

lemma combine_from_Inr:
  "combine_from seen ps = Inr qs \<Longrightarrow>
     qs = ps \<and> distinct (map (key_str \<circ> pk_key) ps) \<and>
     set (map (key_str \<circ> pk_key) ps) \<inter> set seen = {}"
proof (induction seen ps arbitrary: qs rule: combine_from.induct)
  case (2 seen p ps)
  let ?k = "key_str (pk_key p)"
  from 2(2) have k: "?k \<notin> set seen" by (auto simp: Let_def split: if_splits)
  with 2(2) obtain rs where "combine_from (?k # seen) ps = Inr rs" "qs = p # rs"
    by (auto simp: Let_def split: sum.splits)
  with 2(1)[OF refl k, of rs] k show ?case by auto
qed simp

section \<open>Observing, initializing\<close>

datatype entry =
    Available (entry_key: ctx_key) (entry_loaded: loaded)
  | UnavailableEntry (entry_key: ctx_key)

definition observe_one :: "packed_source \<Rightarrow> entry" where
  "observe_one p =
     (case pk_load p of None \<Rightarrow> UnavailableEntry (pk_key p) | Some l \<Rightarrow> Available (pk_key p) l)"

definition observe :: "packed_source list \<Rightarrow> entry list" where
  "observe ps = map observe_one ps"

definition render_parts :: "string list \<Rightarrow> string" where
  "render_parts parts = join_with [nl, nl] parts"

fun initialize_from :: "entry list \<Rightarrow> string list \<Rightarrow> snapshot \<Rightarrow> (string list \<times> snapshot) outcome"
where
  "initialize_from [] parts snap = Inr (parts, snap)"
| "initialize_from (UnavailableEntry k # es) parts snap = initialize_from es parts snap"
| "initialize_from (Available k l # es) parts snap =
     (case ld_baseline l of
        Inl e \<Rightarrow> Inl e
      | Inr r \<Rightarrow> initialize_from es (parts @ [ren_text r])
                  (om_put (key_str k) (ren_snapshot r) snap))"

definition initialize_observation :: "entry list \<Rightarrow> generation outcome" where
  "initialize_observation es =
     (case initialize_from es [] [] of
        Inl e \<Rightarrow> Inl e
      | Inr (parts, snap) \<Rightarrow> Inr \<lparr>gen_baseline = render_parts parts, gen_snapshot = snap\<rparr>)"

datatype init_result = Initialized generation | InitializationBlocked "ctx_key list"

fun unavailable_keys :: "entry list \<Rightarrow> ctx_key list" where
  "unavailable_keys [] = []"
| "unavailable_keys (UnavailableEntry k # es) = k # unavailable_keys es"
| "unavailable_keys (Available k l # es) = unavailable_keys es"

definition initialize :: "packed_source list \<Rightarrow> init_result outcome" where
  "initialize ctx =
     (let entries = observe ctx; unavailable = unavailable_keys entries
      in if unavailable \<noteq> [] then Inr (InitializationBlocked unavailable)
         else (case initialize_observation entries of
             Inl e \<Rightarrow> Inl e | Inr g \<Rightarrow> Inr (Initialized g)))"

section \<open>Reconciling with a previous snapshot\<close>

datatype reconcile_result =
    RUnchanged snapshot
  | RUpdated string snapshot
  | RReplacementReady generation
  | RReplacementBlocked
  | RReplace

text \<open>First pass: compare every available, known source; \<open>None\<close> is an incompatible one.\<close>

fun compare_all ::
    "entry list \<Rightarrow> snapshot \<Rightarrow> (string, compared) omap \<Rightarrow> (string, compared) omap option" where
  "compare_all [] prev cs = Some cs"
| "compare_all (UnavailableEntry k # es) prev cs = compare_all es prev cs"
| "compare_all (Available k l # es) prev cs =
     (case om_get prev (key_str k) of
        None \<Rightarrow> compare_all es prev cs
      | Some stored \<Rightarrow>
          (case ld_compare l (ss_value stored) of
             Incompatible \<Rightarrow> None
           | c \<Rightarrow> compare_all es prev (om_put (key_str k) c cs)))"

definition entry_keys :: "entry list \<Rightarrow> string list" where
  "entry_keys es = map (key_str \<circ> entry_key) es"

text \<open>Second pass: a source that disappeared needs a removal text.\<close>

definition vanished :: "entry list \<Rightarrow> snapshot \<Rightarrow> (string \<times> source_snapshot) list" where
  "vanished es prev = filter (\<lambda>(k, s). k \<notin> set (entry_keys es)) prev"

text \<open>Third pass: the new snapshot and the update texts.\<close>

fun render_all ::
    "entry list \<Rightarrow> snapshot \<Rightarrow> (string, compared) omap \<Rightarrow> string list \<Rightarrow> snapshot
      \<Rightarrow> (string list \<times> snapshot) outcome" where
  "render_all [] prev cs ups snap = Inr (ups, snap)"
| "render_all (UnavailableEntry k # es) prev cs ups snap =
     (case om_get prev (key_str k) of
        None \<Rightarrow> render_all es prev cs ups snap
      | Some stored \<Rightarrow> render_all es prev cs ups (om_put (key_str k) stored snap))"
| "render_all (Available k l # es) prev cs ups snap =
     (case om_get prev (key_str k) of
        None \<Rightarrow>
          (case ld_baseline l of
             Inl e \<Rightarrow> Inl e
           | Inr r \<Rightarrow> render_all es prev cs (ups @ [ren_text r])
                       (om_put (key_str k) (ren_snapshot r) snap))
      | Some stored \<Rightarrow>
          (case om_get cs (key_str k) of
             Some (UpdatedValue (Inl e)) \<Rightarrow> Inl e
           | Some (UpdatedValue (Inr r)) \<Rightarrow>
               render_all es prev cs (ups @ [ren_text r])
                 (om_put (key_str k) (ren_snapshot r) snap)
           | _ \<Rightarrow> render_all es prev cs ups (om_put (key_str k) stored snap)))"

definition reconcile_observation :: "entry list \<Rightarrow> snapshot \<Rightarrow> reconcile_result outcome" where
  "reconcile_observation es prev =
     (case compare_all es prev [] of
        None \<Rightarrow> Inr RReplace
      | Some cs \<Rightarrow>
          if \<exists>(k, s) \<in> set (vanished es prev). ss_removed s = None then Inr RReplace
          else (case render_all es prev cs [] [] of
              Inl e \<Rightarrow> Inl e
            | Inr (ups, snap) \<Rightarrow>
                let updates = ups @ map (\<lambda>(k, s). the (ss_removed s)) (vanished es prev)
                in if updates = [] then Inr (RUnchanged snap)
                   else Inr (RUpdated (render_parts updates) snap)))"

text \<open>\<open>None\<close> is a blocked replacement: a known source is unavailable now.\<close>

definition replace_observation :: "entry list \<Rightarrow> snapshot \<Rightarrow> generation option outcome" where
  "replace_observation es prev =
     (if \<exists>k \<in> set (unavailable_keys es). om_get prev (key_str k) \<noteq> None then Inr None
      else (case initialize_observation es of Inl e \<Rightarrow> Inl e | Inr g \<Rightarrow> Inr (Some g)))"

definition reconcile :: "packed_source list \<Rightarrow> snapshot \<Rightarrow> reconcile_result outcome" where
  "reconcile ctx prev =
     (let es = observe ctx
      in (case reconcile_observation es prev of
            Inr RReplace \<Rightarrow>
              (case replace_observation es prev of
                 Inl e \<Rightarrow> Inl e
               | Inr (Some g) \<Rightarrow> Inr (RReplacementReady g)
               | Inr None \<Rightarrow> Inr RReplacementBlocked)
          | r \<Rightarrow> r))"

definition replace_context :: "packed_source list \<Rightarrow> snapshot \<Rightarrow> generation option outcome" where
  "replace_context ctx prev = replace_observation (observe ctx) prev"

section \<open>Reconciliation settles\<close>

text \<open>
  A loaded source settles when comparing it with a snapshot taken of its own value finds nothing
  new. A snapshot is current for some entries when every available source compares as unchanged.
\<close>

definition settling :: "loaded \<Rightarrow> bool" where
  "settling l \<longleftrightarrow>
     (\<forall>r. ld_baseline l = Inr r \<longrightarrow> ld_compare l (ss_value (ren_snapshot r)) = SameValue) \<and>
     (\<forall>p r. ld_compare l p = UpdatedValue (Inr r) \<longrightarrow>
        ld_compare l (ss_value (ren_snapshot r)) = SameValue)"

definition all_settling :: "entry list \<Rightarrow> bool" where
  "all_settling es \<longleftrightarrow> (\<forall>k l. Available k l \<in> set es \<longrightarrow> settling l)"

definition current_for :: "entry list \<Rightarrow> snapshot \<Rightarrow> bool" where
  "current_for es s \<longleftrightarrow>
     (\<forall>k l. Available k l \<in> set es \<longrightarrow>
        (\<exists>st. om_get s (key_str k) = Some st \<and> ld_compare l (ss_value st) = SameValue))"

lemma entry_keys_simps [simp]:
  "entry_keys [] = []"
  "entry_keys (e # es) = key_str (entry_key e) # entry_keys es"
  by (simp_all add: entry_keys_def)

lemma entry_key_mem: "e \<in> set es \<Longrightarrow> key_str (entry_key e) \<in> set (entry_keys es)"
  by (auto simp: entry_keys_def)

lemma compare_all_current:
  assumes "current_for es s"
  shows "\<exists>cs'. compare_all es s cs = Some cs' \<and>
    (\<forall>k. om_get cs' k = om_get cs k \<or> om_get cs' k = Some SameValue)"
  using assms
proof (induction es arbitrary: cs)
  case (Cons e es)
  then have IH: "\<And>cs. \<exists>cs'. compare_all es s cs = Some cs' \<and>
      (\<forall>k. om_get cs' k = om_get cs k \<or> om_get cs' k = Some SameValue)"
    by (simp add: current_for_def)
  show ?case
  proof (cases e)
    case (Available k l)
    then obtain st where "om_get s (key_str k) = Some st" "ld_compare l (ss_value st) = SameValue"
      using Cons.prems by (auto simp: current_for_def)
    then have step: "compare_all (e # es) s cs = compare_all es s (om_put (key_str k) SameValue cs)"
      using Available by simp
    obtain cs' where cs': "compare_all es s (om_put (key_str k) SameValue cs) = Some cs'"
        "\<forall>j. om_get cs' j = om_get (om_put (key_str k) SameValue cs) j \<or> om_get cs' j = Some SameValue"
      using IH by blast
    have "\<forall>j. om_get cs' j = om_get cs j \<or> om_get cs' j = Some SameValue"
    proof
      fix j
      show "om_get cs' j = om_get cs j \<or> om_get cs' j = Some SameValue"
        using cs'(2)[rule_format, of j] by (simp add: om_get_put split: if_splits)
    qed
    then show ?thesis using cs'(1) unfolding step by (intro exI[of _ cs'] conjI)
  qed (use IH in simp)
qed simp

lemma render_all_current:
  assumes "current_for es s" "\<forall>k. om_get cs k = None \<or> om_get cs k = Some SameValue"
  shows "\<exists>snap'. render_all es s cs ups snap = Inr (ups, snap') \<and> (om_ok snap \<longrightarrow> om_ok snap') \<and>
    (\<forall>k. om_get snap' k =
       (if k \<in> set (entry_keys es) \<and> om_get s k \<noteq> None then om_get s k else om_get snap k))"
  using assms
proof (induction es arbitrary: snap)
  case (Cons e es)
  have IH: "\<And>snap. \<exists>snap'. render_all es s cs ups snap = Inr (ups, snap') \<and>
      (om_ok snap \<longrightarrow> om_ok snap') \<and>
      (\<forall>k. om_get snap' k =
         (if k \<in> set (entry_keys es) \<and> om_get s k \<noteq> None then om_get s k else om_get snap k))"
    using Cons by (simp add: current_for_def)
  have step: "render_all (e # es) s cs ups snap =
      (case om_get s (key_str (entry_key e)) of
         None \<Rightarrow> render_all es s cs ups snap
       | Some st \<Rightarrow> render_all es s cs ups (om_put (key_str (entry_key e)) st snap))"
  proof (cases e)
    case (Available k l)
    obtain st where "om_get s (key_str k) = Some st"
      using Cons.prems(1) Available by (auto simp: current_for_def)
    moreover have "om_get cs (key_str k) = None \<or> om_get cs (key_str k) = Some SameValue"
      using Cons.prems(2) by blast
    ultimately show ?thesis using Available by auto
  qed (simp split: option.splits)
  show ?case
  proof (cases "om_get s (key_str (entry_key e))")
    case None
    then show ?thesis using IH[of snap] step by auto
  next
    case (Some st)
    let ?k = "key_str (entry_key e)"
    obtain snap' where r: "render_all es s cs ups (om_put ?k st snap) = Inr (ups, snap')"
        "om_ok (om_put ?k st snap) \<longrightarrow> om_ok snap'"
        "\<forall>k. om_get snap' k = (if k \<in> set (entry_keys es) \<and> om_get s k \<noteq> None then om_get s k
           else om_get (om_put ?k st snap) k)"
      using IH by blast
    have "om_get snap' k = (if k \<in> set (entry_keys (e # es)) \<and> om_get s k \<noteq> None
        then om_get s k else om_get snap k)" for k
      using r(3)[rule_format, of k] Some by (auto simp: om_get_put split: if_splits)
    moreover have "om_ok snap \<longrightarrow> om_ok snap'" using r(2) om_ok_put[of snap ?k st] by blast
    moreover have "render_all (e # es) s cs ups snap = Inr (ups, snap')"
      using step Some r(1) by simp
    ultimately show ?thesis by (intro exI[of _ snap'] conjI allI)
  qed
qed simp

lemma reconcile_current:
  assumes "current_for es s" "om_ok s" "set (om_keys s) \<subseteq> set (entry_keys es)"
  shows "reconcile_observation es s = Inr (RUnchanged s)"
proof -
  obtain cs where cs: "compare_all es s [] = Some cs"
      "\<forall>k. om_get cs k = None \<or> om_get cs k = Some SameValue"
    using compare_all_current[OF assms(1), of "[]"] by auto
  obtain snap where snap: "render_all es s cs [] [] = Inr ([], snap)" "om_ok snap"
      "\<forall>k. om_get snap k =
         (if k \<in> set (entry_keys es) \<and> om_get s k \<noteq> None then om_get s k else None)"
    using render_all_current[OF assms(1) cs(2), of "[]" "[]"] by auto
  have "om_get snap k = om_get s k" for k
    using snap(3) assms(3) om_get_dom[of s k] by auto
  then have "snap = s" using om_ext[OF snap(2) assms(2)] by blast
  moreover have "vanished es s = []"
    using assms(3) by (auto simp: vanished_def filter_empty_conv om_keys_def)
  ultimately show ?thesis using cs(1) snap(1) by (simp add: reconcile_observation_def)
qed

lemma compare_all_lookup:
  assumes "compare_all es prev cs = Some cs'" "distinct (entry_keys es)"
  shows "(\<forall>k. k \<notin> set (entry_keys es) \<longrightarrow> om_get cs' k = om_get cs k) \<and>
    (\<forall>k l st. Available k l \<in> set es \<longrightarrow> om_get prev (key_str k) = Some st \<longrightarrow>
       om_get cs' (key_str k) = Some (ld_compare l (ss_value st)))"
  using assms
proof (induction es arbitrary: cs)
  case (Cons e es)
  show ?case
  proof (cases e)
    case (UnavailableEntry k)
    then show ?thesis using Cons by auto
  next
    case (Available k l)
    show ?thesis
    proof (cases "om_get prev (key_str k)")
      case None
      then show ?thesis using Cons Available by auto
    next
      case (Some st)
      let ?cs = "om_put (key_str k) (ld_compare l (ss_value st)) cs"
      have "compare_all es prev ?cs = Some cs'" "distinct (entry_keys es)"
          "key_str k \<notin> set (entry_keys es)"
        using Cons.prems Available Some by (auto split: compared.splits)
      with Cons.IH[of ?cs] Available Some entry_key_mem show ?thesis
        by (fastforce simp: om_get_put)
    qed
  qed
qed simp

lemma compare_all_compatible:
  assumes "compare_all es prev cs = Some cs'" "Available k l \<in> set es"
    "om_get prev (key_str k) = Some st"
  shows "ld_compare l (ss_value st) \<noteq> Incompatible"
  using assms
proof (induction es arbitrary: cs)
  case (Cons e es)
  then show ?case by (cases e) (auto split: option.splits compared.splits)
qed simp

lemma compare_all_empty: "compare_all es [] cs = Some cs"
  by (induction es "[] :: snapshot" cs rule: compare_all.induct) simp_all

text \<open>What the third pass stores for an available source.\<close>

definition stored_for :: "loaded \<Rightarrow> source_snapshot option \<Rightarrow> compared option \<Rightarrow> source_snapshot \<Rightarrow> bool"
where
  "stored_for l before c st \<longleftrightarrow>
     (case before of
        None \<Rightarrow> (\<exists>r. ld_baseline l = Inr r \<and> st = ren_snapshot r)
      | Some old \<Rightarrow> (\<exists>r. c = Some (UpdatedValue (Inr r)) \<and> st = ren_snapshot r) \<or>
          (\<forall>u. c \<noteq> Some (UpdatedValue u)) \<and> st = old)"

lemma render_all_lookup:
  assumes "render_all es prev cs ups snap = Inr (ups', snap')" "distinct (entry_keys es)"
  shows "(\<forall>k. k \<notin> set (entry_keys es) \<longrightarrow> om_get snap' k = om_get snap k) \<and>
    (om_ok snap \<longrightarrow> om_ok snap') \<and>
    (\<forall>k l. Available k l \<in> set es \<longrightarrow>
       (\<exists>st. om_get snap' (key_str k) = Some st \<and>
         stored_for l (om_get prev (key_str k)) (om_get cs (key_str k)) st))"
  using assms
proof (induction es arbitrary: ups snap)
  case (Cons e es)
  let ?k = "key_str (entry_key e)"
  have d: "distinct (entry_keys es)" "?k \<notin> set (entry_keys es)" using Cons.prems by auto
  have "(\<exists>ups2. render_all es prev cs ups2 snap = Inr (ups', snap') \<and> (\<forall>l. e \<noteq> Available (entry_key e) l)) \<or>
     (\<exists>ups2 st. render_all es prev cs ups2 (om_put ?k st snap) = Inr (ups', snap') \<and>
        (\<forall>l. e = Available (entry_key e) l \<longrightarrow> stored_for l (om_get prev ?k) (om_get cs ?k) st))"
  proof (cases e)
    case (UnavailableEntry k)
    then show ?thesis using Cons.prems(1) by (auto split: option.splits)
  next
    case (Available k l)
    then show ?thesis
      using Cons.prems(1)
      by (auto simp: stored_for_def split: option.splits sum.splits compared.splits)
  qed
  then show ?case
  proof (elim disjE exE conjE)
    fix ups2
    assume r: "render_all es prev cs ups2 snap = Inr (ups', snap')" "\<forall>l. e \<noteq> Available (entry_key e) l"
    have n: "\<And>k l. e \<noteq> Available k l" using r(2) by (metis entry.sel(1))
    from Cons.IH[OF r(1) d(1)] n show ?case by (auto dest: sym)
  next
    fix ups2 st
    assume r: "render_all es prev cs ups2 (om_put ?k st snap) = Inr (ups', snap')"
      "\<forall>l. e = Available (entry_key e) l \<longrightarrow> stored_for l (om_get prev ?k) (om_get cs ?k) st"
    note IH = Cons.IH[OF r(1) d(1)]
    have here: "om_get snap' ?k = Some st" using IH d(2) by (simp add: om_get_put)
    have 1: "\<forall>k. k \<notin> set (entry_keys (e # es)) \<longrightarrow> om_get snap' k = om_get snap k"
      using IH by (simp add: om_get_put)
    have 2: "om_ok snap \<longrightarrow> om_ok snap'" using IH om_ok_put[of snap ?k st] by blast
    have 3: "\<exists>st. om_get snap' (key_str k) = Some st \<and>
         stored_for l (om_get prev (key_str k)) (om_get cs (key_str k)) st"
      if "Available k l \<in> set (e # es)" for k l
    proof (cases "e = Available k l")
      case True
      then show ?thesis using here r(2) by auto
    next
      case False
      then show ?thesis using that IH by auto
    qed
    show ?case using 1 2 3 by blast
  qed
qed simp

lemma om_subset_keys:
  assumes "\<forall>k. k \<notin> A \<longrightarrow> om_get s k = None"
  shows "set (om_keys s) \<subseteq> A"
proof
  fix x assume "x \<in> set (om_keys s)"
  then have "om_get s x \<noteq> None" by (rule om_get_dom[THEN iffD2])
  then show "x \<in> A" using assms[rule_format, of x] by (cases "x \<in> A") simp_all
qed

lemma updated_snapshot_current:
  assumes r: "compare_all es prev [] = Some cs" "render_all es prev cs [] [] = Inr (ups, s)"
    and d: "distinct (entry_keys es)" and all: "all_settling es"
  shows "current_for es s" "om_ok s" "set (om_keys s) \<subseteq> set (entry_keys es)"
proof -
  note L = render_all_lookup[OF r(2) d]
  show "om_ok s" using L by simp
  show "set (om_keys s) \<subseteq> set (entry_keys es)" using L by (intro om_subset_keys) simp
  show "current_for es s"
    unfolding current_for_def
  proof (intro allI impI)
    fix k l
    assume m: "Available k l \<in> set es"
    then have st: "settling l" using all by (simp add: all_settling_def)
    obtain x where x: "om_get s (key_str k) = Some x"
        "stored_for l (om_get prev (key_str k)) (om_get cs (key_str k)) x"
      using L m by blast
    have "ld_compare l (ss_value x) = SameValue"
    proof (cases "om_get prev (key_str k)")
      case None
      then show ?thesis using x(2) st by (auto simp: stored_for_def settling_def)
    next
      case (Some old)
      have c: "om_get cs (key_str k) = Some (ld_compare l (ss_value old))"
        using compare_all_lookup[OF r(1) d] m Some by blast
      have "ld_compare l (ss_value old) \<noteq> Incompatible"
        using compare_all_compatible[OF r(1)] m Some by blast
      then show ?thesis
        using x(2) st c Some
        by (cases "ld_compare l (ss_value old)") (auto simp: stored_for_def settling_def)
    qed
    with x(1) show "\<exists>st. om_get s (key_str k) = Some st \<and> ld_compare l (ss_value st) = SameValue"
      by blast
  qed
qed

text \<open>An update is stable: reconciling again with its own snapshot, nothing changes.\<close>

lemma reconcile_updated_settles:
  assumes "reconcile_observation es prev = Inr (RUpdated t s)"
    and "distinct (entry_keys es)" "all_settling es"
  shows "reconcile_observation es s = Inr (RUnchanged s)"
proof -
  obtain cs ups where "compare_all es prev [] = Some cs" "render_all es prev cs [] [] = Inr (ups, s)"
    using assms(1)
    by (auto simp: reconcile_observation_def Let_def split: option.splits if_splits sum.splits)
  from updated_snapshot_current[OF this assms(2,3)] show ?thesis by (rule reconcile_current)
qed

lemma initialize_as_render:
  assumes "unavailable_keys es = []"
  shows "initialize_from es ups snap = render_all es [] cs ups snap"
  using assms by (induction es ups snap rule: initialize_from.induct) (auto split: sum.splits)

lemma initialize_settles:
  assumes "initialize ctx = Inr (Initialized g)"
    and "distinct (entry_keys (observe ctx))" "all_settling (observe ctx)"
  shows "reconcile ctx (gen_snapshot g) = Inr (RUnchanged (gen_snapshot g))"
proof -
  let ?es = "observe ctx"
  have u: "unavailable_keys ?es = []"
    using assms(1) by (auto simp: initialize_def Let_def split: if_splits)
  have i: "initialize_observation ?es = Inr g"
    using assms(1) u by (auto simp: initialize_def Let_def split: sum.splits)
  obtain ups s where r: "render_all ?es [] [] [] [] = Inr (ups, s)" "gen_snapshot g = s"
    using i initialize_as_render[OF u, of "[]" "[]" "[]"]
    by (auto simp: initialize_observation_def split: sum.splits)
  have c: "compare_all ?es [] [] = Some []"
    by (rule compare_all_empty)
  from reconcile_current[OF updated_snapshot_current[OF c r(1) assms(2,3)]] r(2)
  show ?thesis by (simp add: reconcile_def)
qed

section \<open>The contract of a typed source\<close>

text \<open>
  What \<open>make\<close> relies on: decoding undoes encoding, and a value is equivalent to itself. Under it a
  loaded source settles. The template's defaults for a string satisfy it.
\<close>

locale context_source =
  fixes to_json :: "'a \<Rightarrow> json"
    and from_json :: "json \<Rightarrow> 'a option"
    and equivalent :: "'a \<Rightarrow> 'a \<Rightarrow> bool"
  assumes decode_encode: "from_json (to_json v) = Some v"
    and equivalent_refl: "equivalent v v"
begin

lemma loaded_settles:
  assumes "src_to_json src = to_json" "src_from_json src = from_json" "src_equivalent src = equivalent"
  shows "settling (make_loaded src v)"
proof -
  have "ld_compare (make_loaded src v) (to_json v) = SameValue"
    using assms decode_encode equivalent_refl by (simp add: make_loaded_def)
  moreover have "render_with src v kind t = Inr r \<Longrightarrow> ss_value (ren_snapshot r) = to_json v" for kind t r
    using assms(1) by (auto simp: render_with_def make_snapshot_def split: sum.splits)
  ultimately show ?thesis
    by (auto simp: settling_def make_loaded_def split: option.splits if_splits)
qed

lemma same_value_iff:
  assumes "src_to_json src = to_json" "src_from_json src = from_json" "src_equivalent src = equivalent"
  shows "ld_compare (make_loaded src v) (to_json u) = SameValue \<longleftrightarrow> equivalent u v"
  using assms decode_encode by (simp add: make_loaded_def)

end

definition text_from_json :: "json \<Rightarrow> string option" where
  "text_from_json v = (case v of JStr s \<Rightarrow> Some s | _ \<Rightarrow> None)"

interpretation text_source: context_source JStr text_from_json "(=)"
  by unfold_locales (simp_all add: text_from_json_def)

section \<open>The registry\<close>

text \<open>
  An entry is a key with its loader; a loader runs in the world it is called in. The handle
  \<open>register_context\<close> returns removes the entry of its key.
\<close>

type_synonym 'w ctx_registry = "(string \<times> ('w \<Rightarrow> packed_source list)) list"

definition register_context ::
    "string \<Rightarrow> ('w \<Rightarrow> packed_source list) \<Rightarrow> 'w ctx_registry \<Rightarrow> 'w ctx_registry outcome" where
  "register_context key loader reg =
     (case make_key key of
        Inl e \<Rightarrow> Inl e
      | Inr _ \<Rightarrow>
          if list_ex (\<lambda>e. fst e = key) reg
          then Inl (Thrown (''Duplicate system context entry key: '' @ key))
          else Inr (reg @ [(key, loader)]))"

definition release_context :: "string \<Rightarrow> 'w ctx_registry \<Rightarrow> 'w ctx_registry" where
  "release_context key reg = filter (\<lambda>e. fst e \<noteq> key) reg"

definition load_registry :: "'w ctx_registry \<Rightarrow> 'w \<Rightarrow> packed_source list outcome" where
  "load_registry reg w = combine (map (\<lambda>e. snd e w) (sort_key fst reg))"

lemma register_context_distinct:
  "register_context key loader reg = Inr reg' \<Longrightarrow> distinct (map fst reg) \<Longrightarrow> distinct (map fst reg')"
  by (auto simp: register_context_def list_ex_iff split: sum.splits if_splits)

lemma register_release:
  assumes "register_context key loader reg = Inr reg'"
  shows "release_context key reg' = reg"
proof -
  have "reg' = reg @ [(key, loader)]" "\<forall>e \<in> set reg. fst e \<noteq> key"
    using assms by (auto simp: register_context_def list_ex_iff split: sum.splits if_splits)
  then show ?thesis by (simp add: release_context_def filter_id_conv)
qed

lemma sort_key_mset_eq:
  assumes "mset xs = mset ys" "distinct (map fst xs)"
  shows "sort_key fst xs = sort_key fst ys"
proof -
  have m: "set xs = set ys" using assms(1) by (rule mset_eq_setD)
  have "mset (map fst xs) = mset (map fst ys)" using assms(1) by simp
  then have d: "distinct (map fst ys)" using assms(2) mset_eq_imp_distinct_iff by blast
  have ds: "distinct (map fst (sort_key fst zs))" if "distinct (map fst zs)" for zs :: "('a \<times> 'b) list"
    using that by (simp add: distinct_map)
  show ?thesis
  proof (rule map_sorted_distinct_set_unique[of fst])
    show "inj_on fst (set (sort_key fst xs) \<union> set (sort_key fst ys))"
      using assms(2) m by (simp add: distinct_map)
  qed (use m ds[OF assms(2)] ds[OF d] in simp_all)
qed

lemma load_registry_order:
  "mset reg = mset reg' \<Longrightarrow> distinct (map fst reg) \<Longrightarrow> load_registry reg w = load_registry reg' w"
  unfolding load_registry_def by (simp only: sort_key_mset_eq)

section \<open>The built-in sources\<close>

text \<open>
  A directory is the list of its components from the root. The world holds what the sources ask of
  the file system and the clock: \<open>None\<close> for a \<open>.git\<close> probe that throws, the text of the regular
  file \<open>AGENTS.md\<close> of a directory (empty when it cannot be opened).
\<close>

type_synonym dir_path = "string list"

record sys_world =
  sw_cwd :: dir_path
  sw_git :: "dir_path \<Rightarrow> bool option"
  sw_agents :: "dir_path \<Rightarrow> string option"
  sw_date :: string
  sw_platform :: string
  sw_skills :: "(string \<times> string) list"

definition dir_str :: "dir_path \<Rightarrow> string" where
  "dir_str p = CHR ''/'' # join_with ''/'' p"

text \<open>\<open>Inl\<close> is the probe that threw; \<open>Inr None\<close> the empty path.\<close>

fun find_vcs_root :: "(dir_path \<Rightarrow> bool option) \<Rightarrow> dir_path \<Rightarrow> unit + dir_path option" where
  "find_vcs_root git p =
     (case git p of
        None \<Rightarrow> Inl ()
      | Some True \<Rightarrow> Inr (Some p)
      | Some False \<Rightarrow> if p = [] then Inr None else find_vcs_root git (butlast p))"

declare find_vcs_root.simps [simp del]

definition build_environment_block :: "sys_world \<Rightarrow> string" where
  "build_environment_block w =
     (let found = (case find_vcs_root (sw_git w) (sw_cwd w) of Inr (Some r) \<Rightarrow> Some r | _ \<Rightarrow> None);
          root = (case found of Some r \<Rightarrow> r | None \<Rightarrow> sw_cwd w)
      in ''<env>'' @ NL @
         ''  Working directory: '' @ dir_str (sw_cwd w) @ NL @
         ''  Workspace root folder: '' @ dir_str root @ NL @
         ''  Is directory a git repo: '' @ (if found \<noteq> None then ''yes'' else ''no'') @ NL @
         ''  Platform: '' @ sw_platform w @ NL @
         ''</env>'')"

fun agents_files :: "(dir_path \<Rightarrow> string option) \<Rightarrow> dir_path \<Rightarrow> string list" where
  "agents_files file p =
     (let here = (case file p of Some (c # cs) \<Rightarrow> [c # cs] | _ \<Rightarrow> [])
      in if p = [] then here else here @ agents_files file (butlast p))"

declare agents_files.simps [simp del]

definition collect_agents_md :: "sys_world \<Rightarrow> string" where
  "collect_agents_md w = join_with [nl, nl] (agents_files (sw_agents w) (sw_cwd w))"

definition build_skills_block :: "sys_world \<Rightarrow> string" where
  "build_skills_block w =
     (if sw_skills w = [] then []
      else ''<available_skills>'' @ NL @
        concat (map (\<lambda>(name, location).
          ''  <skill>'' @ NL @
          ''    <name>'' @ name @ ''</name>'' @ NL @
          ''    <location>'' @ location @ ''</location>'' @ NL @
          ''  </skill>'' @ NL) (sw_skills w)) @
        ''</available_skills>'')"

text \<open>\<open>Source<std::string>\<close> with the template's defaults and no removal text.\<close>

definition string_source ::
    "string \<Rightarrow> string option \<Rightarrow> (string \<Rightarrow> string) \<Rightarrow> (string \<Rightarrow> string \<Rightarrow> string) \<Rightarrow> string source"
where
  "string_source key value base upd =
     \<lparr>src_key = Key key, src_load = value, src_baseline = base, src_update = upd,
      src_removed = None, src_to_json = JStr, src_from_json = text_from_json,
      src_equivalent = (=)\<rparr>"

definition environment_context :: "sys_world \<Rightarrow> packed_source list" where
  "environment_context w =
     [make_source (string_source ''core/environment'' (Some (build_environment_block w))
        (\<lambda>env. ''Here is some useful information about the environment you are running in:''
               @ NL @ env)
        (\<lambda>_ env. ''The environment you are running in is now:'' @ NL @ env))]"

definition date_context :: "sys_world \<Rightarrow> packed_source list" where
  "date_context w =
     [make_source (string_source ''core/date'' (Some (sw_date w))
        (\<lambda>date. ''Today'' @ [squote] @ ''s date: '' @ date)
        (\<lambda>_ date. ''Today'' @ [squote] @ ''s date is now: '' @ date))]"

definition agents_context :: "sys_world \<Rightarrow> packed_source list" where
  "agents_context w =
     [make_source (string_source ''core/agents-md''
        (if collect_agents_md w = [] then None else Some (collect_agents_md w))
        (\<lambda>content. content) (\<lambda>_ content. content))]"

definition skills_context :: "sys_world \<Rightarrow> packed_source list" where
  "skills_context w =
     [make_source (string_source ''skills/available'' (Some (build_skills_block w))
        (\<lambda>block. block) (\<lambda>_ block. block))]"

text \<open>The two optional sources are registered by what the start-up world shows.\<close>

definition register_system_context_builtins ::
    "sys_world \<Rightarrow> sys_world ctx_registry \<Rightarrow> sys_world ctx_registry outcome" where
  "register_system_context_builtins w0 reg =
     bind_outcome (register_context ''core/environment'' environment_context reg) (\<lambda>reg.
     bind_outcome (register_context ''core/date'' date_context reg) (\<lambda>reg.
     bind_outcome (if collect_agents_md w0 = [] then Inr reg
                   else register_context ''core/agents-md'' agents_context reg) (\<lambda>reg.
     if build_skills_block w0 = [] then Inr reg
     else register_context ''skills/available'' skills_context reg)))"

definition builtin_registry :: "sys_world \<Rightarrow> sys_world ctx_registry" where
  "builtin_registry w0 =
     [(''core/environment'', environment_context), (''core/date'', date_context)] @
     (if collect_agents_md w0 = [] then [] else [(''core/agents-md'', agents_context)]) @
     (if build_skills_block w0 = [] then [] else [(''skills/available'', skills_context)])"

lemma builtins_registered: "register_system_context_builtins w0 [] = Inr (builtin_registry w0)"
proof -
  have v: "make_key ''core/environment'' = Inr (Key ''core/environment'')"
    "make_key ''core/date'' = Inr (Key ''core/date'')"
    "make_key ''core/agents-md'' = Inr (Key ''core/agents-md'')"
    "make_key ''skills/available'' = Inr (Key ''skills/available'')"
    by code_simp+
  show ?thesis
    by (simp add: register_system_context_builtins_def register_context_def v bind_outcome_def
        builtin_registry_def)
qed

lemma load_builtins:
  "load_registry (builtin_registry w0) w = Inr
     ((if collect_agents_md w0 = [] then [] else agents_context w) @ date_context w @
      environment_context w @ (if build_skills_block w0 = [] then [] else skills_context w))"
proof -
  let ?a = "''core/agents-md''" and ?d = "''core/date''" and ?e = "''core/environment''"
    and ?s = "''skills/available''"
  have o: "?d \<le> ?e" "?a \<le> ?e" "?a \<le> ?d" "?e \<le> ?s" "?d \<le> ?s" "?a \<le> ?s"
    "\<not> ?e \<le> ?d" "\<not> ?e \<le> ?a" "\<not> ?d \<le> ?a" "\<not> ?s \<le> ?e" "\<not> ?s \<le> ?d" "\<not> ?s \<le> ?a"
    by code_simp+
  show ?thesis
    by (simp add: load_registry_def builtin_registry_def combine_def o agents_context_def
        date_context_def environment_context_def skills_context_def make_source_def
        string_source_def Let_def)
qed

lemma string_source_settles: "settling (make_loaded (string_source k x b u) v)"
  by (rule text_source.loaded_settles) (simp_all add: string_source_def)

definition plain_source :: "packed_source \<Rightarrow> bool" where
  "plain_source p \<longleftrightarrow> (\<forall>l. pk_load p = Some l \<longrightarrow> settling l)"

lemma plain_string_source: "plain_source (make_source (string_source k x b u))"
  using string_source_settles by (auto simp: plain_source_def make_source_def)

lemma plain_sources_settle:
  assumes "list_all plain_source ctx"
  shows "all_settling (observe ctx)"
  using assms
  by (induction ctx)
     (auto simp: all_settling_def observe_def observe_one_def plain_source_def split: option.splits)

lemma builtins_plain:
  "list_all plain_source (environment_context w)" "list_all plain_source (date_context w)"
  "list_all plain_source (agents_context w)" "list_all plain_source (skills_context w)"
  by (simp_all only: environment_context_def date_context_def agents_context_def skills_context_def
      plain_string_source simp_thms list.pred_inject)

lemma load_registry_distinct:
  assumes "load_registry reg w = Inr ctx"
  shows "distinct (entry_keys (observe ctx))"
proof -
  have k: "entry_keys (observe ctx) = map (key_str \<circ> pk_key) ctx"
    by (auto simp: entry_keys_def observe_def observe_one_def split: option.splits)
  from assms obtain ps where "combine_from [] ps = Inr ctx"
    by (auto simp: load_registry_def combine_def)
  from combine_from_Inr[OF this] show ?thesis unfolding k by simp
qed

lemma builtins_settling:
  assumes "load_registry (builtin_registry w0) w = Inr ctx"
  shows "all_settling (observe ctx)"
proof (rule plain_sources_settle)
  show "list_all plain_source ctx"
    using assms builtins_plain by (simp only: load_builtins sum.inject) (auto split: if_splits)
qed

section \<open>Rendering fails only by an exception\<close>

definition throws_only :: "packed_source \<Rightarrow> bool" where
  "throws_only p \<longleftrightarrow>
     (\<forall>l. pk_load p = Some l \<longrightarrow>
        ld_baseline l \<noteq> Inl Undefined \<and> (\<forall>v. ld_compare l v \<noteq> UpdatedValue (Inl Undefined)))"

lemma throws_only_make: "throws_only (make_source src)"
proof -
  have "render_with src v k t \<noteq> Inl Undefined" for v k t
    by (simp add: render_with_def require_text_def)
  then show ?thesis
    by (auto simp: throws_only_def make_source_def make_loaded_def split: option.splits if_splits)
qed

lemma throws_only_entry:
  assumes "list_all throws_only ctx" "Available k l \<in> set (observe ctx)"
  shows "ld_baseline l \<noteq> Inl Undefined" "ld_compare l v \<noteq> UpdatedValue (Inl Undefined)"
proof -
  obtain p where "p \<in> set ctx" "pk_load p = Some l"
    using assms(2) by (auto simp: observe_def observe_one_def split: option.splits)
  moreover have "throws_only p" using assms(1) calculation(1) by (auto simp: list_all_iff)
  ultimately show "ld_baseline l \<noteq> Inl Undefined" "ld_compare l v \<noteq> UpdatedValue (Inl Undefined)"
    by (auto simp: throws_only_def)
qed

lemma initialize_from_defined:
  "(\<And>k l. Available k l \<in> set es \<Longrightarrow> ld_baseline l \<noteq> Inl Undefined) \<Longrightarrow>
     initialize_from es parts snap \<noteq> Inl Undefined"
proof (induction es parts snap rule: initialize_from.induct)
  case (3 k l es parts snap)
  show ?case
  proof (cases "ld_baseline l")
    case (Inl e)
    then show ?thesis using 3(2)[of k l] by auto
  next
    case (Inr r)
    then show ?thesis using 3(1)[OF Inr] 3(2) by auto
  qed
qed auto

lemma initialize_observation_defined:
  "list_all throws_only ctx \<Longrightarrow> initialize_observation (observe ctx) \<noteq> Inl Undefined"
  using initialize_from_defined[of "observe ctx" "[]" "[]"] throws_only_entry(1)
  by (auto simp: initialize_observation_def split: sum.splits)

lemma compare_all_defined:
  assumes "compare_all es prev cs = Some cs'"
    and "\<And>k l v. Available k l \<in> set es \<Longrightarrow> ld_compare l v \<noteq> UpdatedValue (Inl Undefined)"
    and "\<And>k. om_get cs k \<noteq> Some (UpdatedValue (Inl Undefined))"
  shows "om_get cs' k \<noteq> Some (UpdatedValue (Inl Undefined))"
  using assms
proof (induction es arbitrary: cs)
  case (Cons e es)
  show ?case
  proof (cases e)
    case (Available key l)
    show ?thesis
    proof (cases "om_get prev (key_str key)")
      case None
      then show ?thesis using Cons.IH[of cs] Cons.prems Available by auto
    next
      case (Some st)
      let ?cs = "om_put (key_str key) (ld_compare l (ss_value st)) cs"
      have "compare_all es prev ?cs = Some cs'"
        using Cons.prems(1) Available Some by (auto split: compared.splits)
      moreover have "om_get ?cs j \<noteq> Some (UpdatedValue (Inl Undefined))" for j
        using Cons.prems(2)[of key l] Cons.prems(3) Available by (auto simp: om_get_put)
      ultimately show ?thesis using Cons.IH[of ?cs] Cons.prems(2) by auto
    qed
  next
    case (UnavailableEntry key)
    then show ?thesis using Cons.IH[of cs] Cons.prems by auto
  qed
qed simp

lemma render_all_defined:
  "(\<And>k l. Available k l \<in> set es \<Longrightarrow> ld_baseline l \<noteq> Inl Undefined) \<Longrightarrow>
   (\<And>k. om_get cs k \<noteq> Some (UpdatedValue (Inl Undefined))) \<Longrightarrow>
     render_all es prev cs ups snap \<noteq> Inl Undefined"
proof (induction es arbitrary: ups snap)
  case (Cons e es)
  have IH: "\<And>ups snap. render_all es prev cs ups snap \<noteq> Inl Undefined"
    using Cons.IH Cons.prems by auto
  show ?case
  proof (cases e)
    case (Available k l)
    have "ld_baseline l \<noteq> Inl Undefined" using Cons.prems(1)[of k l] Available by simp
    then show ?thesis
      using IH Available Cons.prems(2)[of "key_str k"]
      by (auto split: option.splits sum.splits compared.splits)
  qed (use IH in \<open>auto split: option.splits\<close>)
qed simp

lemma initialize_defined: "list_all throws_only ctx \<Longrightarrow> initialize ctx \<noteq> Inl Undefined"
  using initialize_observation_defined by (auto simp: initialize_def Let_def split: sum.splits)

lemma reconcile_defined:
  assumes "list_all throws_only ctx"
  shows "reconcile ctx prev \<noteq> Inl Undefined"
proof -
  let ?es = "observe ctx"
  note T = throws_only_entry[OF assms]
  have "reconcile_observation ?es prev \<noteq> Inl Undefined"
  proof (cases "compare_all ?es prev []")
    case (Some cs)
    have "render_all ?es prev cs [] [] \<noteq> Inl Undefined"
      by (rule render_all_defined) (use T compare_all_defined[OF Some] in auto)
    then show ?thesis
      using Some by (auto simp: reconcile_observation_def Let_def split: sum.splits)
  qed (simp add: reconcile_observation_def)
  moreover have "replace_observation ?es prev \<noteq> Inl Undefined"
    using initialize_observation_defined[OF assms]
    by (auto simp: replace_observation_def split: sum.splits)
  ultimately show ?thesis
    by (auto simp: reconcile_def Let_def split: sum.splits reconcile_result.splits option.splits)
qed

lemma builtins_throws_only:
  assumes "load_registry (builtin_registry w0) w = Inr ctx"
  shows "list_all throws_only ctx"
  using assms throws_only_make
  by (auto simp: load_builtins agents_context_def date_context_def environment_context_def
      skills_context_def)

section \<open>Properties\<close>

text \<open>once the built-in sources have been initialized, reconciling the same world with the
  snapshot of that initialization reports no change.\<close>

theorem builtins_initialize_settles:
  assumes "load_registry (builtin_registry w0) w = Inr ctx"
    and "initialize ctx = Inr (Initialized g)"
  shows "reconcile ctx (gen_snapshot g) = Inr (RUnchanged (gen_snapshot g))"
  using initialize_settles[OF assms(2) load_registry_distinct[OF assms(1)]
      builtins_settling[OF assms(1)]] .

definition sample_world :: sys_world where
  "sample_world =
     \<lparr>sw_cwd = [''home'', ''p''], sw_git = (\<lambda>d. Some (d = [''home''])),
      sw_agents = (\<lambda>d. if d = [''home''] then Some ''be brief'' else None),
      sw_date = ''Mon'', sw_platform = ''linux'', sw_skills = []\<rparr>"

definition sample_context :: "packed_source list" where
  "sample_context =
     agents_context sample_world @ date_context sample_world @ environment_context sample_world"

definition sample_generation :: generation where
  "sample_generation =
     (case initialize sample_context of Inr (Initialized g) \<Rightarrow> g | _ \<Rightarrow> \<lparr>gen_baseline = [], gen_snapshot = []\<rparr>)"

theorem builtins_initialize_settles_witness:
  "reconcile sample_context (gen_snapshot sample_generation)
     = Inr (RUnchanged (gen_snapshot sample_generation)) \<and>
   map fst (gen_snapshot sample_generation) = [''core/agents-md'', ''core/date'', ''core/environment'']"
proof
  have a: "collect_agents_md sample_world = ''be brief''" "build_skills_block sample_world = []"
      "sw_date sample_world = ''Mon''"
    by code_simp+
  have l: "load_registry (builtin_registry sample_world) sample_world = Inr sample_context"
    by (simp add: load_builtins a sample_context_def)
  have "\<exists>g. initialize sample_context = Inr (Initialized g)"
    by (simp add: sample_context_def initialize_def observe_def observe_one_def agents_context_def
        date_context_def environment_context_def make_source_def string_source_def a Let_def
        initialize_observation_def make_loaded_def render_with_def require_text_def)
  then have "initialize sample_context = Inr (Initialized sample_generation)"
    by (auto simp: sample_generation_def)
  from builtins_initialize_settles[OF l this]
  show "reconcile sample_context (gen_snapshot sample_generation)
     = Inr (RUnchanged (gen_snapshot sample_generation))" .
  show "map fst (gen_snapshot sample_generation) = [''core/agents-md'', ''core/date'', ''core/environment'']"
    by code_simp
qed

text \<open>an update is announced once: reconciling the sources again with the snapshot an update
  returned reports no change.\<close>

theorem update_announced_once:
  assumes "load_registry (builtin_registry w0) w = Inr ctx"
    and "reconcile ctx prev = Inr (RUpdated t s)"
  shows "reconcile ctx s = Inr (RUnchanged s)"
proof -
  have "reconcile_observation (observe ctx) prev = Inr (RUpdated t s)"
    using assms(2)
    by (auto simp: reconcile_def Let_def split: sum.splits reconcile_result.splits option.splits)
  from reconcile_updated_settles[OF this load_registry_distinct[OF assms(1)]
      builtins_settling[OF assms(1)]]
  show ?thesis by (simp add: reconcile_def)
qed

theorem update_announced_once_witness:
  "\<exists>t s. reconcile sample_context [] = Inr (RUpdated t s) \<and> s \<noteq> [] \<and>
     reconcile sample_context s = Inr (RUnchanged s)"
proof -
  have a: "collect_agents_md sample_world = ''be brief''" "build_skills_block sample_world = []"
      "sw_date sample_world = ''Mon''"
    by code_simp+
  have l: "load_registry (builtin_registry sample_world) sample_world = Inr sample_context"
    by (simp add: load_builtins a sample_context_def)
  have "case reconcile sample_context [] of Inr (RUpdated t s) \<Rightarrow> s \<noteq> [] | _ \<Rightarrow> False"
    by code_simp
  then obtain t s where "reconcile sample_context [] = Inr (RUpdated t s)" "s \<noteq> []"
    by (auto split: sum.splits reconcile_result.splits)
  with update_announced_once[OF l] show ?thesis by blast
qed

text \<open>what the registry loads does not depend on the order in which the sources were registered.\<close>

theorem registration_order_irrelevant:
  assumes "mset reg = mset reg'" and "distinct (map fst reg)"
  shows "load_registry reg w = load_registry reg' w"
  by (rule load_registry_order[OF assms])

theorem registration_order_irrelevant_witness:
  "load_registry [(''core/date'', date_context), (''core/environment'', environment_context)] sample_world =
   load_registry [(''core/environment'', environment_context), (''core/date'', date_context)] sample_world"
  by (rule registration_order_irrelevant) (simp_all add: add_mset_commute)

end
