(* ===== verification/Agent_State.thy ===== *)
theory Agent_State
  imports Messages Sys_Context
begin

text \<open>
  \<open>src/agent.h\<close> and the parts of \<open>src/agent.cpp\<close> around the turn loop: the agent's state, the display
  helpers and \<open>StdoutSink\<close>, the system prompt, the swarm inbox, the rewriting of tool paths and
  \<open>TurnBridge\<close>, which assembles an assistant step from stream events.
\<close>

section \<open>Display helpers\<close>

definition is_ws4 :: "char \<Rightarrow> bool" where
  "is_ws4 c \<longleftrightarrow> c = nl \<or> c = cr \<or> c = tab \<or> c = CHR '' ''"

fun collapse_from :: "bool \<Rightarrow> string \<Rightarrow> string" where
  "collapse_from prev [] = []"
| "collapse_from prev (c # cs) =
     (if is_ws4 c then (if prev then [] else '' '') @ collapse_from True cs
      else c # collapse_from False cs)"

definition collapse_ws :: "string \<Rightarrow> string" where
  "collapse_ws s =
     (let out = collapse_from False s
      in if out \<noteq> [] \<and> last out = CHR '' '' then butlast out else out)"

definition clamp_front :: "string \<Rightarrow> nat \<Rightarrow> string" where
  "clamp_front s m = (if length s \<le> m then s else take m s @ ellipsis)"

definition clamp_tail :: "string \<Rightarrow> nat \<Rightarrow> string" where
  "clamp_tail s m = (if length s \<le> m then s else ellipsis @ drop (length s - m) s)"

fun first_argument :: "string list \<Rightarrow> json \<Rightarrow> string" where
  "first_argument [] args = []"
| "first_argument (k # ks) args =
     (case jfind args k of
        Some (JStr (c # cs)) \<Rightarrow> clamp_front (collapse_ws (c # cs)) 64
      | _ \<Rightarrow> first_argument ks args)"

definition tool_argument :: "json \<Rightarrow> string" where
  "tool_argument args = first_argument [''file_path'', ''command'', ''pattern'', ''path''] args"

definition make_tool_preview :: "string \<Rightarrow> string \<Rightarrow> bool \<Rightarrow> string" where
  "make_tool_preview name result is_error =
     (if is_error then clamp_front (collapse_ws result) 220
      else if name = ''read'' then
        (let lines = count_list result nl +
               (if result \<noteq> [] \<and> last result \<noteq> nl then 1 else 0)
         in nat_str lines @ '' lines'')
      else if name = ''grep'' then
        (let matches = count_list result nl
         in if matches = 0 then ''no matches''
            else nat_str matches @ (if matches = 1 then '' match'' else '' matches''))
      else if name = ''bash'' then
        (let out = collapse_ws result in if out = [] then ''ok'' else clamp_tail out 160)
      else clamp_front (collapse_ws result) 160)"

lemma collapse_from_no_nl: "nl \<notin> set (collapse_from prev s)"
  by (induction s arbitrary: prev) (auto simp: is_ws4_def)

lemma collapse_ws_no_nl: "nl \<notin> set (collapse_ws s)"
  using collapse_from_no_nl[of False s] in_set_butlastD[of nl "collapse_from False s"]
  by (auto simp: collapse_ws_def Let_def)

lemma nat_str_no_nl: "nl \<notin> set (nat_str n)"
proof (induction n rule: nat_str.induct)
  case (1 n)
  have d: "char_of (48 + k) \<noteq> nl" if "k < 10" for k :: nat
  proof
    assume "char_of (48 + k) = nl"
    then have "byte (char_of (48 + k)) = byte nl" by (rule arg_cong)
    with that show False by simp
  qed
  show ?case using 1 d[of n] d[of "n mod 10"] by (subst nat_str.simps) auto
qed

lemma ellipsis_no_nl: "nl \<notin> set ellipsis"
  by (simp add: ellipsis_def)

lemma preview_one_line: "nl \<notin> set (make_tool_preview name result e)"
  using collapse_ws_no_nl[of result] nat_str_no_nl ellipsis_no_nl
  by (auto simp: make_tool_preview_def clamp_front_def clamp_tail_def Let_def
      dest: in_set_takeD in_set_dropD)

section \<open>The terminal sink\<close>

text \<open>What \<open>StdoutSink\<close> wrote to the two streams, and whether the row is still open.\<close>

record stdout_sink =
  so_out :: string
  so_err :: string
  so_line_open :: bool

abbreviation esc :: "string \<Rightarrow> string" where
  "esc code \<equiv> CHR 0x1B # CHR ''['' # code @ ''m''"

definition middle_dot :: string where "middle_dot = [CHR 0xC2, CHR 0xB7]"
definition small_triangle :: string where "small_triangle = [CHR 0xE2, CHR 0x96, CHR 0xB8]"

fun stdout_call :: "sink_call \<Rightarrow> stdout_sink \<Rightarrow> stdout_sink" where
  "stdout_call (SinkHeader prov model) s =
     s\<lparr>so_out := so_out s @ NL @ ''  '' @ esc ''2'' @ ''['' @ prov @ '' '' @ middle_dot @ '' '' @ model @
                 '']'' @ esc ''0'' @ NL, so_line_open := False\<rparr>"
| "stdout_call (SinkTextDelta t) s =
     s\<lparr>so_out := so_out s @ t, so_line_open := (t \<noteq> [] \<and> last t \<noteq> nl)\<rparr>"
| "stdout_call (SinkToolStart n) s = s"
| "stdout_call (SinkToolCall name args) s =
     (let arg = tool_argument args
      in s\<lparr>so_out := so_out s @ (if so_line_open s then NL else []) @
             ''  '' @ esc ''33'' @ small_triangle @ '' '' @ esc ''1'' @ name @ esc ''0'' @
             (if arg \<noteq> [] then '' '' @ esc ''2'' @ ''['' @ arg @ '']'' @ esc ''0'' else []),
           so_line_open := True\<rparr>)"
| "stdout_call (SinkToolResult preview is_error) s =
     s\<lparr>so_out := so_out s @ '' '' @ esc ''2'' @ middle_dot @ esc ''0'' @ '' '' @
                 (if is_error then esc ''31'' else esc ''90'') @ preview @ esc ''0'' @ NL,
       so_line_open := False\<rparr>"
| "stdout_call (SinkSummary model p c) s =
     s\<lparr>so_out := so_out s @ ''  '' @ esc ''2'' @ replicate 52 (CHR ''-'') @ esc ''0'' @ NL @
                 ''  '' @ esc ''2'' @ ''model: '' @ esc ''0'' @ model @
                 ''  '' @ esc ''2'' @ ''| tokens in: '' @ esc ''0'' @ int_str p @
                 ''  '' @ esc ''2'' @ ''| out: '' @ esc ''0'' @ int_str c @ NL,
       so_line_open := False\<rparr>"
| "stdout_call (SinkWarning t) s =
     s\<lparr>so_err := so_err s @ ''  '' @ esc ''31'' @ t @ esc ''0'' @ NL, so_line_open := False\<rparr>"

section \<open>The agent\<close>

record agent =
  ag_provider :: "provider option"
  ag_messages :: "message list"
  ag_system_prompt :: string
  ag_registry :: registry
  ag_ctx_registry :: "sys_world ctx_registry"
  ag_ctx_snapshot :: snapshot
  ag_ctx_text :: string
  ag_ctx_initialized :: bool
  ag_tool_cwd_base :: string
  ag_swarm :: bool
  ag_inbox :: "string list"
  ag_cancel :: bool

definition default_system_prompt :: string where
  "default_system_prompt =
     ''You are an advanced AI coding assistant.'' @ NL @ ''- Write production-quality code'' @ NL @
     ''- Consider edge cases'' @ NL @ ''- Optimize for readability'' @ NL @
     ''- Document your approach''"

text \<open>The constructor, in the world it runs in; \<open>tool_def\<close> is the definition of each built-in tool.\<close>

definition new_agent ::
    "(string \<Rightarrow> tool_definition) \<Rightarrow> sys_world \<Rightarrow> provider option \<Rightarrow> agent outcome" where
  "new_agent tool_def w prov =
     bind_outcome (register_system_context_builtins w []) (\<lambda>reg. Inr
       \<lparr>ag_provider = prov, ag_messages = [], ag_system_prompt = default_system_prompt,
        ag_registry = register_builtin_tools tool_def [], ag_ctx_registry = reg,
        ag_ctx_snapshot = [], ag_ctx_text = [], ag_ctx_initialized = False,
        ag_tool_cwd_base = [], ag_swarm = False, ag_inbox = [], ag_cancel = False\<rparr>)"

definition set_system_prompt :: "string \<Rightarrow> agent \<Rightarrow> agent" where
  "set_system_prompt p a = a\<lparr>ag_system_prompt := p\<rparr>"

definition add_message :: "message \<Rightarrow> agent \<Rightarrow> agent" where
  "add_message m a = a\<lparr>ag_messages := ag_messages a @ [m]\<rparr>"

definition clear_messages :: "agent \<Rightarrow> agent" where
  "clear_messages a = a\<lparr>ag_messages := []\<rparr>"

definition agent_provider_name :: "agent \<Rightarrow> string" where
  "agent_provider_name a = (case ag_provider a of Some p \<Rightarrow> p_name p | None \<Rightarrow> [])"

definition agent_model :: "agent \<Rightarrow> string" where
  "agent_model a = (case ag_provider a of Some p \<Rightarrow> p_model p | None \<Rightarrow> [])"

definition set_model :: "string \<Rightarrow> agent \<Rightarrow> agent" where
  "set_model m a = a\<lparr>ag_provider := map_option (\<lambda>p. p\<lparr>p_model := m\<rparr>) (ag_provider a)\<rparr>"

definition agent_usage :: "agent \<Rightarrow> int \<times> int" where
  "agent_usage a =
     (case ag_provider a of Some p \<Rightarrow> (p_prompt_tokens p, p_completion_tokens p) | None \<Rightarrow> (0, 0))"

definition agent_context_window :: "(string \<Rightarrow> int) \<Rightarrow> agent \<Rightarrow> int \<times> agent" where
  "agent_context_window query a =
     (case ag_provider a of
        None \<Rightarrow> (-1, a)
      | Some p \<Rightarrow> (let (n, p') = context_window query (p_model p) p
                 in (n, a\<lparr>ag_provider := Some p'\<rparr>)))"

definition set_provider :: "provider option \<Rightarrow> agent \<Rightarrow> agent" where
  "set_provider prov a =
     (let model = agent_model a
      in a\<lparr>ag_provider := map_option (\<lambda>p. if model \<noteq> [] then p\<lparr>p_model := model\<rparr> else p) prov\<rparr>)"

definition set_tool_cwd_base :: "string \<Rightarrow> agent \<Rightarrow> agent" where
  "set_tool_cwd_base b a = a\<lparr>ag_tool_cwd_base := b\<rparr>"

definition cancel_turn :: "agent \<Rightarrow> agent" where
  "cancel_turn a = a\<lparr>ag_cancel := True, ag_provider := map_option request_cancel (ag_provider a)\<rparr>"

section \<open>The system prompt\<close>

definition with_context :: "string \<Rightarrow> string \<Rightarrow> string" where
  "with_context system t = (if t = [] then system else system @ [nl, nl] @ t)"

definition build_system_prompt ::
    "sys_world \<Rightarrow> agent \<Rightarrow> string outcome \<times> agent \<times> sink_call list" where
  "build_system_prompt w a =
     (let system = ag_system_prompt a
      in case load_registry (ag_ctx_registry a) w of
        Inl e \<Rightarrow> (Inl e, a, [])
      | Inr ctx \<Rightarrow>
          if \<not> ag_ctx_initialized a then
            (case initialize ctx of
               Inl e \<Rightarrow> (Inl e, a, [])
             | Inr (Initialized g) \<Rightarrow>
                 (Inr (with_context system (gen_baseline g)),
                  a\<lparr>ag_ctx_text := gen_baseline g, ag_ctx_snapshot := gen_snapshot g,
                    ag_ctx_initialized := True\<rparr>, [])
             | Inr (InitializationBlocked keys) \<Rightarrow>
                 (Inr system, a, [SinkWarning (blocked_message keys)]))
          else
            (case reconcile ctx (ag_ctx_snapshot a) of
               Inl e \<Rightarrow> (Inl e, a, [])
             | Inr (RUnchanged s) \<Rightarrow> (Inr (with_context system (ag_ctx_text a)), a, [])
             | Inr (RUpdated t s) \<Rightarrow>
                 (Inr (with_context system t), a\<lparr>ag_ctx_text := t, ag_ctx_snapshot := s\<rparr>, [])
             | Inr (RReplacementReady g) \<Rightarrow>
                 (Inr (with_context system (gen_baseline g)),
                  a\<lparr>ag_ctx_text := gen_baseline g, ag_ctx_snapshot := gen_snapshot g\<rparr>, [])
             | Inr RReplacementBlocked \<Rightarrow> (Inr (with_context system (ag_ctx_text a)), a, [])
             | Inr RReplace \<Rightarrow> (Inr system, a, [])))"

lemma build_system_prompt_frame:
  assumes "build_system_prompt w a = (r, a', ws)"
  shows "ag_messages a' = ag_messages a \<and> ag_cancel a' = ag_cancel a \<and>
    ag_provider a' = ag_provider a \<and> ag_registry a' = ag_registry a \<and> ag_swarm a' = ag_swarm a"
  using assms
  by (auto simp: build_system_prompt_def Let_def
      split: sum.splits if_splits init_result.splits reconcile_result.splits)

lemma build_system_prompt_defined:
  assumes "ag_ctx_registry a = builtin_registry w0"
  shows "fst (build_system_prompt w a) \<noteq> Inl Undefined"
proof -
  obtain ctx where ctx: "load_registry (builtin_registry w0) w = Inr ctx"
    by (simp add: load_builtins)
  note T = builtins_throws_only[OF ctx]
  show ?thesis
    using ctx assms initialize_defined[OF T] reconcile_defined[OF T]
    by (auto simp: build_system_prompt_def Let_def
        split: sum.splits init_result.splits reconcile_result.splits)
qed

section \<open>Swarm traffic\<close>

text \<open>\<open>attach_swarm\<close>: an absent or disconnected peer changes nothing.\<close>

definition attach_swarm :: "(string \<Rightarrow> tool_definition) \<Rightarrow> bool \<Rightarrow> bool \<Rightarrow> agent \<Rightarrow> agent" where
  "attach_swarm tool_def peer_connected with_tools a =
     (if \<not> peer_connected then a
      else a\<lparr>ag_swarm := True,
             ag_registry :=
               (if with_tools
                then register_tool (tool_def ''peers'') (register_tool (tool_def ''msg'') (ag_registry a))
                else ag_registry a)\<rparr>)"

text \<open>The line shown for an inbound frame, \<open>None\<close> for a frame that is ignored.\<close>

definition swarm_line :: "string \<Rightarrow> json \<Rightarrow> string option outcome" where
  "swarm_line ty msg =
     (if ty = ''msg'' then
        bind_outcome (value_str msg ''from'' ''?'') (\<lambda>sender.
        bind_outcome (value_str msg ''text'' []) (\<lambda>t.
          Inr (Some (''[swarm] <'' @ sender @ ''> '' @ t))))
      else if ty = ''conflict'' then
        bind_outcome (value_str msg ''path'' []) (\<lambda>path.
        bind_outcome (value_str msg ''by'' ''?'') (\<lambda>who.
        bind_outcome (value_str msg ''at'' ''?'') (\<lambda>at.
          Inr (Some (''[swarm] conflict: '' @ path @ '' was changed by '' @ who @ '' at '' @ at)))))
      else if ty = ''shutdown'' then Inr (Some ''[swarm] server went away; swarm disconnected'')
      else Inr None)"

definition inbox_cap :: nat where "inbox_cap = 64"

text \<open>The handler: the lines handed to the realtime callback, and the agent.\<close>

definition receive_swarm :: "string \<Rightarrow> json \<Rightarrow> agent \<Rightarrow> (string list \<times> agent) outcome" where
  "receive_swarm ty msg a =
     bind_outcome (swarm_line ty msg) (\<lambda>l. Inr
       (case l of
          None \<Rightarrow> ([], a)
        | Some line \<Rightarrow>
            ([line], if length (ag_inbox a) < inbox_cap
                     then a\<lparr>ag_inbox := ag_inbox a @ [line]\<rparr> else a)))"

definition strip_trailing_nl :: "string \<Rightarrow> string" where
  "strip_trailing_nl s = rev (dropWhile (\<lambda>c. c = nl) (rev s))"

definition drain_swarm_text :: "agent \<Rightarrow> string \<times> agent" where
  "drain_swarm_text a =
     (strip_trailing_nl (concat (map (\<lambda>line. line @ NL) (ag_inbox a))), a\<lparr>ag_inbox := []\<rparr>)"

section \<open>Rewriting tool paths\<close>

definition fix_path :: "string \<Rightarrow> string \<Rightarrow> json \<Rightarrow> json" where
  "fix_path base key input =
     (case jfind input key of
        Some (JStr (c # cs)) \<Rightarrow>
          if c \<noteq> CHR ''/'' then jreplace input key (JStr (base @ CHR ''/'' # c # cs)) else input
      | _ \<Rightarrow> input)"

definition rewrite_tool_paths :: "string \<Rightarrow> json \<Rightarrow> json outcome" where
  "rewrite_tool_paths base input =
     (if base = [] then Inr input
      else let input = fix_path base ''pattern'' (fix_path base ''path'' (fix_path base ''file_path'' input))
        in (case jfind input ''workdir'' of
              None \<Rightarrow> jset input ''workdir'' (JStr base)
            | Some JNull \<Rightarrow> jset input ''workdir'' (JStr base)
            | Some _ \<Rightarrow> Inr (fix_path base ''workdir'' input)))"

text \<open>What the file tools see: relative paths are below the base, absolute ones unchanged.\<close>

definition based_path :: "string \<Rightarrow> json \<Rightarrow> json" where
  "based_path base v =
     (case v of
        JStr (c # cs) \<Rightarrow> if c \<noteq> CHR ''/'' then JStr (base @ CHR ''/'' # c # cs) else v
      | _ \<Rightarrow> v)"

lemma jfind_replace:
  "jfind j k \<noteq> None \<Longrightarrow> jfind (jreplace j k v) k' = (if k' = k then Some v else jfind j k')"
  using om_get_put[of k v _ k'] by (cases j) (auto simp: om_get_def)

lemma fix_path_find:
  "jfind (fix_path base key input) k =
     (if k = key then map_option (based_path base) (jfind input k) else jfind input k)"
  by (auto simp: fix_path_def based_path_def jfind_replace split: option.splits json.splits list.splits)

lemma fix_path_obj: "jfind input key \<noteq> None \<Longrightarrow> \<exists>m. fix_path base key input = JObj m"
  by (cases input) (auto simp: fix_path_def split: option.splits json.splits list.splits)

lemma rewrite_tool_paths_find:
  assumes "rewrite_tool_paths base (JObj m) = Inr input'" "base \<noteq> []"
  shows "jfind input' k =
    (if k \<in> {''file_path'', ''path'', ''pattern''} then map_option (based_path base) (jfind (JObj m) k)
     else if k = ''workdir'' then
       (case jfind (JObj m) k of
          None \<Rightarrow> Some (JStr base) | Some JNull \<Rightarrow> Some (JStr base)
        | Some v \<Rightarrow> Some (based_path base v))
     else jfind (JObj m) k)"
proof -
  define j where
    "j = fix_path base ''pattern'' (fix_path base ''path'' (fix_path base ''file_path'' (JObj m)))"
  have w: "jfind j k = (if k \<in> {''file_path'', ''path'', ''pattern''}
      then map_option (based_path base) (jfind (JObj m) k) else jfind (JObj m) k)" for k
    by (simp only: j_def fix_path_find) auto
  have r: "(case jfind j ''workdir'' of
              None \<Rightarrow> jset j ''workdir'' (JStr base)
            | Some JNull \<Rightarrow> jset j ''workdir'' (JStr base)
            | Some _ \<Rightarrow> Inr (fix_path base ''workdir'' j)) = Inr input'"
    using assms unfolding j_def by (simp only: rewrite_tool_paths_def Let_def if_False)
  have wd: "jfind j ''workdir'' = jfind (JObj m) ''workdir''" by (simp add: w)
  show ?thesis
  proof (cases "jfind j ''workdir'' = None \<or> jfind j ''workdir'' = Some JNull")
    case True
    then have "jset j ''workdir'' (JStr base) = Inr input'" using r by auto
    from jfind_jset[OF this, of k] True wd show ?thesis by (auto simp: w)
  next
    case False
    then have "input' = fix_path base ''workdir'' j"
      using r by (auto split: option.splits json.splits)
    then have "jfind input' k =
        (if k = ''workdir'' then map_option (based_path base) (jfind j k) else jfind j k)"
      by (simp only: fix_path_find)
    with False wd show ?thesis by (auto simp: w split: option.splits json.splits)
  qed
qed

section \<open>Assembling an assistant step\<close>

text \<open>\<open>ActiveToolCall\<close> without its parsed input, which is filled in only after the stream.\<close>

record active_call =
  ac_id :: string
  ac_name :: string
  ac_input_json :: string

record bridge =
  br_text :: string
  br_calls :: "active_call list"
  br_index :: "(int, nat) omap"

definition new_bridge :: bridge where
  "new_bridge = \<lparr>br_text = [], br_calls = [], br_index = []\<rparr>"

definition append_input :: "string \<Rightarrow> active_call \<Rightarrow> active_call" where
  "append_input s c = c\<lparr>ac_input_json := ac_input_json c @ s\<rparr>"

fun bridge_event :: "stream_event \<Rightarrow> bridge \<Rightarrow> bridge" where
  "bridge_event (TextDelta t) b = b\<lparr>br_text := br_text b @ t\<rparr>"
| "bridge_event (ToolUseStart index i n) b =
     (let calls = br_calls b @ [\<lparr>ac_id = i, ac_name = n, ac_input_json = []\<rparr>]
      in b\<lparr>br_calls := calls, br_index := om_put index (length calls - 1) (br_index b)\<rparr>)"
| "bridge_event (ToolInputDelta index s) b =
     (case om_get (br_index b) index of
        Some p \<Rightarrow> b\<lparr>br_calls := (br_calls b)[p := append_input s (br_calls b ! p)]\<rparr>
      | None \<Rightarrow> b)"
| "bridge_event ToolUseEnd b = b"
| "bridge_event (MessageEnd r) b = b"

fun bridge_sink :: "stream_event \<Rightarrow> sink_call list" where
  "bridge_sink (TextDelta t) = [SinkTextDelta t]"
| "bridge_sink (ToolUseStart index i n) = [SinkToolStart n]"
| "bridge_sink _ = []"

definition bridge_run :: "stream_event list \<Rightarrow> bridge" where
  "bridge_run es = fold bridge_event es new_bridge"

text \<open>
  The specification, read off the stream: each start is one call, whose input is all deltas of its
  index up to the next start with that index.
\<close>

fun stream_text :: "stream_event list \<Rightarrow> string" where
  "stream_text [] = []"
| "stream_text (TextDelta t # es) = t @ stream_text es"
| "stream_text (e # es) = stream_text es"

fun deltas_of :: "int \<Rightarrow> stream_event list \<Rightarrow> string" where
  "deltas_of i [] = []"
| "deltas_of i (ToolInputDelta j s # es) = (if i = j then s else []) @ deltas_of i es"
| "deltas_of i (ToolUseStart j a b # es) = (if i = j then [] else deltas_of i es)"
| "deltas_of i (e # es) = deltas_of i es"

fun stream_calls :: "stream_event list \<Rightarrow> active_call list" where
  "stream_calls [] = []"
| "stream_calls (ToolUseStart j a b # es) =
     \<lparr>ac_id = a, ac_name = b, ac_input_json = deltas_of j es\<rparr> # stream_calls es"
| "stream_calls (e # es) = stream_calls es"

text \<open>The position of the latest start of an index.\<close>

fun last_start :: "int \<Rightarrow> stream_event list \<Rightarrow> nat option" where
  "last_start i [] = None"
| "last_start i (ToolUseStart j a b # es) =
     (case last_start i es of Some p \<Rightarrow> Some (Suc p) | None \<Rightarrow> if i = j then Some 0 else None)"
| "last_start i (e # es) = last_start i es"

lemma stream_text_append: "stream_text (xs @ ys) = stream_text xs @ stream_text ys"
  by (induction xs rule: stream_text.induct) simp_all

lemma last_start_bound: "last_start i es = Some p \<Longrightarrow> p < length (stream_calls es)"
  by (induction i es arbitrary: p rule: last_start.induct) (auto split: option.splits if_splits)

lemma last_start_start:
  "last_start i (es @ [ToolUseStart j a b]) =
     (if i = j then Some (length (stream_calls es)) else last_start i es)"
  by (induction i es rule: last_start.induct) (auto split: option.splits)

lemma last_start_other:
  "(\<And>j a b. e \<noteq> ToolUseStart j a b) \<Longrightarrow> last_start i (es @ [e]) = last_start i es"
proof (induction i es rule: last_start.induct)
  case (1 i)
  then show ?case by (cases e) auto
qed auto

lemma deltas_of_snoc:
  "deltas_of i (es @ [e]) =
     deltas_of i es @ (case e of
        ToolInputDelta j s \<Rightarrow> if i = j \<and> last_start i es = None then s else []
      | _ \<Rightarrow> [])"
  by (induction i es rule: deltas_of.induct) (auto split: stream_event.splits option.splits)

lemma stream_calls_start:
  "stream_calls (es @ [ToolUseStart j a b]) =
     stream_calls es @ [\<lparr>ac_id = a, ac_name = b, ac_input_json = []\<rparr>]"
  by (induction es rule: stream_calls.induct) (simp_all add: deltas_of_snoc)

lemma stream_calls_delta:
  "stream_calls (es @ [ToolInputDelta j s]) =
     (case last_start j es of
        None \<Rightarrow> stream_calls es
      | Some p \<Rightarrow> (stream_calls es)[p := append_input s (stream_calls es ! p)])"
proof (induction es rule: stream_calls.induct)
  case (2 k a b es)
  then show ?case
    by (auto simp: deltas_of_snoc append_input_def split: option.splits dest: last_start_bound)
qed (simp_all split: option.splits)

lemma stream_calls_other:
  "(\<And>j a b. e \<noteq> ToolUseStart j a b) \<Longrightarrow> (\<And>j s. e \<noteq> ToolInputDelta j s) \<Longrightarrow>
     stream_calls (es @ [e]) = stream_calls es"
proof (induction es rule: stream_calls.induct)
  case 1
  then show ?case by (cases e) auto
next
  case (2 k a b es)
  then show ?case by (cases e) (auto simp: deltas_of_snoc)
qed auto

lemma bridge_run_spec:
  "br_text (bridge_run es) = stream_text es \<and> br_calls (bridge_run es) = stream_calls es \<and>
   (\<forall>i. om_get (br_index (bridge_run es)) i = last_start i es)"
proof (induction es rule: rev_induct)
  case Nil
  show ?case by (simp add: bridge_run_def new_bridge_def)
next
  case (snoc e es)
  have run: "bridge_run (es @ [e]) = bridge_event e (bridge_run es)"
    by (simp add: bridge_run_def)
  show ?case
  proof (cases e)
    case (TextDelta t)
    then show ?thesis using snoc run
      by (simp add: stream_text_append stream_calls_other last_start_other)
  next
    case (ToolUseStart j a b)
    then show ?thesis using snoc run
      by (simp add: stream_text_append stream_calls_start last_start_start Let_def om_get_put)
  next
    case (ToolInputDelta j s)
    then show ?thesis using snoc run
      by (simp add: stream_text_append stream_calls_delta last_start_other split: option.splits)
  qed (use snoc run in \<open>simp_all add: stream_text_append stream_calls_other last_start_other\<close>)
qed

section \<open>Properties\<close>

text \<open>C7: \<open>TurnBridge\<close> reassembles interleaved tool calls: the text is the concatenation of the text
  deltas, and each call has, in stream order, the deltas of its own index.\<close>

theorem bridge_reassembles:
  "br_text (bridge_run es) = stream_text es \<and> br_calls (bridge_run es) = stream_calls es"
  using bridge_run_spec by blast

text \<open>The user-facing preview of a tool result is always one row.\<close>

theorem tool_preview_one_line: "nl \<notin> set (make_tool_preview name result is_error)"
  by (rule preview_one_line)

text \<open>With a base directory, a tool sees every path argument below the base or absolute, a \<open>workdir\<close>
  in any case, and all other arguments as the model gave them.\<close>

theorem tool_paths_are_based:
  assumes "rewrite_tool_paths base (JObj m) = Inr input'" and "base \<noteq> []"
  shows "jfind input' ''file_path'' = map_option (based_path base) (jfind (JObj m) ''file_path'') \<and>
    jfind input' ''path'' = map_option (based_path base) (jfind (JObj m) ''path'') \<and>
    jfind input' ''workdir'' \<noteq> None \<and>
    (k \<notin> {''file_path'', ''path'', ''pattern'', ''workdir''} \<longrightarrow> jfind input' k = jfind (JObj m) k)"
  using rewrite_tool_paths_find[OF assms] by (auto split: option.splits json.splits)

theorem tool_paths_are_based_witness:
  "case rewrite_tool_paths ''/r'' (JObj [(''content'', JStr ''c''), (''file_path'', JStr ''a.c'')]) of
     Inr j \<Rightarrow> jfind j ''file_path'' = Some (JStr ''/r/a.c'') \<and> jfind j ''workdir'' \<noteq> None \<and>
       jfind j ''content'' = Some (JStr ''c'')
   | Inl _ \<Rightarrow> False"
proof -
  let ?m = "[(''content'', JStr ''c''), (''file_path'', JStr ''a.c'')]"
  have "isl (rewrite_tool_paths ''/r'' (JObj ?m)) = False" by code_simp
  then obtain j where j: "rewrite_tool_paths ''/r'' (JObj ?m) = Inr j"
    by (cases "rewrite_tool_paths ''/r'' (JObj ?m)") auto
  from tool_paths_are_based[OF j, of "''content''"] j show ?thesis by (simp add: based_path_def)
qed

text \<open>The search pattern of \<open>grep\<close> is rewritten like a path: with a base directory the pattern the
  tool searches for is not the one the model asked for.\<close>

theorem grep_pattern_is_rewritten:
  "(case rewrite_tool_paths ''/r'' (JObj [(''pattern'', JStr ''TODO'')]) of
      Inr j \<Rightarrow> jfind j ''pattern'' | Inl _ \<Rightarrow> None) = Some (JStr ''/r/TODO'')"
  by code_simp

end
