(* ===== verification/Agent_Turn.thy ===== *)
theory Agent_Turn
  imports Agent_State
begin

text \<open>
  \<open>Agent::run_turn\<close> (\<open>src/agent.cpp\<close>): the loop of model steps and tool calls, with cancellation and
  rollback. What lies outside (the provider's stream, the tools, the JSON parser, cancel requests of
  other threads, the swarm peer) is a \<open>turn_env\<close> over a world \<open>'w\<close> that each call may change.
\<close>

section \<open>The environment of a turn\<close>

text \<open>
  \<open>te_complete\<close> answers with the events it delivered, the message of the exception it ended with if
  any, and the token usage it leaves. \<open>te_cancelled\<close> tells whether another thread has called
  \<open>cancel_turn\<close> since it was last asked.
\<close>

record 'w turn_env =
  te_complete :: "message list \<Rightarrow> tool_definition list \<Rightarrow> string \<Rightarrow> provider \<Rightarrow> 'w
    \<Rightarrow> (stream_event list \<times> string option \<times> int \<times> int) \<times> 'w"
  te_exec :: "string \<Rightarrow> json \<Rightarrow> 'w \<Rightarrow> string outcome \<times> 'w"
  te_parse :: "string \<Rightarrow> json option"
  te_cancelled :: "'w \<Rightarrow> bool \<times> 'w"
  te_connected :: "'w \<Rightarrow> bool \<times> 'w"
  te_register_read :: "string \<Rightarrow> 'w \<Rightarrow> 'w"
  te_report_write :: "string \<Rightarrow> 'w \<Rightarrow> 'w"
  te_sys_world :: "'w \<Rightarrow> sys_world"

record 'w turn_state =
  ts_agent :: agent
  ts_sink :: "sink_call list"
  ts_world :: 'w

definition emit :: "sink_call list \<Rightarrow> 'w turn_state \<Rightarrow> 'w turn_state" where
  "emit cs st = st\<lparr>ts_sink := ts_sink st @ cs\<rparr>"

definition push_message :: "message \<Rightarrow> 'w turn_state \<Rightarrow> 'w turn_state" where
  "push_message m st = st\<lparr>ts_agent := add_message m (ts_agent st)\<rparr>"

text \<open>One load of \<open>cancel_requested_\<close>.\<close>

definition poll_cancel :: "'w turn_env \<Rightarrow> 'w turn_state \<Rightarrow> bool \<times> 'w turn_state" where
  "poll_cancel env st =
     (let (arrived, w) = te_cancelled env (ts_world st);
          a = (if arrived then cancel_turn (ts_agent st) else ts_agent st)
      in (ag_cancel a, st\<lparr>ts_agent := a, ts_world := w\<rparr>))"

definition kCancelled :: int where "kCancelled = 2"

definition max_steps :: nat where "max_steps = 10"

section \<open>One tool call\<close>

text \<open>Lookup, path rewriting and execution: the result, whether it is an error, and the input as
  rewritten. An exception of either becomes an error result.\<close>

definition execute_tool ::
    "'w turn_env \<Rightarrow> string \<Rightarrow> json \<Rightarrow> 'w turn_state \<Rightarrow> (string \<times> bool \<times> json) outcome \<times> 'w turn_state"
where
  "execute_tool env name args st =
     (case registry_get (ag_registry (ts_agent st)) name of
        None \<Rightarrow> (Inr (''Error: Unknown tool: '' @ name, True, JNull), st)
      | Some _ \<Rightarrow>
          (case rewrite_tool_paths (ag_tool_cwd_base (ts_agent st)) args of
             Inl (Thrown e) \<Rightarrow> (Inr (''Error: '' @ e, True, args), st)
           | Inl Undefined \<Rightarrow> (Inl Undefined, st)
           | Inr input \<Rightarrow>
               (let (r, w) = te_exec env name input (ts_world st); st' = st\<lparr>ts_world := w\<rparr>
                in case r of
                     Inl (Thrown e) \<Rightarrow> (Inr (''Error: '' @ e, True, input), st')
                   | Inl Undefined \<Rightarrow> (Inl Undefined, st')
                   | Inr result \<Rightarrow> (Inr (result, False, input), st'))))"

text \<open>Telling the swarm about a read or a write; a \<open>file_path\<close> that is no string throws.\<close>

definition track_file ::
    "'w turn_env \<Rightarrow> string \<Rightarrow> bool \<Rightarrow> json \<Rightarrow> 'w turn_state \<Rightarrow> failure option \<times> 'w turn_state" where
  "track_file env name is_error input st =
     (if is_error \<or> \<not> ag_swarm (ts_agent st) then (None, st)
      else let (up, w) = te_connected env (ts_world st); st = st\<lparr>ts_world := w\<rparr>
        in if \<not> up then (None, st)
           else (case jfind input ''file_path'' of
               None \<Rightarrow> (None, st)
             | Some v \<Rightarrow>
                 (case get_str v of
                    Inl e \<Rightarrow> (Some e, st)
                  | Inr fp \<Rightarrow>
                      (None, st\<lparr>ts_world :=
                         (if name = ''read'' then te_register_read env fp (ts_world st)
                          else if name = ''write'' \<or> name = ''edit''
                          then te_report_write env fp (ts_world st)
                          else ts_world st)\<rparr>))))"

definition run_tool ::
    "'w turn_env \<Rightarrow> active_call \<Rightarrow> json \<Rightarrow> 'w turn_state \<Rightarrow> failure option \<times> 'w turn_state" where
  "run_tool env tc args st =
     (let st1 = emit [SinkToolCall (ac_name tc) args] st
      in case execute_tool env (ac_name tc) args st1 of
           (Inl e, st2) \<Rightarrow> (Some e, st2)
         | (Inr (result, is_error, input), st2) \<Rightarrow>
             (case track_file env (ac_name tc) is_error input st2 of
                (Some e, st3) \<Rightarrow> (Some e, st3)
              | (None, st3) \<Rightarrow>
                  (None, push_message (tool_answer (ac_id tc) result)
                     (emit [SinkToolResult (make_tool_preview (ac_name tc) result is_error) is_error]
                        st3))))"

fun run_tools ::
    "'w turn_env \<Rightarrow> (active_call \<times> json) list \<Rightarrow> 'w turn_state \<Rightarrow> failure option \<times> 'w turn_state"
where
  "run_tools env [] st = (None, st)"
| "run_tools env ((tc, args) # tcs) st =
     (case poll_cancel env st of
        (True, st') \<Rightarrow> (None, st')
      | (False, st') \<Rightarrow>
          (case run_tool env tc args st' of
             (Some e, st2) \<Rightarrow> (Some e, st2)
           | (None, st2) \<Rightarrow> run_tools env tcs st2))"

section \<open>One model step\<close>

definition call_input :: "'w turn_env \<Rightarrow> active_call \<Rightarrow> json" where
  "call_input env tc =
     (if ac_input_json tc = [] then JObj []
      else (case te_parse env (ac_input_json tc) of Some j \<Rightarrow> j | None \<Rightarrow> JObj []))"

definition assistant_message :: "string \<Rightarrow> (active_call \<times> json) list \<Rightarrow> message" where
  "assistant_message t calls =
     \<lparr>msg_role = Assistant,
      msg_content = (if t \<noteq> [] then [TextBlock t] else []) @
        map (\<lambda>(tc, args). ToolUseBlock (ac_id tc) (ac_name tc) args) calls\<rparr>"

datatype step_exit = NextStep | LeaveLoop | ReturnDone | Threw failure

definition run_complete ::
    "'w turn_env \<Rightarrow> string \<Rightarrow> 'w turn_state \<Rightarrow> (bridge, failure) sum \<times> 'w turn_state" where
  "run_complete env system st =
     (case ag_provider (ts_agent st) of
        None \<Rightarrow> (Inr Undefined, st)
      | Some p \<Rightarrow>
          (let ((events, err, pt, ct), w) =
                 te_complete env (ag_messages (ts_agent st))
                   (registry_definitions (ag_registry (ts_agent st))) system p (ts_world st);
               p' = p\<lparr>p_prompt_tokens := pt, p_completion_tokens := ct\<rparr>;
               st' = emit (concat (map bridge_sink events))
                 (st\<lparr>ts_agent := (ts_agent st)\<lparr>ag_provider := Some p'\<rparr>, ts_world := w\<rparr>)
           in case err of
                Some e \<Rightarrow> (Inr (Thrown e), st')
              | None \<Rightarrow> (Inl (bridge_run events), st')))"

definition run_step :: "'w turn_env \<Rightarrow> string \<Rightarrow> 'w turn_state \<Rightarrow> step_exit \<times> 'w turn_state" where
  "run_step env system st =
     (case run_complete env system st of
        (Inr e, st1) \<Rightarrow> (Threw e, st1)
      | (Inl br, st1) \<Rightarrow>
          (case poll_cancel env st1 of
             (True, st2) \<Rightarrow> (LeaveLoop, st2)
           | (False, st2) \<Rightarrow>
               (let calls = map (\<lambda>tc. (tc, call_input env tc)) (br_calls br);
                    st3 = push_message (assistant_message (br_text br) calls) st2;
                    (pt, ct) = agent_usage (ts_agent st3);
                    st4 = emit [SinkSummary (agent_model (ts_agent st3)) pt ct] st3
                in if calls = [] then (ReturnDone, st4)
                   else (case run_tools env calls st4 of
                       (Some e, st5) \<Rightarrow> (Threw e, st5)
                     | (None, st5) \<Rightarrow> (NextStep, st5)))))"

fun run_steps :: "nat \<Rightarrow> 'w turn_env \<Rightarrow> string \<Rightarrow> 'w turn_state \<Rightarrow> step_exit \<times> 'w turn_state" where
  "run_steps 0 env system st = (LeaveLoop, st)"
| "run_steps (Suc n) env system st =
     (case run_step env system st of
        (NextStep, st') \<Rightarrow> run_steps n env system st'
      | r \<Rightarrow> r)"

section \<open>The turn\<close>

definition effective_prompt :: "string \<Rightarrow> string \<Rightarrow> string" where
  "effective_prompt swarm_block prompt =
     (if swarm_block = [] then prompt
      else ''[swarm notifications received before this turn]'' @ NL @ swarm_block @ NL @ NL @
        ''If a file you previously read or edited was reported changed, re-read it and '' @
        ''reconcile your plan before acting. Handle these, then: '' @ prompt)"

definition begin_turn :: "'w turn_env \<Rightarrow> string \<Rightarrow> 'w turn_state \<Rightarrow> 'w turn_state" where
  "begin_turn env prompt st =
     (let (_, w) = te_cancelled env (ts_world st);
          a = (ts_agent st)\<lparr>ag_cancel := False,
                 ag_provider := map_option clear_cancel (ag_provider (ts_agent st))\<rparr>;
          (block, a') = drain_swarm_text a
      in push_message (user_text (effective_prompt block prompt))
           (st\<lparr>ts_agent := a', ts_world := w\<rparr>))"

definition roll_back :: "nat \<Rightarrow> 'w turn_state \<Rightarrow> 'w turn_state" where
  "roll_back start st =
     (if length (ag_messages (ts_agent st)) > start
      then st\<lparr>ts_agent := (ts_agent st)\<lparr>ag_messages := take start (ag_messages (ts_agent st))\<rparr>\<rparr>
      else st)"

text \<open>The \<open>try\<close> block up to the end of the loop.\<close>

definition turn_body :: "'w turn_env \<Rightarrow> 'w turn_state \<Rightarrow> step_exit \<times> 'w turn_state" where
  "turn_body env st =
     (let (system, a, warnings) = build_system_prompt (te_sys_world env (ts_world st)) (ts_agent st);
          st' = emit warnings (st\<lparr>ts_agent := a\<rparr>)
      in case system of
           Inl e \<Rightarrow> (Threw e, st')
         | Inr s \<Rightarrow> run_steps max_steps env s st')"

definition run_turn :: "'w turn_env \<Rightarrow> string \<Rightarrow> 'w turn_state \<Rightarrow> (failure + int) \<times> 'w turn_state"
where
  "run_turn env prompt st =
     (let start = length (ag_messages (ts_agent st))
      in case turn_body env (begin_turn env prompt st) of
           (ReturnDone, st') \<Rightarrow> (Inr 0, st')
         | (Threw Undefined, st') \<Rightarrow> (Inl Undefined, st')
         | (Threw (Thrown e), st') \<Rightarrow>
             (let (c1, st1) = poll_cancel env st';
                  st2 = roll_back start (if c1 then st1 else emit [SinkWarning (''Error: '' @ e)] st1);
                  (c2, st3) = poll_cancel env st2
              in (Inr (if c2 then kCancelled else 1), st3))
         | (_, st') \<Rightarrow>
             (case poll_cancel env st' of
                (True, st1) \<Rightarrow> (Inr kCancelled, roll_back start st1)
              | (False, st1) \<Rightarrow>
                  (Inr 1, emit [SinkWarning (''Reached maximum tool steps ('' @ nat_str max_steps @ '')'')]
                     st1)))"

text \<open>\<open>run_once\<close>: the turn with its callbacks shown by a fresh \<open>StdoutSink\<close>.\<close>

definition run_once ::
    "'w turn_env \<Rightarrow> string \<Rightarrow> agent \<Rightarrow> 'w \<Rightarrow> (failure + int) \<times> stdout_sink \<times> agent \<times> 'w" where
  "run_once env prompt a w =
     (let (rc, st) = run_turn env prompt \<lparr>ts_agent = a, ts_sink = [], ts_world = w\<rparr>
      in (rc, fold stdout_call (ts_sink st) \<lparr>so_out = [], so_err = [], so_line_open = False\<rparr>,
          ts_agent st, ts_world st))"

section \<open>What each part does to the history\<close>

abbreviation history :: "'w turn_state \<Rightarrow> message list" where
  "history st \<equiv> ag_messages (ts_agent st)"

abbreviation opened :: "'w turn_state \<Rightarrow> string list option" where
  "opened st \<equiv> open_after [] (history st)"

named_theorems turn_simps

lemma emit_simps [turn_simps]:
  "ts_agent (emit cs st) = ts_agent st" "ts_world (emit cs st) = ts_world st"
  by (simp_all add: emit_def)

lemma push_simps [turn_simps]:
  "history (push_message m st) = history st @ [m]"
  "ag_cancel (ts_agent (push_message m st)) = ag_cancel (ts_agent st)"
  "ag_provider (ts_agent (push_message m st)) = ag_provider (ts_agent st)"
  "ts_world (push_message m st) = ts_world st"
  by (simp_all add: push_message_def add_message_def)

lemma poll_cancel_frame:
  assumes "poll_cancel env st = (c, st')"
  shows "history st' = history st \<and> c = ag_cancel (ts_agent st') \<and>
    (ag_cancel (ts_agent st) \<longrightarrow> c) \<and>
    (ag_provider (ts_agent st') = None \<longleftrightarrow> ag_provider (ts_agent st) = None)"
  using assms by (auto simp: poll_cancel_def cancel_turn_def Let_def split: prod.splits if_splits)

lemma execute_tool_frame:
  "execute_tool env name args st = (r, st') \<Longrightarrow> ts_agent st' = ts_agent st"
  by (auto simp: execute_tool_def Let_def
      split: option.splits sum.splits failure.splits prod.splits)

lemma track_file_frame:
  "track_file env name e input st = (r, st') \<Longrightarrow> ts_agent st' = ts_agent st"
  by (auto simp: track_file_def Let_def split: option.splits sum.splits prod.splits if_splits)

lemma run_tool_frame:
  assumes "run_tool env tc args st = (r, st')"
  shows "ag_cancel (ts_agent st') = ag_cancel (ts_agent st) \<and>
    (r = None \<longrightarrow> (\<exists>c. history st' = history st @ [tool_answer (ac_id tc) c])) \<and>
    (r \<noteq> None \<longrightarrow> history st' = history st)"
  using assms
  by (auto simp: run_tool_def Let_def turn_simps
      split: prod.splits sum.splits option.splits
      dest!: execute_tool_frame track_file_frame)

lemma opened_answer:
  "open_after [] ms = Some (i # is) \<Longrightarrow> open_after [] (ms @ [tool_answer i c]) = Some is"
  by (simp add: open_after_append)

text \<open>Tools that run to the end of the list answer every open call; otherwise the flag is up.\<close>

lemma run_tools_history:
  assumes "run_tools env tcs st = (r, st')"
  shows "prefix (history st) (history st') \<and>
    (ag_cancel (ts_agent st) \<longrightarrow> ag_cancel (ts_agent st')) \<and>
    (r = None \<longrightarrow> opened st = Some (map (ac_id \<circ> fst) tcs) \<longrightarrow>
       ag_cancel (ts_agent st') \<or> opened st' = Some [])"
  using assms
proof (induction tcs arbitrary: st)
  case (Cons ta tcs)
  obtain tc args where ta: "ta = (tc, args)" by fastforce
  obtain c st1 where p: "poll_cancel env st = (c, st1)" by fastforce
  note P = poll_cancel_frame[OF p]
  show ?case
  proof (cases c)
    case True
    then show ?thesis using Cons.prems ta p P by auto
  next
    case False
    obtain e st2 where t: "run_tool env tc args st1 = (e, st2)" by fastforce
    note T = run_tool_frame[OF t]
    show ?thesis
    proof (cases e)
      case (Some x)
      then show ?thesis using Cons.prems ta p P t T False by auto
    next
      case None
      then have r: "run_tools env tcs st2 = (r, st')" using Cons.prems ta p t False by simp
      obtain x where x: "history st2 = history st1 @ [tool_answer (ac_id tc) x]"
        using T None by blast
      have o: "opened st = Some (map (ac_id \<circ> fst) (ta # tcs)) \<longrightarrow>
          opened st2 = Some (map (ac_id \<circ> fst) tcs)"
        using x P ta opened_answer[of "history st1" "ac_id tc"] by auto
      have "prefix (history st) (history st2)" using x P by simp
      with Cons.IH[OF r] o P T show ?thesis by (auto intro: prefix_order.trans)
    qed
  qed
qed auto

lemma run_complete_frame:
  assumes "run_complete env system st = (r, st')"
  shows "history st' = history st \<and> ag_cancel (ts_agent st') = ag_cancel (ts_agent st) \<and>
    (ag_provider (ts_agent st') = None \<longleftrightarrow> ag_provider (ts_agent st) = None)"
  using assms
  by (auto simp: run_complete_def Let_def turn_simps split: option.splits prod.splits)

lemma assistant_message_ids:
  "tool_use_ids (msg_content (assistant_message t calls)) = map (ac_id \<circ> fst) calls"
proof -
  have "tool_use_ids (map (\<lambda>(tc, args). ToolUseBlock (ac_id tc) (ac_name tc) args) calls)
      = map (ac_id \<circ> fst) calls"
    by (induction calls) auto
  then show ?thesis by (simp add: assistant_message_def)
qed

lemma opened_assistant:
  "open_after [] ms = Some [] \<Longrightarrow>
     open_after [] (ms @ [assistant_message t calls]) = Some (map (ac_id \<circ> fst) calls)"
proof -
  have "list_all (\<lambda>b. case b of ToolResultBlock i c \<Rightarrow> False | _ \<Rightarrow> True)
      (msg_content (assistant_message t calls))"
    by (auto simp: assistant_message_def list_all_iff)
  moreover assume "open_after [] ms = Some []"
  ultimately show ?thesis
    using assistant_message_ids[of t calls]
    by (simp add: open_after_append open_after_message_def) (simp add: assistant_message_def)
qed

text \<open>A conversation is in order when no call is open, or the turn has been cancelled.\<close>

definition in_order :: "'w turn_state \<Rightarrow> bool" where
  "in_order st \<longleftrightarrow> ag_cancel (ts_agent st) \<or> opened st = Some []"

lemma run_step_history:
  assumes "run_step env system st = (x, st')"
  shows "prefix (history st) (history st') \<and>
    (in_order st \<longrightarrow> x = NextStep \<or> x = LeaveLoop \<longrightarrow> in_order st') \<and>
    (x = ReturnDone \<longrightarrow> (\<exists>t. history st' = history st @ [assistant_message t []]) \<and>
       (in_order st \<longrightarrow> opened st' = Some [])) \<and>
    (x = LeaveLoop \<longrightarrow> ag_cancel (ts_agent st'))"
proof -
  obtain br st1 where c: "run_complete env system st = (br, st1)" by fastforce
  note C = run_complete_frame[OF c]
  show ?thesis
  proof (cases br)
    case (Inr e)
    then show ?thesis using assms c C by (auto simp: run_step_def)
  next
    case (Inl b)
    obtain k st2 where p: "poll_cancel env st1 = (k, st2)" by fastforce
    note P = poll_cancel_frame[OF p]
    show ?thesis
    proof (cases k)
      case True
      then show ?thesis using assms c C Inl p P by (auto simp: run_step_def in_order_def)
    next
      case False
      define calls where "calls = map (\<lambda>tc. (tc, call_input env tc)) (br_calls b)"
      define st3 where "st3 = push_message (assistant_message (br_text b) calls) st2"
      obtain pt ct where u: "agent_usage (ts_agent st3) = (pt, ct)" by fastforce
      define st4 where "st4 = emit [SinkSummary (agent_model (ts_agent st3)) pt ct] st3"
      have h4: "history st4 = history st @ [assistant_message (br_text b) calls]"
        using C P by (simp add: st4_def st3_def turn_simps)
      have o4: "in_order st \<longrightarrow> opened st4 = Some (map (ac_id \<circ> fst) calls)"
        using opened_assistant[of "history st"] P C False h4 by (auto simp: in_order_def)
      have step: "run_step env system st =
          (if calls = [] then (ReturnDone, st4)
           else (case run_tools env calls st4 of
               (Some e, st5) \<Rightarrow> (Threw e, st5) | (None, st5) \<Rightarrow> (NextStep, st5)))"
        using False unfolding run_step_def c prod.case Inl sum.case p
        by (simp only: bool.case Let_def u prod.case calls_def[symmetric] st3_def[symmetric]
            st4_def[symmetric])
      show ?thesis
      proof (cases "calls = []")
        case True
        then show ?thesis using assms step h4 o4 by (auto simp: in_order_def)
      next
        case ne: False
        obtain r st5 where r: "run_tools env calls st4 = (r, st5)" by fastforce
        note R = run_tools_history[OF r]
        have st': "st' = st5" "x = (case r of Some e \<Rightarrow> Threw e | None \<Rightarrow> NextStep)"
          using assms step ne r by (auto split: option.splits)
        have "prefix (history st) (history st4)" using h4 by simp
        then have "prefix (history st) (history st5)" using R by (meson prefix_order.trans)
        then show ?thesis using R o4 st' by (auto simp: in_order_def split: option.splits)
      qed
    qed
  qed
qed

lemma run_steps_history:
  assumes "run_steps n env system st = (x, st')"
  shows "prefix (history st) (history st') \<and> x \<noteq> NextStep \<and>
    (in_order st \<longrightarrow> x = LeaveLoop \<longrightarrow> in_order st') \<and>
    (x = ReturnDone \<longrightarrow> (\<exists>ms t. history st' = ms @ [assistant_message t []]) \<and>
       (in_order st \<longrightarrow> opened st' = Some []))"
  using assms
proof (induction n arbitrary: st)
  case (Suc n)
  obtain y st1 where y: "run_step env system st = (y, st1)" by fastforce
  note Y = run_step_history[OF y]
  show ?case
  proof (cases y)
    case NextStep
    then have r: "run_steps n env system st1 = (x, st')" using Suc.prems y by simp
    from Suc.IH[OF r] Y NextStep show ?thesis by (auto intro: prefix_order.trans)
  qed (use Suc.prems y Y in auto)
qed auto

lemma begin_turn_frame:
  "history (begin_turn env prompt st) =
     history st @ [user_text (effective_prompt (fst (drain_swarm_text (ts_agent st))) prompt)] \<and>
   \<not> ag_cancel (ts_agent (begin_turn env prompt st)) \<and>
   ag_inbox (ts_agent (begin_turn env prompt st)) = [] \<and>
   (ag_provider (ts_agent (begin_turn env prompt st)) = None \<longleftrightarrow> ag_provider (ts_agent st) = None)"
  by (auto simp: begin_turn_def Let_def turn_simps drain_swarm_text_def push_message_def
      add_message_def split: prod.splits)

lemma turn_body_history:
  assumes "turn_body env st = (x, st')" and "opened st = Some []"
  shows "prefix (history st) (history st') \<and> x \<noteq> NextStep \<and>
    (x = LeaveLoop \<longrightarrow> in_order st') \<and>
    (x = ReturnDone \<longrightarrow> (\<exists>ms t. history st' = ms @ [assistant_message t []]) \<and> opened st' = Some [])"
proof -
  obtain system a ws where b:
      "build_system_prompt (te_sys_world env (ts_world st)) (ts_agent st) = (system, a, ws)"
    by (metis prod_cases3)
  let ?st = "emit ws (st\<lparr>ts_agent := a\<rparr>)"
  have h: "history ?st = history st" using build_system_prompt_frame[OF b] by (simp add: turn_simps)
  show ?thesis
  proof (cases system)
    case (Inl e)
    then show ?thesis using assms b h by (auto simp: turn_body_def)
  next
    case (Inr s)
    then have "run_steps max_steps env s ?st = (x, st')" using assms b by (simp add: turn_body_def)
    from run_steps_history[OF this] h assms(2) show ?thesis by (auto simp: in_order_def)
  qed
qed

lemma roll_back_history:
  "prefix h (history st) \<Longrightarrow> history (roll_back (length h) st) = h"
  by (auto simp: roll_back_def prefix_def)

lemma roll_back_frame:
  "ag_cancel (ts_agent (roll_back n st)) = ag_cancel (ts_agent st)"
  by (simp add: roll_back_def)

text \<open>The main fact: how a turn ends and what it leaves in the history.\<close>

lemma run_turn_history:
  assumes "well_formed (history st)" and "run_turn env prompt st = (Inr rc, st')"
  shows "well_formed (history st') \<and> prefix (history st) (history st') \<and> rc \<in> {0, 1, 2} \<and>
    (rc = 2 \<longrightarrow> history st' = history st) \<and>
    (rc = 0 \<longrightarrow> (\<exists>ms t. history st' = ms @ [assistant_message t []]))"
proof -
  let ?b = "begin_turn env prompt st"
  obtain x st1 where x: "turn_body env ?b = (x, st1)" by fastforce
  have o: "opened ?b = Some []"
    using begin_turn_frame[of env prompt st] assms(1)
    by (simp add: well_formed_def open_after_append)
  note X = turn_body_history[OF x o]
  have "prefix (history st) (history ?b)" using begin_turn_frame[of env prompt st] by simp
  then have pre: "prefix (history st) (history st1)" using X by (auto intro: prefix_order.trans)
  show ?thesis
  proof (cases x)
    case ReturnDone
    then show ?thesis using assms x X pre by (auto simp: run_turn_def Let_def well_formed_def)
  next
    case NextStep
    then show ?thesis using X by simp
  next
    case LeaveLoop
    obtain c st2 where p: "poll_cancel env st1 = (c, st2)" by fastforce
    note P = poll_cancel_frame[OF p]
    have pre2: "prefix (history st) (history st2)" using pre P by simp
    show ?thesis
    proof (cases c)
      case True
      then have "st' = roll_back (length (history st)) st2" "rc = 2"
        using assms(2) x p LeaveLoop by (auto simp: run_turn_def Let_def kCancelled_def)
      then show ?thesis using roll_back_history[OF pre2] assms(1) by simp
    next
      case False
      then have "history st' = history st2" "rc = 1"
        using assms(2) x p LeaveLoop by (auto simp: run_turn_def Let_def turn_simps)
      moreover have "opened st2 = Some []" using X LeaveLoop P False by (auto simp: in_order_def)
      ultimately show ?thesis using pre2 by (simp add: well_formed_def)
    qed
  next
    case (Threw e)
    show ?thesis
    proof (cases e)
      case Undefined
      then show ?thesis using assms(2) x Threw by (simp add: run_turn_def Let_def)
    next
      case (Thrown m)
      obtain c1 st2 where p: "poll_cancel env st1 = (c1, st2)" by fastforce
      let ?st2 = "if c1 then st2 else emit [SinkWarning (''Error: '' @ m)] st2"
      let ?st3 = "roll_back (length (history st)) ?st2"
      obtain c2 st4 where q: "poll_cancel env ?st3 = (c2, st4)" by fastforce
      have pre2: "prefix (history st) (history ?st2)"
        using pre poll_cancel_frame[OF p] by (simp add: turn_simps)
      have "st' = st4" "rc = (if c2 then 2 else 1)"
        using assms(2) x Threw Thrown p q by (auto simp: run_turn_def Let_def kCancelled_def)
      then show ?thesis
        using roll_back_history[OF pre2] poll_cancel_frame[OF q] assms(1) by auto
    qed
  qed
qed

lemma run_turn_wf:
  "run_turn env prompt st = (Inr rc, st') \<Longrightarrow> well_formed (history st) \<Longrightarrow> well_formed (history st')"
  using run_turn_history by blast

section \<open>How much a turn adds\<close>

definition assistant_steps :: "message list \<Rightarrow> nat" where
  "assistant_steps ms = length (filter (\<lambda>m. msg_role m = Assistant) ms)"

lemma assistant_steps_append [simp]:
  "assistant_steps (xs @ ys) = assistant_steps xs + assistant_steps ys"
  by (simp add: assistant_steps_def)

lemma run_tools_steps:
  "run_tools env tcs st = (r, st') \<Longrightarrow> assistant_steps (history st') = assistant_steps (history st)"
proof (induction tcs arbitrary: st)
  case (Cons ta tcs)
  obtain tc args where ta: "ta = (tc, args)" by fastforce
  obtain c st1 where p: "poll_cancel env st = (c, st1)" by fastforce
  obtain e st2 where t: "run_tool env tc args st1 = (e, st2)" by fastforce
  have "assistant_steps (history st2) = assistant_steps (history st1)"
    using run_tool_frame[OF t] by (cases e) (auto simp: assistant_steps_def)
  then show ?case
    using Cons ta p t poll_cancel_frame[OF p] by (auto split: bool.splits option.splits)
qed simp

lemma run_step_steps:
  assumes "run_step env system st = (x, st')"
  shows "assistant_steps (history st') \<le> Suc (assistant_steps (history st))"
proof -
  obtain br st1 where c: "run_complete env system st = (br, st1)" by fastforce
  obtain k st2 where p: "poll_cancel env st1 = (k, st2)" by fastforce
  have "history st2 = history st" using run_complete_frame[OF c] poll_cancel_frame[OF p] by simp
  then show ?thesis
    using assms c p run_complete_frame[OF c]
    by (auto simp: run_step_def Let_def turn_simps assistant_steps_def assistant_message_def
        split: sum.splits bool.splits if_splits prod.splits option.splits
        dest!: run_tools_steps)
qed

lemma run_steps_steps:
  "run_steps n env system st = (x, st') \<Longrightarrow>
     assistant_steps (history st') \<le> n + assistant_steps (history st)"
proof (induction n arbitrary: st)
  case (Suc n)
  obtain y st1 where y: "run_step env system st = (y, st1)" by fastforce
  note S = run_step_steps[OF y]
  show ?case
  proof (cases y)
    case NextStep
    then have "run_steps n env system st1 = (x, st')" using Suc.prems y by simp
    from Suc.IH[OF this] S show ?thesis by simp
  qed (use Suc.prems y S in auto)
qed simp

lemma history_roll_back: "history (roll_back n st) = take n (history st)"
  by (simp add: roll_back_def)

lemma assistant_steps_take: "assistant_steps (take n ms) \<le> assistant_steps ms"
  by (metis append_take_drop_id assistant_steps_append le_add1)

text \<open>After the loop, the history is only kept or cut.\<close>

lemma run_turn_end:
  assumes "run_turn env prompt st = (r, st')" "turn_body env (begin_turn env prompt st) = (x, st1)"
  shows "history st' = history st1 \<or> history st' = take (length (history st)) (history st1)"
proof (cases x)
  case (Threw e)
  show ?thesis
  proof (cases e)
    case Undefined
    then show ?thesis using assms Threw by (simp add: run_turn_def Let_def)
  next
    case (Thrown m)
    obtain c1 st2 where p: "poll_cancel env st1 = (c1, st2)" by fastforce
    let ?st2 = "if c1 then st2 else emit [SinkWarning (''Error: '' @ m)] st2"
    obtain c2 st4 where q: "poll_cancel env (roll_back (length (history st)) ?st2) = (c2, st4)"
      by fastforce
    have "st' = st4" using assms Threw Thrown p q by (simp add: run_turn_def Let_def)
    then show ?thesis
      using poll_cancel_frame[OF q] poll_cancel_frame[OF p] by (simp add: history_roll_back turn_simps)
  qed
next
  case ReturnDone
  then show ?thesis using assms by (simp add: run_turn_def Let_def)
next
  case NextStep
  obtain c st2 where p: "poll_cancel env st1 = (c, st2)" by fastforce
  show ?thesis
    using assms NextStep p poll_cancel_frame[OF p]
    by (cases c) (auto simp: run_turn_def Let_def history_roll_back turn_simps)
next
  case LeaveLoop
  obtain c st2 where p: "poll_cancel env st1 = (c, st2)" by fastforce
  show ?thesis
    using assms LeaveLoop p poll_cancel_frame[OF p]
    by (cases c) (auto simp: run_turn_def Let_def history_roll_back turn_simps)
qed

lemma run_turn_steps:
  assumes "run_turn env prompt st = (r, st')"
  shows "assistant_steps (history st') \<le> max_steps + assistant_steps (history st)"
proof -
  let ?b = "begin_turn env prompt st"
  obtain x st1 where x: "turn_body env ?b = (x, st1)" by fastforce
  have b: "assistant_steps (history ?b) = assistant_steps (history st)"
    using begin_turn_frame[of env prompt st] by (simp add: assistant_steps_def)
  obtain system a ws where sp:
      "build_system_prompt (te_sys_world env (ts_world ?b)) (ts_agent ?b) = (system, a, ws)"
    by (metis prod_cases3)
  have s1: "assistant_steps (history st1) \<le> max_steps + assistant_steps (history st)"
  proof (cases system)
    case (Inl e)
    then show ?thesis
      using x sp b build_system_prompt_frame[OF sp] by (auto simp: turn_body_def turn_simps)
  next
    case (Inr s)
    then have "run_steps max_steps env s (emit ws (?b\<lparr>ts_agent := a\<rparr>)) = (x, st1)"
      using x sp by (simp add: turn_body_def)
    from run_steps_steps[OF this] b build_system_prompt_frame[OF sp]
    show ?thesis by (simp add: turn_simps)
  qed
  have fin: "assistant_steps (history st') \<le> assistant_steps (history st1)"
    using run_turn_end[OF assms x] assistant_steps_take[of _ "history st1"] by auto
  from fin s1 show ?thesis by simp
qed

section \<open>What the model is asked\<close>

text \<open>The histories a run of steps sends to the provider, with the cancel flag at that moment.\<close>

fun requests_of ::
    "nat \<Rightarrow> 'w turn_env \<Rightarrow> string \<Rightarrow> 'w turn_state \<Rightarrow> (bool \<times> message list) list" where
  "requests_of 0 env system st = []"
| "requests_of (Suc n) env system st =
     (ag_cancel (ts_agent st), history st) #
     (case run_step env system st of
        (NextStep, st') \<Rightarrow> requests_of n env system st'
      | _ \<Rightarrow> [])"

definition turn_requests :: "'w turn_env \<Rightarrow> string \<Rightarrow> 'w turn_state \<Rightarrow> (bool \<times> message list) list"
where
  "turn_requests env prompt st =
     (let b = begin_turn env prompt st;
          (system, a, ws) = build_system_prompt (te_sys_world env (ts_world b)) (ts_agent b)
      in case system of
           Inl e \<Rightarrow> []
         | Inr s \<Rightarrow> requests_of max_steps env s (emit ws (b\<lparr>ts_agent := a\<rparr>)))"

definition request_in_order :: "bool \<times> message list \<Rightarrow> bool" where
  "request_in_order q \<longleftrightarrow> fst q \<or> well_formed (snd q)"

lemma requests_in_order:
  "in_order st \<Longrightarrow> list_all request_in_order (requests_of n env system st)"
proof (induction n arbitrary: st)
  case (Suc n)
  obtain x st1 where x: "run_step env system st = (x, st1)" by fastforce
  note X = run_step_history[OF x]
  have "request_in_order (ag_cancel (ts_agent st), history st)"
    using Suc.prems by (simp add: request_in_order_def in_order_def well_formed_def)
  then show ?case
    using Suc.IH[of st1] X Suc.prems x by (auto split: step_exit.splits)
qed simp

lemma turn_requests_in_order:
  assumes "well_formed (history st)"
  shows "list_all request_in_order (turn_requests env prompt st)"
proof -
  let ?b = "begin_turn env prompt st"
  obtain system a ws where sp:
      "build_system_prompt (te_sys_world env (ts_world ?b)) (ts_agent ?b) = (system, a, ws)"
    by (metis prod_cases3)
  have "opened ?b = Some []"
    using begin_turn_frame[of env prompt st] assms by (simp add: well_formed_def open_after_append)
  then have "in_order (emit ws (?b\<lparr>ts_agent := a\<rparr>))"
    using build_system_prompt_frame[OF sp] by (simp add: in_order_def turn_simps)
  from requests_in_order[OF this] show ?thesis
    using sp by (auto simp: turn_requests_def Let_def split: sum.splits)
qed

section \<open>When a turn has a result code\<close>

text \<open>Running a turn is undefined only without a provider or when a tool or a source is.\<close>

definition no_undefined :: "'w turn_env \<Rightarrow> bool" where
  "no_undefined env \<longleftrightarrow> (\<forall>n j w. fst (te_exec env n j w) \<noteq> Inl Undefined)"

lemma rewrite_defined: "rewrite_tool_paths base j \<noteq> Inl Undefined"
proof -
  have "jset j' k v \<noteq> Inl Undefined" for j' k v
    by (cases "(j', k, v)" rule: jset.cases) (simp_all add: type_error_305_def)
  then show ?thesis
    by (auto simp: rewrite_tool_paths_def Let_def split: option.splits json.splits)
qed

lemma get_str_defined: "get_str v \<noteq> Inl Undefined"
  by (cases v) (simp_all add: type_error_302_def)

lemma run_tool_defined:
  assumes "no_undefined env"
  shows "fst (run_tool env tc args st) \<noteq> Some Undefined"
proof -
  have "fst (execute_tool env n j s) \<noteq> Inl Undefined" for n j s
  proof -
    have "te_exec env n i (ts_world s) \<noteq> (Inl Undefined, w)" for i w
      using assms unfolding no_undefined_def by (metis fst_conv)
    then show ?thesis
      using rewrite_defined
      by (auto simp: execute_tool_def Let_def split: option.splits sum.splits failure.splits prod.splits)
  qed
  moreover have "fst (track_file env n e i s) \<noteq> Some Undefined" for n e i s
    using get_str_defined
    by (auto simp: track_file_def Let_def split: option.splits sum.splits prod.splits if_splits)
  ultimately show ?thesis
    unfolding run_tool_def Let_def
    by (auto split: prod.splits sum.splits option.splits) (metis fst_conv)+
qed

lemma run_tools_defined:
  assumes "no_undefined env"
  shows "fst (run_tools env tcs st) \<noteq> Some Undefined"
proof (induction tcs arbitrary: st)
  case (Cons ta tcs)
  obtain tc args where ta: "ta = (tc, args)" by fastforce
  obtain c st1 where p: "poll_cancel env st = (c, st1)" by fastforce
  obtain e st2 where t: "run_tool env tc args st1 = (e, st2)" by fastforce
  have "e \<noteq> Some Undefined" using run_tool_defined[OF assms, of tc args st1] t by simp
  then show ?case using Cons ta p t by (auto split: bool.splits option.splits)
qed simp

lemma run_step_provider:
  assumes "run_step env system st = (x, st')" "ag_provider (ts_agent st) \<noteq> None"
  shows "ag_provider (ts_agent st') \<noteq> None"
proof -
  have tools: "run_tools env tcs s = (r, s') \<Longrightarrow> ag_provider (ts_agent s) \<noteq> None \<Longrightarrow>
      ag_provider (ts_agent s') \<noteq> None" for tcs s r s'
  proof (induction tcs arbitrary: s)
    case (Cons ta tcs)
    obtain tc args where ta: "ta = (tc, args)" by fastforce
    obtain c s1 where p: "poll_cancel env s = (c, s1)" by fastforce
    obtain e s2 where t: "run_tool env tc args s1 = (e, s2)" by fastforce
    have "ag_provider (ts_agent s2) = ag_provider (ts_agent s1)"
      using t by (auto simp: run_tool_def Let_def turn_simps split: prod.splits sum.splits option.splits
          dest!: execute_tool_frame track_file_frame)
    then show ?case
      using Cons ta p t poll_cancel_frame[OF p] by (auto split: bool.splits option.splits)
  qed simp
  obtain br st1 where c: "run_complete env system st = (br, st1)" by fastforce
  obtain k st2 where p: "poll_cancel env st1 = (k, st2)" by fastforce
  have "ag_provider (ts_agent st1) \<noteq> None" "ag_provider (ts_agent st2) \<noteq> None"
    using run_complete_frame[OF c] poll_cancel_frame[OF p] assms(2) by simp_all
  then show ?thesis
    using assms(1) c p
    by (auto simp: run_step_def Let_def turn_simps
        split: sum.splits bool.splits if_splits prod.splits option.splits dest!: tools)
qed

text \<open>The calls a step makes of a provider's events, and when none of them is undefined.\<close>

definition step_calls :: "'w turn_env \<Rightarrow> stream_event list \<Rightarrow> (active_call \<times> json) list" where
  "step_calls env events = map (\<lambda>tc. (tc, call_input env tc)) (br_calls (bridge_run events))"

definition calls_defined :: "'w turn_env \<Rightarrow> bool" where
  "calls_defined env \<longleftrightarrow> (\<forall>ms defs sys p w st.
     fst (run_tools env (step_calls env (fst (fst (te_complete env ms defs sys p w)))) st) \<noteq> Some Undefined)"

lemma no_undefined_calls: "no_undefined env \<Longrightarrow> calls_defined env"
  unfolding calls_defined_def by (intro allI run_tools_defined)

lemma run_step_defined:
  assumes "calls_defined env" "ag_provider (ts_agent st) \<noteq> None"
  shows "fst (run_step env system st) \<noteq> Threw Undefined"
proof -
  obtain p where p: "ag_provider (ts_agent st) = Some p" using assms(2) by blast
  obtain es err pt ct w where c: "te_complete env (ag_messages (ts_agent st))
      (registry_definitions (ag_registry (ts_agent st))) system p (ts_world st) = ((es, err, pt, ct), w)"
    by (metis prod.collapse)
  then have "fst (run_tools env (step_calls env es) s) \<noteq> Some Undefined" for s
    using assms(1) unfolding calls_defined_def by (metis fst_conv)
  then have d: "run_tools env (step_calls env es) s \<noteq> (Some Undefined, s')" for s s' by (metis fst_conv)
  show ?thesis
  proof (cases err)
    case None
    obtain st1 where r: "run_complete env system st = (Inl (bridge_run es), st1)"
      by (simp add: run_complete_def p c None)
    obtain k st2 where "poll_cancel env st1 = (k, st2)" by fastforce
    with d show ?thesis
      by (cases k) (auto simp: run_step_def r Let_def step_calls_def split: prod.splits option.splits)
  qed (simp add: run_step_def run_complete_def p c)
qed

lemma run_steps_defined:
  assumes "calls_defined env"
  shows "ag_provider (ts_agent st) \<noteq> None \<Longrightarrow> fst (run_steps n env system st) \<noteq> Threw Undefined"
proof (induction n arbitrary: st)
  case (Suc n)
  obtain x st1 where x: "run_step env system st = (x, st1)" by fastforce
  have "x \<noteq> Threw Undefined" using run_step_defined[OF assms Suc.prems, of system] x by simp
  then show ?case
    using Suc.IH[of st1] run_step_provider[OF x Suc.prems] x by (auto split: step_exit.splits)
qed simp

lemma run_turn_defined:
  assumes "calls_defined env" "ag_provider (ts_agent st) \<noteq> None"
    and "ag_ctx_registry (ts_agent st) = builtin_registry w0"
  shows "\<exists>rc. fst (run_turn env prompt st) = Inr rc"
proof -
  let ?b = "begin_turn env prompt st"
  have r: "ag_ctx_registry (ts_agent ?b) = builtin_registry w0"
    using assms(3) by (simp add: begin_turn_def Let_def drain_swarm_text_def push_message_def
        add_message_def split: prod.splits)
  obtain system a ws where sp:
      "build_system_prompt (te_sys_world env (ts_world ?b)) (ts_agent ?b) = (system, a, ws)"
    by (metis prod_cases3)
  have s: "system \<noteq> Inl Undefined"
    using build_system_prompt_defined[OF r, of "te_sys_world env (ts_world ?b)"] sp by simp
  have "ag_provider a \<noteq> None"
    using build_system_prompt_frame[OF sp] begin_turn_frame[of env prompt st] assms(2) by simp
  then have p: "ag_provider (ts_agent (emit ws (?b\<lparr>ts_agent := a\<rparr>))) \<noteq> None"
    by (simp add: turn_simps)
  have "fst (turn_body env ?b) \<noteq> Threw Undefined"
    using s sp run_steps_defined[OF assms(1) p]
    by (cases system) (simp_all add: turn_body_def Let_def)
  then show ?thesis
    by (auto simp: run_turn_def Let_def split: prod.splits step_exit.splits failure.splits bool.splits)
qed

section \<open>A session of turns\<close>

text \<open>
  What a caller that holds an agent relies on: a turn keeps the conversation well-formed. Whoever
  provides such turns provides a well-formed conversation after any series of them.
\<close>

locale conversation =
  fixes take_turn :: "string \<Rightarrow> 's \<Rightarrow> 's"
    and forget :: "'s \<Rightarrow> 's"
    and talk :: "'s \<Rightarrow> message list"
  assumes turn_wf: "well_formed (talk s) \<Longrightarrow> well_formed (talk (take_turn p s))"
    and forget_talk: "talk (forget s) = []"
begin

text \<open>\<open>None\<close> is a \<open>/clear\<close>.\<close>

definition act :: "string option \<Rightarrow> 's \<Rightarrow> 's" where
  "act p s = (case p of Some t \<Rightarrow> take_turn t s | None \<Rightarrow> forget s)"

lemma session_wf: "well_formed (talk s) \<Longrightarrow> well_formed (talk (fold act ps s))"
  by (induction ps arbitrary: s) (auto simp: act_def turn_wf forget_talk split: option.splits)

lemma cleared: "talk (fold act (ps @ [None]) s) = []"
  by (simp add: act_def forget_talk)

end

text \<open>An agent with its environment; \<open>None\<close> once a turn has run into undefined behaviour.\<close>

type_synonym 'w session = "('w turn_env \<times> 'w turn_state) option"

definition session_turn :: "string \<Rightarrow> 'w session \<Rightarrow> 'w session" where
  "session_turn p s =
     (case s of
        None \<Rightarrow> None
      | Some (env, st) \<Rightarrow>
          (case run_turn env p st of (Inr rc, st') \<Rightarrow> Some (env, st') | (Inl e, st') \<Rightarrow> None))"

definition session_clear :: "'w session \<Rightarrow> 'w session" where
  "session_clear s = map_option (\<lambda>(env, st). (env, st\<lparr>ts_agent := clear_messages (ts_agent st)\<rparr>)) s"

definition session_talk :: "'w session \<Rightarrow> message list" where
  "session_talk s = (case s of None \<Rightarrow> [] | Some (env, st) \<Rightarrow> history st)"

interpretation served: conversation session_turn session_clear session_talk
proof
  show "well_formed (session_talk (session_turn p s))" if "well_formed (session_talk s)"
    for s :: "'w session" and p
    using that
    by (auto simp: session_turn_def session_talk_def intro: run_turn_wf
        split: option.splits prod.splits sum.splits)
  show "session_talk (session_clear s) = []" for s :: "'w session"
    by (auto simp: session_talk_def session_clear_def clear_messages_def split: option.splits)
qed

section \<open>Properties\<close>

text \<open>C3: A turn on a well-formed conversation leaves a well-formed one that extends it. Its code is 0, 1
  or 2; 2 (cancelled) leaves the conversation as it was, 0 ends it with an assistant message that
  calls no tool.\<close>

theorem turn_outcome:
  assumes "well_formed (ag_messages (ts_agent st))" and "run_turn env prompt st = (Inr rc, st')"
  shows "well_formed (ag_messages (ts_agent st')) \<and>
    prefix (ag_messages (ts_agent st)) (ag_messages (ts_agent st')) \<and> rc \<in> {0, 1, 2} \<and>
    (rc = 2 \<longrightarrow> ag_messages (ts_agent st') = ag_messages (ts_agent st)) \<and>
    (rc = 0 \<longrightarrow> (\<exists>ms t. ag_messages (ts_agent st') = ms @ [assistant_message t []]))"
  by (rule run_turn_history[OF assms])

text \<open>A scripted environment: the world lists the streams the provider answers with; no tool
  fails and nobody cancels.\<close>

definition script_env :: "stream_event list list turn_env" where
  "script_env =
     \<lparr>te_complete = (\<lambda>ms defs sys p w. case w of
          [] \<Rightarrow> (([], Some ''no more answers'', 0, 0), []) | es # w' \<Rightarrow> ((es, None, 1, 2), w')),
      te_exec = (\<lambda>n j w. (Inr ''done'', w)), te_parse = (\<lambda>s. Some (JObj [])),
      te_cancelled = (\<lambda>w. (False, w)), te_connected = (\<lambda>w. (False, w)),
      te_register_read = (\<lambda>p w. w), te_report_write = (\<lambda>p w. w),
      te_sys_world = (\<lambda>w. sample_world)\<rparr>"

definition script_agent :: agent where
  "script_agent =
     \<lparr>ag_provider = Some \<lparr>p_name = ''scripted'', p_api_key = [], p_model = ''m'', p_prompt_tokens = 0,
                         p_completion_tokens = 0, p_cancel = False, p_context_cache = []\<rparr>,
      ag_messages = [], ag_system_prompt = ''sys'',
      ag_registry = [(''ls'', \<lparr>td_name = ''ls'', td_description = [], td_input_schema = JNull\<rparr>)],
      ag_ctx_registry = [], ag_ctx_snapshot = [], ag_ctx_text = [], ag_ctx_initialized = False,
      ag_tool_cwd_base = [], ag_swarm = False, ag_inbox = [], ag_cancel = False\<rparr>"

definition script_start :: "stream_event list list turn_state" where
  "script_start =
     \<lparr>ts_agent = script_agent, ts_sink = [],
      ts_world = [[ToolUseStart 0 ''c1'' ''ls'', MessageEnd ''tool_calls''], [TextDelta ''two files'']]\<rparr>"

theorem turn_outcome_witness:
  "case run_turn script_env ''list'' script_start of
     (Inr rc, st') \<Rightarrow> rc = 0 \<and> well_formed (ag_messages (ts_agent st')) \<and>
        length (ag_messages (ts_agent st')) = 4
   | (Inl e, st') \<Rightarrow> False"
proof -
  have v: "case run_turn script_env ''list'' script_start of
      (Inr rc, st') \<Rightarrow> rc = 0 \<and> length (ag_messages (ts_agent st')) = 4 | (Inl e, st') \<Rightarrow> False"
    by code_simp
  then obtain rc st' where r: "run_turn script_env ''list'' script_start = (Inr rc, st')"
    by (auto split: prod.splits sum.splits)
  have "well_formed (ag_messages (ts_agent script_start))"
    by (simp add: script_start_def script_agent_def)
  from turn_outcome[OF this r] v r show ?thesis by simp
qed

text \<open>A turn makes at most ten model steps, so it adds at most ten assistant messages.\<close>

theorem turn_step_bound:
  "assistant_steps (ag_messages (ts_agent (snd (run_turn env prompt st)))) \<le>
     10 + assistant_steps (ag_messages (ts_agent st))"
  using run_turn_steps[of env prompt st "fst (run_turn env prompt st)" "snd (run_turn env prompt st)"]
  by (simp add: max_steps_def)

text \<open>Every history a turn sends to the provider is well-formed, unless the turn has been cancelled
  before that request.\<close>

theorem turn_requests_well_formed:
  assumes "well_formed (ag_messages (ts_agent st))"
  shows "list_all request_in_order (turn_requests env prompt st)"
  by (rule turn_requests_in_order[OF assms])

theorem turn_requests_well_formed_witness:
  "list_all request_in_order (turn_requests script_env ''list'' script_start) \<and>
   length (turn_requests script_env ''list'' script_start) = 2"
proof
  show "list_all request_in_order (turn_requests script_env ''list'' script_start)"
    by (rule turn_requests_well_formed) (simp add: script_start_def script_agent_def)
  show "length (turn_requests script_env ''list'' script_start) = 2" by code_simp
qed

text \<open>C4: With a provider, and tools free of undefined behaviour, a turn of an agent with the built-in
  sources always returns a result code, whatever the provider and the tools answer or throw.\<close>

theorem turn_returns:
  assumes "ag_provider (ts_agent st) \<noteq> None" and "no_undefined env"
    and "ag_ctx_registry (ts_agent st) = builtin_registry w0"
  shows "\<exists>rc. fst (run_turn env prompt st) = Inr rc"
  by (rule run_turn_defined[OF no_undefined_calls[OF assms(2)] assms(1,3)])

theorem turn_returns_witness:
  "\<exists>rc. fst (run_turn script_env ''list''
     (script_start\<lparr>ts_agent := script_agent\<lparr>ag_ctx_registry := builtin_registry sample_world\<rparr>\<rparr>)) = Inr rc"
  by (rule turn_returns)
     (simp_all add: script_agent_def script_start_def no_undefined_def script_env_def)

text \<open>Whatever series of prompts and \<open>/clear\<close>s an agent has been through, its conversation is
  well-formed.\<close>

theorem session_stays_well_formed:
  assumes "well_formed (session_talk s)"
  shows "well_formed (session_talk
    (fold (\<lambda>p s. case p of Some t \<Rightarrow> session_turn t s | None \<Rightarrow> session_clear s) ps s))"
  using served.session_wf[OF assms, of ps] unfolding served.act_def[abs_def] .

theorem session_stays_well_formed_witness:
  "well_formed (session_talk (fold
     (\<lambda>p s. case p of Some t \<Rightarrow> session_turn t s | None \<Rightarrow> session_clear s)
     [Some ''list'', Some ''again'', None, Some ''more''] (Some (script_env, script_start))))"
  by (rule session_stays_well_formed) (simp add: session_talk_def script_start_def script_agent_def)

end
