(* ===== verification/Swarm_State.thy ===== *)
theory Swarm_State
  imports Agent_Turn Wire
begin

text \<open>
  The state of the swarm daemon and the operations on it that hold its lock (\<open>src/server/server.h\<close>,
  \<open>server.cpp\<close>): sending to a client, conflict tracking, the file watch, message routing, clients and
  agent slots, and \<open>PeerView\<close>, through which a hosted agent uses them.
\<close>

section \<open>State\<close>

record watched_file =
  wf_watched :: bool
  wf_exists :: bool
  wf_mtime :: nat
  wf_size :: nat
  wf_hash :: string

record client =
  cl_id :: string
  cl_name :: string
  cl_repo :: string
  cl_fd :: int

record agent_slot =
  sl_agent :: agent
  sl_busy :: bool

text \<open>
  \<open>sv_running\<close> are the turn threads with the prompt each was started with; \<open>sv_out\<close> the frames handed
  to \<open>send_json\<close>, with their socket.
\<close>

record server =
  sv_clients :: "(string, client) omap"
  sv_repo_members :: "(string, string list) omap"
  sv_read_hashes :: "(string, (string, string) omap) omap"
  sv_file_state :: "(string, watched_file) omap"
  sv_agents :: "(string, agent_slot) omap"
  sv_running :: "(string \<times> string) list"
  sv_api_key :: string
  sv_solo :: bool
  sv_closing :: bool
  sv_out :: "(int \<times> json) list"

definition new_server :: "string \<Rightarrow> bool \<Rightarrow> server" where
  "new_server api_key solo =
     \<lparr>sv_clients = [], sv_repo_members = [], sv_read_hashes = [], sv_file_state = [],
      sv_agents = [], sv_running = [], sv_api_key = api_key, sv_solo = solo, sv_closing = False,
      sv_out = []\<rparr>"

text \<open>A file as \<open>stat\<close> and \<open>open\<close> see it: \<open>None\<close> bytes cannot be read.\<close>

record disk_file =
  df_mtime :: nat
  df_size :: nat
  df_bytes :: "string option"

text \<open>What a step of the daemon asks of the outside.\<close>

record server_env =
  se_disk :: "string \<Rightarrow> disk_file option"
  se_now :: string
  se_canon :: "string \<Rightarrow> string \<Rightarrow> string"
  se_query :: "string \<Rightarrow> int"
  se_tool_def :: "string \<Rightarrow> tool_definition"
  se_sys_world :: sys_world
  se_parse :: "string \<Rightarrow> json option"
  se_fd_ok :: "int \<Rightarrow> bool"

definition disk_hash :: "server_env \<Rightarrow> string \<Rightarrow> string" where
  "disk_hash env path =
     hash_file (case se_disk env path of None \<Rightarrow> None | Some f \<Rightarrow> df_bytes f)"

section \<open>Sending\<close>

definition send_to :: "server_env \<Rightarrow> string \<Rightarrow> json \<Rightarrow> server \<Rightarrow> bool \<times> server" where
  "send_to env i msg s =
     (case om_get (sv_clients s) i of
        None \<Rightarrow> (False, s)
      | Some c \<Rightarrow>
          if cl_fd c < 0 then (False, s)
          else (se_fd_ok env (cl_fd c), s\<lparr>sv_out := sv_out s @ [(cl_fd c, msg)]\<rparr>))"

definition send_only :: "server_env \<Rightarrow> string \<Rightarrow> json \<Rightarrow> server \<Rightarrow> server" where
  "send_only env i msg s = snd (send_to env i msg s)"

section \<open>The file watch\<close>

definition stat_watch :: "server_env \<Rightarrow> string \<Rightarrow> watched_file" where
  "stat_watch env path =
     (case se_disk env path of
        None \<Rightarrow> \<lparr>wf_watched = True, wf_exists = False, wf_mtime = 0, wf_size = 0, wf_hash = []\<rparr>
      | Some f \<Rightarrow> \<lparr>wf_watched = True, wf_exists = True, wf_mtime = df_mtime f, wf_size = df_size f,
                  wf_hash = disk_hash env path\<rparr>)"

definition refresh_watch :: "server_env \<Rightarrow> string \<Rightarrow> server \<Rightarrow> server" where
  "refresh_watch env path s =
     s\<lparr>sv_file_state := om_put path (stat_watch env path) (sv_file_state s)\<rparr>"

text \<open>One watched file in one round of the poller: its new baseline and the hash to announce.\<close>

definition poll_file :: "server_env \<Rightarrow> string \<Rightarrow> watched_file \<Rightarrow> watched_file \<times> string option" where
  "poll_file env path wt =
     (if \<not> wf_watched wt then (wt, None)
      else case se_disk env path of
        None \<Rightarrow>
          ((if wf_exists wt then wt\<lparr>wf_exists := False, wf_mtime := 0, wf_size := 0, wf_hash := []\<rparr>
            else wt), None)
      | Some f \<Rightarrow>
          let dirty = (\<not> wf_exists wt \<or> df_mtime f \<noteq> wf_mtime wt \<or> df_size f \<noteq> wf_size wt);
              old_hash = wf_hash wt;
              hash = (if dirty \<or> wf_hash wt = [] then disk_hash env path else wf_hash wt)
          in (wt\<lparr>wf_exists := True, wf_mtime := df_mtime f, wf_size := df_size f, wf_hash := hash\<rparr>,
              if old_hash \<noteq> [] \<and> hash \<noteq> [] \<and> hash \<noteq> old_hash then Some hash else None))"

section \<open>Conflicts\<close>

text \<open>The readers of a path are told of a new hash unless they made the change or know it already.\<close>

definition readers_of :: "string \<Rightarrow> server \<Rightarrow> (string, string) omap" where
  "readers_of path s = (case om_get (sv_read_hashes s) path of None \<Rightarrow> [] | Some m \<Rightarrow> m)"

definition update_conflict_state ::
    "server_env \<Rightarrow> string \<Rightarrow> string \<Rightarrow> string \<Rightarrow> server \<Rightarrow> string list \<times> server" where
  "update_conflict_state env path new_hash who s =
     (let reads = readers_of path s;
          notify = map fst (filter (\<lambda>(i, had). i \<noteq> who \<and> had \<noteq> new_hash) reads);
          reads' = map (\<lambda>(i, had). (i, new_hash)) reads
      in (notify, refresh_watch env path
            (s\<lparr>sv_read_hashes := om_put path reads' (sv_read_hashes s)\<rparr>)))"

definition deliver_inbox :: "string \<Rightarrow> string \<Rightarrow> json \<Rightarrow> server \<Rightarrow> server" where
  "deliver_inbox i ty msg s =
     (case om_get (sv_agents s) i of
        None \<Rightarrow> s
      | Some slot \<Rightarrow>
          if \<not> ag_swarm (sl_agent slot) then s
          else (case receive_swarm ty msg (sl_agent slot) of
              Inl _ \<Rightarrow> s
            | Inr (shown, a) \<Rightarrow>
                s\<lparr>sv_agents := om_put i (slot\<lparr>sl_agent := a\<rparr>) (sv_agents s)\<rparr>))"

definition notify_file_changed ::
    "server_env \<Rightarrow> string \<Rightarrow> string \<Rightarrow> string \<Rightarrow> server \<Rightarrow> server" where
  "notify_file_changed env path new_hash who s =
     (let (notify, s') = update_conflict_state env path new_hash who s;
          notice = conflict_notice path who (se_now env) new_hash
      in fold (\<lambda>i. deliver_inbox i ''conflict'' notice) notify s')"

definition record_read :: "server_env \<Rightarrow> string \<Rightarrow> string \<Rightarrow> string \<Rightarrow> server \<Rightarrow> server" where
  "record_read env path i hash s =
     refresh_watch env path
       (s\<lparr>sv_read_hashes := om_put path (om_put i hash (readers_of path s)) (sv_read_hashes s)\<rparr>)"

text \<open>One round of the poller: first every baseline, then the announcements.\<close>

fun poll_changes :: "server_env \<Rightarrow> (string, watched_file) omap \<Rightarrow> (string \<times> string) list" where
  "poll_changes env [] = []"
| "poll_changes env ((path, wt) # fs) =
     (case snd (poll_file env path wt) of None \<Rightarrow> [] | Some h \<Rightarrow> [(path, h)]) @ poll_changes env fs"

definition poll_states :: "server_env \<Rightarrow> (string, watched_file) omap \<Rightarrow> (string, watched_file) omap"
where
  "poll_states env fs = map (\<lambda>(path, wt). (path, fst (poll_file env path wt))) fs"

definition poll_tick :: "server_env \<Rightarrow> server \<Rightarrow> server" where
  "poll_tick env s =
     fold (\<lambda>(path, h). notify_file_changed env path h ''fs'') (poll_changes env (sv_file_state s))
       (s\<lparr>sv_file_state := poll_states env (sv_file_state s)\<rparr>)"

section \<open>Messages between clients\<close>

definition route_targets :: "string \<Rightarrow> string \<Rightarrow> server \<Rightarrow> string list" where
  "route_targets sender to s =
     (case om_get (sv_clients s) sender of
        None \<Rightarrow> []
      | Some c \<Rightarrow>
          if to = ''all'' then filter (\<lambda>i. i \<noteq> sender) (om_keys (sv_clients s))
          else if to = ''repo'' then
            (case om_get (sv_repo_members s) (cl_repo c) of
               None \<Rightarrow> [] | Some ids \<Rightarrow> filter (\<lambda>i. i \<noteq> sender) ids)
          else if om_get (sv_clients s) to \<noteq> None \<and> to \<noteq> sender then [to] else [])"

definition route_message :: "server_env \<Rightarrow> string \<Rightarrow> string \<Rightarrow> string \<Rightarrow> server \<Rightarrow> server" where
  "route_message env sender to t s =
     (case om_get (sv_clients s) sender of
        None \<Rightarrow> s
      | Some c \<Rightarrow>
          fold (\<lambda>i. deliver_inbox i ''msg'' (msg_notice (cl_name c) t (se_now env)))
            (route_targets sender to s) s)"

section \<open>Clients and agent slots\<close>

definition all_peers :: "server \<Rightarrow> json list" where
  "all_peers s = map (\<lambda>(i, c). agent_info i (cl_name c) (cl_repo c)) (sv_clients s)"

definition members_of :: "string \<Rightarrow> server \<Rightarrow> string list" where
  "members_of repo s = (case om_get (sv_repo_members s) repo of None \<Rightarrow> [] | Some ids \<Rightarrow> ids)"

definition hello_register :: "string \<Rightarrow> string \<Rightarrow> string \<Rightarrow> int \<Rightarrow> server \<Rightarrow> json list \<times> server" where
  "hello_register i name repo fd s =
     (let s' = s\<lparr>sv_clients :=
                   om_put i \<lparr>cl_id = i, cl_name = name, cl_repo = repo, cl_fd = fd\<rparr> (sv_clients s),
                 sv_repo_members :=
                   om_put repo (members_of repo s @ [i]) (sv_repo_members s)\<rparr>
      in (all_peers s', s'))"

definition remove_client :: "string \<Rightarrow> server \<Rightarrow> server" where
  "remove_client i s =
     (case om_get (sv_clients s) i of
        None \<Rightarrow> s
      | Some c \<Rightarrow>
          let members = (case om_get (sv_repo_members s) (cl_repo c) of
                None \<Rightarrow> sv_repo_members s
              | Some ids \<Rightarrow>
                  let ids' = removeAll i ids
                  in if ids' = [] then om_del (cl_repo c) (sv_repo_members s)
                     else om_put (cl_repo c) ids' (sv_repo_members s));
              agents = (case om_get (sv_agents s) i of
                Some slot \<Rightarrow> if sl_busy slot then sv_agents s else om_del i (sv_agents s)
              | None \<Rightarrow> sv_agents s)
          in s\<lparr>sv_read_hashes := map (\<lambda>(path, reads). (path, om_del i reads)) (sv_read_hashes s),
               sv_repo_members := members,
               sv_clients := om_del i (sv_clients s),
               sv_agents := agents\<rparr>)"

definition openrouter_provider :: "string \<Rightarrow> provider" where
  "openrouter_provider api_key =
     \<lparr>p_name = ''openrouter'', p_api_key = api_key, p_model = ''inclusionai/ling-3.0-flash-vl:free'',
      p_prompt_tokens = 0, p_completion_tokens = 0, p_cancel = False, p_context_cache = []\<rparr>"

definition make_provider :: "string \<Rightarrow> string \<Rightarrow> provider option" where
  "make_provider prov api_key =
     (if prov \<noteq> ''openrouter'' \<or> api_key = [] then None else Some (openrouter_provider api_key))"

definition create_agent_slot ::
    "server_env \<Rightarrow> string \<Rightarrow> string \<Rightarrow> server \<Rightarrow> server outcome" where
  "create_agent_slot env i repo s =
     bind_outcome
       (new_agent (se_tool_def env) (se_sys_world env) (make_provider ''openrouter'' (sv_api_key s)))
       (\<lambda>a. Inr (s\<lparr>sv_agents :=
          om_put i \<lparr>sl_agent = attach_swarm (se_tool_def env) True True (set_tool_cwd_base repo a),
                    sl_busy = False\<rparr> (sv_agents s)\<rparr>))"

definition tool_entry :: "tool_definition \<Rightarrow> json" where
  "tool_entry d =
     jobj [(''name'', JStr (td_name d)), (''description'', JStr (td_description d)),
           (''parameters'', td_input_schema d)]"

definition send_state :: "server_env \<Rightarrow> string \<Rightarrow> server \<Rightarrow> server" where
  "send_state env i s =
     (case om_get (sv_agents s) i of
        None \<Rightarrow> s
      | Some slot \<Rightarrow>
          let a = sl_agent slot;
              (ctx_total, a') = agent_context_window (se_query env) a;
              tools = map tool_entry (registry_definitions (ag_registry a))
          in send_only env i
               (state_packet (agent_provider_name a) (agent_model a) (JArr tools) ctx_total)
               (s\<lparr>sv_agents := om_put i (slot\<lparr>sl_agent := a'\<rparr>) (sv_agents s)\<rparr>))"

definition on_agent :: "string \<Rightarrow> (agent \<Rightarrow> agent) \<Rightarrow> server \<Rightarrow> server" where
  "on_agent i f s =
     (case om_get (sv_agents s) i of
        None \<Rightarrow> s
      | Some slot \<Rightarrow> s\<lparr>sv_agents := om_put i (slot\<lparr>sl_agent := f (sl_agent slot)\<rparr>) (sv_agents s)\<rparr>)"

definition clear_agent_history :: "string \<Rightarrow> server \<Rightarrow> server" where
  "clear_agent_history i s = on_agent i clear_messages s"

definition set_agent_model :: "server_env \<Rightarrow> string \<Rightarrow> string \<Rightarrow> server \<Rightarrow> server" where
  "set_agent_model env i model s =
     (if model = [] then s
      else if om_get (sv_agents s) i = None then s
      else send_state env i (on_agent i (set_model model) s))"

definition warning_packet :: "string \<Rightarrow> json" where
  "warning_packet t = stream_packet (jobj [(''event'', JStr ''warning''), (''text'', JStr t)])"

definition set_agent_credentials ::
    "server_env \<Rightarrow> string \<Rightarrow> string \<Rightarrow> string \<Rightarrow> server \<Rightarrow> server" where
  "set_agent_credentials env i prov api_key s =
     (if om_get (sv_agents s) i = None then s
      else case make_provider prov api_key of
        None \<Rightarrow> send_only env i
          (warning_packet (''unsupported provider '' @ [squote] @ prov @ [squote])) s
      | Some p \<Rightarrow>
          send_state env i ((on_agent i (set_provider (Some p)) s)\<lparr>sv_api_key := api_key\<rparr>))"

section \<open>The view of a hosted agent\<close>

definition peer_knows :: "string \<Rightarrow> string \<Rightarrow> server \<Rightarrow> bool" where
  "peer_knows me i s \<longleftrightarrow> i \<noteq> me \<and> om_get (sv_clients s) i \<noteq> None"

definition peer_send_message ::
    "server_env \<Rightarrow> string \<Rightarrow> string \<Rightarrow> string \<Rightarrow> server \<Rightarrow> bool \<times> server" where
  "peer_send_message env me to t s =
     (if to = [] \<or> t = [] then (False, s) else (True, route_message env me to t s))"

definition peer_peers :: "string \<Rightarrow> server \<Rightarrow> json list" where
  "peer_peers me s =
     map (\<lambda>(i, c). agent_info i (cl_name c) (cl_repo c))
       (filter (\<lambda>(i, c). i \<noteq> me) (sv_clients s))"

definition peer_register_read :: "server_env \<Rightarrow> string \<Rightarrow> string \<Rightarrow> server \<Rightarrow> bool \<times> server" where
  "peer_register_read env me path s =
     (let hash = disk_hash env path
      in if hash = [] then (False, s) else (True, record_read env path me hash s))"

definition peer_report_write :: "server_env \<Rightarrow> string \<Rightarrow> string \<Rightarrow> server \<Rightarrow> bool \<times> server" where
  "peer_report_write env me path s =
     (let hash = disk_hash env path
      in if hash = [] then (False, s) else (True, notify_file_changed env path hash me s))"

section \<open>Who is told, and what they see\<close>

named_theorems server_simps

lemma receive_swarm_frame:
  assumes "receive_swarm ty msg a = Inr (l, a')"
  shows "\<exists>box. a' = a\<lparr>ag_inbox := box\<rparr>"
proof (cases "swarm_line ty msg")
  case (Inl e)
  then show ?thesis using assms by (simp add: receive_swarm_def)
next
  case (Inr line)
  have same: "\<exists>box. a = a\<lparr>ag_inbox := box\<rparr>" by (rule exI[of _ "ag_inbox a"]) simp
  show ?thesis
  proof (cases line)
    case None
    then have "a' = a" using assms Inr by (simp add: receive_swarm_def)
    then show ?thesis using same by (simp only:)
  next
    case (Some x)
    then have "a' = (if length (ag_inbox a) < inbox_cap then a\<lparr>ag_inbox := ag_inbox a @ [x]\<rparr> else a)"
      using assms Inr by (simp add: receive_swarm_def)
    then show ?thesis using same by (cases "length (ag_inbox a) < inbox_cap") auto
  qed
qed

lemma receive_swarm_line:
  "swarm_line ty msg = Inr (Some line) \<Longrightarrow>
     receive_swarm ty msg a = Inr ([line],
       if length (ag_inbox a) < inbox_cap then a\<lparr>ag_inbox := ag_inbox a @ [line]\<rparr> else a)"
  by (simp add: receive_swarm_def)

lemma deliver_inbox_frame [server_simps]:
  "sv_clients (deliver_inbox i ty msg s) = sv_clients s"
  "sv_repo_members (deliver_inbox i ty msg s) = sv_repo_members s"
  "sv_read_hashes (deliver_inbox i ty msg s) = sv_read_hashes s"
  "sv_file_state (deliver_inbox i ty msg s) = sv_file_state s"
  "sv_running (deliver_inbox i ty msg s) = sv_running s"
  "sv_closing (deliver_inbox i ty msg s) = sv_closing s"
  "sv_out (deliver_inbox i ty msg s) = sv_out s"
  by (simp_all add: deliver_inbox_def split: option.splits sum.splits)

definition listening :: "string \<Rightarrow> server \<Rightarrow> bool" where
  "listening i s \<longleftrightarrow> (case om_get (sv_agents s) i of None \<Rightarrow> False | Some sl \<Rightarrow> ag_swarm (sl_agent sl))"

definition inbox_of :: "string \<Rightarrow> server \<Rightarrow> string list" where
  "inbox_of i s = (case om_get (sv_agents s) i of None \<Rightarrow> [] | Some sl \<Rightarrow> ag_inbox (sl_agent sl))"

text \<open>An inbox takes a line while it holds fewer than 64.\<close>

definition with_line :: "string \<Rightarrow> string list \<Rightarrow> string list" where
  "with_line line box = (if length box < inbox_cap then box @ [line] else box)"

lemma deliver_inbox_inbox:
  assumes "swarm_line ty msg = Inr (Some line)"
  shows "inbox_of j (deliver_inbox i ty msg s) =
      (if j = i \<and> listening i s then with_line line (inbox_of i s) else inbox_of j s) \<and>
    (listening j (deliver_inbox i ty msg s) \<longleftrightarrow> listening j s)"
  using receive_swarm_line[OF assms]
  by (auto simp: deliver_inbox_def listening_def inbox_of_def with_line_def om_get_put
      split: option.splits)

lemma deliver_all_frame [server_simps]:
  "sv_clients (fold (\<lambda>i. deliver_inbox i ty msg) ids s) = sv_clients s"
  "sv_repo_members (fold (\<lambda>i. deliver_inbox i ty msg) ids s) = sv_repo_members s"
  "sv_read_hashes (fold (\<lambda>i. deliver_inbox i ty msg) ids s) = sv_read_hashes s"
  "sv_file_state (fold (\<lambda>i. deliver_inbox i ty msg) ids s) = sv_file_state s"
  "sv_running (fold (\<lambda>i. deliver_inbox i ty msg) ids s) = sv_running s"
  "sv_closing (fold (\<lambda>i. deliver_inbox i ty msg) ids s) = sv_closing s"
  "sv_out (fold (\<lambda>i. deliver_inbox i ty msg) ids s) = sv_out s"
  by (induction ids arbitrary: s) (simp_all add: server_simps)

lemma deliver_all_inbox:
  assumes "swarm_line ty msg = Inr (Some line)" "distinct ids"
  shows "inbox_of j (fold (\<lambda>i. deliver_inbox i ty msg) ids s) =
      (if j \<in> set ids \<and> listening j s then with_line line (inbox_of j s) else inbox_of j s)"
  using assms(2) by (induction ids arbitrary: s) (auto simp: deliver_inbox_inbox[OF assms(1)])

lemma msg_notice_line:
  "swarm_line ''msg'' (msg_notice sender t at) = Inr (Some (''[swarm] <'' @ sender @ ''> '' @ t))"
  by (simp add: swarm_line_def value_of_def msg_notice_def frame_def jobj_def om_get_def)

lemma conflict_notice_line:
  "swarm_line ''conflict'' (conflict_notice path who at hash) =
     Inr (Some (''[swarm] conflict: '' @ path @ '' was changed by '' @ who @ '' at '' @ at))"
  by (simp add: swarm_line_def value_of_def conflict_notice_def frame_def jobj_def om_get_def)

lemma om_get_map_keys: "om_get (map (\<lambda>(i, x). (i, f i x)) m) i = map_option (f i) (om_get m i)"
  by (induction m) (auto simp: om_get_def)

lemma om_del_Nil [simp]: "om_del i [] = []"
  by (simp add: om_del_def)

lemma om_keys_map [simp]: "om_keys (map (\<lambda>(i, x). (i, f i x)) m) = om_keys m"
  by (auto simp: om_keys_def)

lemma om_ok_map: "om_ok m \<Longrightarrow> om_ok (map (\<lambda>(i, x). (i, f i x)) m)"
  by (simp add: om_ok_def)

lemma om_get_mem: "distinct (om_keys m) \<Longrightarrow> om_get m i = Some x \<longleftrightarrow> (i, x) \<in> set m"
  by (simp add: om_get_def om_keys_def)

lemma refresh_watch_simps [server_simps]:
  "readers_of p (refresh_watch env path s) = readers_of p s"
  "sv_clients (refresh_watch env path s) = sv_clients s"
  "sv_agents (refresh_watch env path s) = sv_agents s"
  "sv_running (refresh_watch env path s) = sv_running s"
  "sv_closing (refresh_watch env path s) = sv_closing s"
  "sv_out (refresh_watch env path s) = sv_out s"
  "sv_repo_members (refresh_watch env path s) = sv_repo_members s"
  "sv_read_hashes (refresh_watch env path s) = sv_read_hashes s"
  by (simp_all add: refresh_watch_def readers_of_def)

lemma update_conflict_readers:
  assumes "update_conflict_state env path h who s = (notify, s')"
  shows "readers_of path s' = map (\<lambda>(i, had). (i, h)) (readers_of path s)"
    "p \<noteq> path \<Longrightarrow> readers_of p s' = readers_of p s"
    "notify = map fst (filter (\<lambda>(i, had). i \<noteq> who \<and> had \<noteq> h) (readers_of path s))"
  using assms by (auto simp: update_conflict_state_def Let_def server_simps)
    (simp_all add: readers_of_def om_get_put)

lemma update_conflict_notify:
  assumes "update_conflict_state env path h who s = (notify, s')" "om_ok (readers_of path s)"
  shows "distinct notify"
    "i \<in> set notify \<longleftrightarrow> i \<noteq> who \<and> (\<exists>had. om_get (readers_of path s) i = Some had \<and> had \<noteq> h)"
proof -
  note d = om_ok_distinct[OF assms(2)]
  have n: "notify = map fst (filter (\<lambda>(i, had). i \<noteq> who \<and> had \<noteq> h) (readers_of path s))"
    by (rule update_conflict_readers(3)[OF assms(1)])
  show "distinct notify"
    using d unfolding n om_keys_def by (rule distinct_map_filter)
  show "i \<in> set notify \<longleftrightarrow> i \<noteq> who \<and> (\<exists>had. om_get (readers_of path s) i = Some had \<and> had \<noteq> h)"
    unfolding n om_get_mem[OF d] by (auto intro: rev_image_eqI)
qed

lemma update_conflict_agents:
  "update_conflict_state env path h who s = (notify, s') \<Longrightarrow> sv_agents s' = sv_agents s"
  by (auto simp: update_conflict_state_def Let_def server_simps)

lemma notify_file_changed_inbox:
  assumes "om_ok (readers_of path s)"
  shows "inbox_of i (notify_file_changed env path h who s) =
    (if i \<noteq> who \<and> (\<exists>had. om_get (readers_of path s) i = Some had \<and> had \<noteq> h) \<and> listening i s
     then with_line (''[swarm] conflict: '' @ path @ '' was changed by '' @ who @ '' at '' @ se_now env)
       (inbox_of i s)
     else inbox_of i s)"
proof -
  obtain notify s' where u: "update_conflict_state env path h who s = (notify, s')" by fastforce
  note N = update_conflict_notify[OF u assms]
  have a: "inbox_of j s' = inbox_of j s" "listening j s' = listening j s" for j
    using update_conflict_agents[OF u] by (simp_all add: inbox_of_def listening_def)
  have "inbox_of i (notify_file_changed env path h who s) =
      inbox_of i (fold (\<lambda>i. deliver_inbox i ''conflict'' (conflict_notice path who (se_now env) h)) notify s')"
    unfolding notify_file_changed_def u prod.case Let_def ..
  then show ?thesis
    unfolding deliver_all_inbox[OF conflict_notice_line N(1)] a N(2) by (simp only: conj_assoc)
qed

lemma notify_file_changed_readers:
  "readers_of p (notify_file_changed env path h who s) =
     (if p = path then map (\<lambda>(i, had). (i, h)) (readers_of p s) else readers_of p s)"
proof -
  obtain notify s' where u: "update_conflict_state env path h who s = (notify, s')" by fastforce
  have "readers_of p (notify_file_changed env path h who s) = readers_of p s'"
    by (simp add: notify_file_changed_def u readers_of_def server_simps)
  then show ?thesis using update_conflict_readers[OF u] by simp
qed

section \<open>The poller settles\<close>

text \<open>A baseline that the disk no longer contradicts.\<close>

definition settled :: "server_env \<Rightarrow> string \<Rightarrow> watched_file \<Rightarrow> bool" where
  "settled env path wt \<longleftrightarrow> poll_file env path wt = (wt, None)"

lemma poll_file_settles: "settled env path (fst (poll_file env path wt))"
  by (auto simp: settled_def poll_file_def Let_def split: option.splits)

lemma stat_watch_settled: "settled env path (stat_watch env path)"
  by (auto simp: settled_def poll_file_def stat_watch_def Let_def split: option.splits)

definition all_settled :: "server_env \<Rightarrow> server \<Rightarrow> bool" where
  "all_settled env s \<longleftrightarrow> list_all (\<lambda>(p, wt). settled env p wt) (sv_file_state s)"

lemma om_put_all:
  "list_all P m \<Longrightarrow> P (k, v) \<Longrightarrow> list_all P (om_put k v m)"
  by (induction k v m rule: om_put.induct) auto

lemma notify_keeps_settled:
  assumes "all_settled env s"
  shows "all_settled env (notify_file_changed env path h who s)"
proof -
  have "sv_file_state (notify_file_changed env path h who s) =
      om_put path (stat_watch env path) (sv_file_state s)"
    by (simp add: notify_file_changed_def update_conflict_state_def Let_def server_simps)
      (simp add: refresh_watch_def)
  then show ?thesis
    using assms om_put_all[of "\<lambda>(p, wt). settled env p wt"] stat_watch_settled
    by (simp add: all_settled_def)
qed

lemma poll_tick_settled: "all_settled env (poll_tick env s)"
proof -
  have fold: "all_settled env s' \<Longrightarrow>
      all_settled env (fold (\<lambda>(path, h). notify_file_changed env path h ''fs'') cs s')" for cs s'
    by (induction cs arbitrary: s') (auto simp: notify_keeps_settled)
  have "all_settled env (s\<lparr>sv_file_state := poll_states env (sv_file_state s)\<rparr>)"
    using poll_file_settles by (auto simp: all_settled_def poll_states_def list_all_iff)
  then show ?thesis unfolding poll_tick_def by (rule fold)
qed

lemma settled_tick:
  assumes "all_settled env s"
  shows "poll_tick env s = s"
proof -
  have "list_all (\<lambda>(p, wt). settled env p wt) fs \<Longrightarrow> poll_changes env fs = [] \<and> poll_states env fs = fs"
    for fs
    by (induction fs) (auto simp: settled_def poll_states_def)
  then show ?thesis using assms by (simp add: poll_tick_def all_settled_def)
qed

end
