(* ===== verification/Swarm_Tools.thy ===== *)
theory Swarm_Tools
  imports Swarm_State
begin

text \<open>
  The swarm interface of an agent (\<open>src/server/swarm_peer.h\<close>) and the two tools that use it
  (\<open>src/tool/msg.h\<close>, \<open>src/tool/peers.h\<close>), with the in-process view of the daemon as an instance.
\<close>

section \<open>The interface and its tools\<close>

record 's peer_ops =
  po_connected :: "'s \<Rightarrow> bool"
  po_knows :: "string \<Rightarrow> 's \<Rightarrow> bool"
  po_send :: "string \<Rightarrow> string \<Rightarrow> 's \<Rightarrow> bool \<times> 's"
  po_request :: "'s \<Rightarrow> bool \<times> 's"
  po_peers :: "'s \<Rightarrow> json list"

definition not_connected_text :: string where
  "not_connected_text =
     ''Error: not connected to a swarm server (start one with `zvmh --server start`, '' @
     ''connect with `--connect`)''"

definition msg_execute :: "'s peer_ops \<Rightarrow> json \<Rightarrow> 's \<Rightarrow> string outcome \<times> 's" where
  "msg_execute ops input s =
     (if \<not> po_connected ops s then (Inr not_connected_text, s)
      else case bind_outcome (jindex input ''to'') get_str of
        Inl e \<Rightarrow> (Inl e, s)
      | Inr to \<Rightarrow>
          (case bind_outcome (jindex input ''text'') get_str of
             Inl e \<Rightarrow> (Inl e, s)
           | Inr t \<Rightarrow>
               if to \<noteq> ''all'' \<and> to \<noteq> ''repo'' \<and> \<not> po_knows ops to s then
                 (Inr (''Error: no peer with id '' @ [squote] @ to @ [squote] @
                       '' is connected; use peers to list agents''), s)
               else (case po_send ops to t s of
                   (False, s') \<Rightarrow> (Inr ''Error: failed to send message to swarm server'', s')
                 | (True, s') \<Rightarrow> (Inr (''Message sent to '' @ to), s'))))"

fun peer_lines :: "json list \<Rightarrow> string outcome" where
  "peer_lines [] = Inr []"
| "peer_lines (p # ps) =
     bind_outcome (value_str p ''id'' ''?'') (\<lambda>i.
     bind_outcome (value_str p ''name'' ''?'') (\<lambda>n.
     bind_outcome (value_str p ''repo'' ''?'') (\<lambda>r.
     bind_outcome (peer_lines ps) (\<lambda>rest.
       Inr (''  '' @ i @ ''  '' @ n @ ''  ('' @ r @ '')'' @ NL @ rest)))))"

definition peers_execute :: "'s peer_ops \<Rightarrow> json \<Rightarrow> 's \<Rightarrow> string outcome \<times> 's" where
  "peers_execute ops input s =
     (if \<not> po_connected ops s then (Inr not_connected_text, s)
      else case value_bool input ''refresh'' False of
        Inl e \<Rightarrow> (Inl e, s)
      | Inr refresh \<Rightarrow>
          let s' = (if refresh then snd (po_request ops s) else s); ps = po_peers ops s'
          in if ps = [] then (Inr ''No peers connected (you are alone on the server)'', s')
             else (bind_outcome (peer_lines ps)
                     (\<lambda>ls. Inr (butlast (''Connected agents:'' @ NL @ ls))), s'))"

section \<open>The contract of a peer\<close>

definition peer_id :: "json \<Rightarrow> string" where
  "peer_id p = (case jfind p ''id'' of Some (JStr i) \<Rightarrow> i | _ \<Rightarrow> [])"

text \<open>\<open>alive\<close> are the states in which the peer keeps its promises.\<close>

locale swarm_peer =
  fixes ops :: "'s peer_ops" and alive :: "'s \<Rightarrow> bool"
  assumes connected: "alive s \<Longrightarrow> po_connected ops s"
    and knows_listed: "alive s \<Longrightarrow> po_knows ops i s \<longleftrightarrow> i \<in> set (map peer_id (po_peers ops s))"
    and send_accepts: "alive s \<Longrightarrow> fst (po_send ops to t s) \<longleftrightarrow> to \<noteq> [] \<and> t \<noteq> []"
begin

lemma msg_accepted:
  assumes "alive s" "jfind input ''to'' = Some (JStr to)" "jfind input ''text'' = Some (JStr t)"
    and "to \<in> {''all'', ''repo''} \<union> set (map peer_id (po_peers ops s))" "to \<noteq> []" "t \<noteq> []"
  shows "msg_execute ops input s = (Inr (''Message sent to '' @ to), snd (po_send ops to t s))"
proof -
  obtain m where m: "input = JObj m" using assms(2) by (cases input) auto
  have "jindex input ''to'' = Inr (JStr to)" "jindex input ''text'' = Inr (JStr t)"
    using assms(2,3) m by simp_all
  moreover have "to = ''all'' \<or> to = ''repo'' \<or> po_knows ops to s"
    using assms(4) knows_listed[OF assms(1)] by auto
  moreover have "po_send ops to t s = (True, snd (po_send ops to t s))"
    using send_accepts[OF assms(1), of to t] assms(5,6) by (simp add: prod_eq_iff)
  ultimately show ?thesis using connected[OF assms(1)] by (auto simp: msg_execute_def split: prod.splits)
qed

lemma msg_unknown:
  assumes "alive s" "jfind input ''to'' = Some (JStr to)" "jfind input ''text'' = Some (JStr t)"
    and "to \<notin> {''all'', ''repo''} \<union> set (map peer_id (po_peers ops s))"
  shows "snd (msg_execute ops input s) = s"
proof -
  obtain m where m: "input = JObj m" using assms(2) by (cases input) auto
  have "jindex input ''to'' = Inr (JStr to)" "jindex input ''text'' = Inr (JStr t)"
    using assms(2,3) m by simp_all
  then show ?thesis using assms(4) knows_listed[OF assms(1)] by (auto simp: msg_execute_def split: sum.splits)
qed

end

section \<open>The daemon's own view as a peer\<close>

definition hosted_ops :: "server_env \<Rightarrow> string \<Rightarrow> server peer_ops" where
  "hosted_ops env me =
     \<lparr>po_connected = (\<lambda>s. True), po_knows = peer_knows me, po_send = peer_send_message env me,
      po_request = (\<lambda>s. (True, s)), po_peers = peer_peers me\<rparr>"

lemma peer_id_agent_info [simp]: "peer_id (agent_info i n r) = i"
  by (simp add: peer_id_def agent_info_def jfind_jobj)

lemma peer_peers_ids: "set (map peer_id (peer_peers me s)) = {i. peer_knows me i s}"
proof -
  have "map peer_id (peer_peers me s) = map fst (filter (\<lambda>(i, c). i \<noteq> me) (sv_clients s))"
    by (auto simp: peer_peers_def)
  also have "set \<dots> = {i. peer_knows me i s}"
    using om_get_dom[of "sv_clients s"] by (force simp: peer_knows_def om_keys_def)
  finally show ?thesis .
qed

interpretation hosted: swarm_peer "hosted_ops env me" "\<lambda>_. True" for env me
proof
  show "po_knows (hosted_ops env me) i s \<longleftrightarrow> i \<in> set (map peer_id (po_peers (hosted_ops env me) s))"
    for i s
    unfolding hosted_ops_def peer_ops.simps peer_peers_ids by simp
qed (simp_all add: hosted_ops_def peer_send_message_def)

section \<open>Divergences\<close>

text \<open>An id nobody has is refused by the tool; nothing is sent.\<close>

theorem unknown_peer_is_refused:
  assumes "po_connected ops s" "jfind input ''to'' = Some (JStr to)" "jfind input ''text'' = Some (JStr t)"
    and "to \<noteq> ''all''" "to \<noteq> ''repo''" "\<not> po_knows ops to s"
  shows "msg_execute ops input s =
    (Inr (''Error: no peer with id '' @ [squote] @ to @ [squote] @
       '' is connected; use peers to list agents''), s)"
proof -
  obtain m where m: "input = JObj m" using assms(2) by (cases input) auto
  have "jindex input ''to'' = Inr (JStr to)" "jindex input ''text'' = Inr (JStr t)"
    using assms(2,3) m by simp_all
  then show ?thesis using assms(1,4-6) by (simp add: msg_execute_def)
qed

end
