(* ===== verification/Agent_World.thy ===== *)
theory Agent_World
  imports Agent_Turn
begin

text \<open>
  What a turn does to its world and to the fixed parts of its agent: a world invariant that every
  call of the environment keeps holds after the turn, and the agent stays in its swarm.
\<close>

definition kept :: "('w \<Rightarrow> bool) \<Rightarrow> bool \<Rightarrow> 'w turn_state \<Rightarrow> bool" where
  "kept I b st \<longleftrightarrow> I (ts_world st) \<and> ag_swarm (ts_agent st) = b"

locale env_invariant =
  fixes env :: "'w turn_env" and I :: "'w \<Rightarrow> bool"
  assumes complete_keeps: "I w \<Longrightarrow> I (snd (te_complete env ms defs sys p w))"
    and exec_keeps: "I w \<Longrightarrow> I (snd (te_exec env n j w))"
    and cancelled_keeps: "I w \<Longrightarrow> I (snd (te_cancelled env w))"
    and connected_keeps: "I w \<Longrightarrow> I (snd (te_connected env w))"
    and read_keeps: "I w \<Longrightarrow> I (te_register_read env path w)"
    and write_keeps: "I w \<Longrightarrow> I (te_report_write env path w)"
begin

lemma snd_keeps:
  "te_complete env ms defs sys p w = (x, w') \<Longrightarrow> I w \<Longrightarrow> I w'"
  "te_exec env n j w = (y, w') \<Longrightarrow> I w \<Longrightarrow> I w'"
  "te_cancelled env w = (c, w') \<Longrightarrow> I w \<Longrightarrow> I w'"
  "te_connected env w = (c, w') \<Longrightarrow> I w \<Longrightarrow> I w'"
  using complete_keeps exec_keeps cancelled_keeps connected_keeps by (metis snd_conv)+

lemma kept_emit: "kept I b st \<Longrightarrow> kept I b (emit cs st)"
  by (simp add: kept_def emit_def)

lemma kept_push: "kept I b st \<Longrightarrow> kept I b (push_message m st)"
  by (simp add: kept_def push_message_def add_message_def)

lemma kept_poll:
  assumes "kept I b st" "poll_cancel env st = (c, st')"
  shows "kept I b st'"
proof -
  obtain x w where c: "te_cancelled env (ts_world st) = (x, w)" by fastforce
  have "I w" using snd_keeps(3)[OF c] assms(1) by (simp add: kept_def)
  then show ?thesis
    using assms c by (cases x) (auto simp: kept_def poll_cancel_def cancel_turn_def Let_def)
qed

lemma kept_roll_back: "kept I b st \<Longrightarrow> kept I b (roll_back n st)"
  by (simp add: kept_def roll_back_def)

lemma kept_execute:
  assumes "kept I b st" "execute_tool env n j st = (r, st')"
  shows "kept I b st'"
  using assms
  by (auto simp: kept_def execute_tool_def Let_def dest: snd_keeps(2)
      split: option.splits sum.splits failure.splits prod.splits)

lemma kept_track:
  assumes "kept I b st" "track_file env n e j st = (r, st')"
  shows "kept I b st'"
  using assms
  by (auto simp: kept_def track_file_def Let_def dest: snd_keeps(4) intro!: read_keeps write_keeps
      split: option.splits sum.splits prod.splits if_splits)

lemma kept_run_tool:
  assumes "kept I b st" "run_tool env tc j st = (r, st')"
  shows "kept I b st'"
proof -
  let ?st1 = "emit [SinkToolCall (ac_name tc) j] st"
  obtain x st2 where e: "execute_tool env (ac_name tc) j ?st1 = (x, st2)" by fastforce
  have k2: "kept I b st2" by (rule kept_execute[OF kept_emit[OF assms(1)] e])
  show ?thesis
    using assms(2) e k2
    by (auto simp: run_tool_def intro!: kept_push kept_emit intro: kept_track
        split: sum.splits prod.splits option.splits)
qed

lemma kept_run_tools: "kept I b st \<Longrightarrow> run_tools env tcs st = (r, st') \<Longrightarrow> kept I b st'"
proof (induction tcs arbitrary: st)
  case (Cons ta tcs)
  obtain tc j where ta: "ta = (tc, j)" by fastforce
  obtain c st1 where p: "poll_cancel env st = (c, st1)" by fastforce
  obtain e st2 where t: "run_tool env tc j st1 = (e, st2)" by fastforce
  note k1 = kept_poll[OF Cons.prems(1) p]
  note k2 = kept_run_tool[OF k1 t]
  show ?case using Cons.prems(2) Cons.IH[OF k2] k1 k2 ta p t by (auto split: bool.splits option.splits)
qed simp

lemma kept_complete:
  assumes "kept I b st" "run_complete env system st = (r, st')"
  shows "kept I b st'"
  using assms
  by (auto simp: kept_def run_complete_def Let_def emit_def dest: snd_keeps(1)
      split: option.splits prod.splits)

lemma kept_run_step:
  assumes "kept I b st" "run_step env system st = (r, st')"
  shows "kept I b st'"
proof -
  obtain br st1 where c: "run_complete env system st = (br, st1)" by fastforce
  obtain k st2 where p: "poll_cancel env st1 = (k, st2)" by fastforce
  note k1 = kept_complete[OF assms(1) c]
  note k2 = kept_poll[OF k1 p]
  show ?thesis
    using assms(2) c p k1 k2
    by (auto simp: run_step_def Let_def split: sum.splits bool.splits if_splits prod.splits option.splits
        intro!: kept_emit kept_push intro: kept_run_tools[OF kept_emit[OF kept_push]])
qed

lemma kept_run_steps: "kept I b st \<Longrightarrow> run_steps n env system st = (r, st') \<Longrightarrow> kept I b st'"
proof (induction n arbitrary: st)
  case (Suc n)
  obtain x st1 where x: "run_step env system st = (x, st1)" by fastforce
  note k = kept_run_step[OF Suc.prems(1) x]
  show ?case using Suc.prems(2) Suc.IH[OF k] k x by (auto split: step_exit.splits)
qed simp

lemma kept_begin: "kept I b st \<Longrightarrow> kept I b (begin_turn env prompt st)"
  by (auto simp: kept_def begin_turn_def Let_def drain_swarm_text_def push_message_def
      add_message_def dest: snd_keeps(3) split: prod.splits)

lemma kept_body:
  assumes "kept I b st" "turn_body env st = (x, st')"
  shows "kept I b st'"
proof -
  obtain system a ws where sp:
      "build_system_prompt (te_sys_world env (ts_world st)) (ts_agent st) = (system, a, ws)"
    by (metis prod_cases3)
  have k: "kept I b (emit ws (st\<lparr>ts_agent := a\<rparr>))"
    using assms(1) build_system_prompt_frame[OF sp] by (simp add: kept_def emit_def)
  show ?thesis
    using assms(2) sp k kept_run_steps[OF k] by (cases system) (auto simp: turn_body_def Let_def)
qed

lemma kept_run_turn:
  assumes "kept I b st" "run_turn env prompt st = (r, st')"
  shows "kept I b st'"
proof -
  obtain x st1 where x: "turn_body env (begin_turn env prompt st) = (x, st1)" by fastforce
  note k1 = kept_body[OF kept_begin[OF assms(1)] x]
  show ?thesis
  proof (cases x)
    case (Threw e)
    show ?thesis
    proof (cases e)
      case Undefined
      then show ?thesis using assms(2) x Threw k1 by (simp add: run_turn_def Let_def)
    next
      case (Thrown m)
      obtain c1 st2 where p: "poll_cancel env st1 = (c1, st2)" by fastforce
      let ?st2 = "if c1 then st2 else emit [SinkWarning (''Error: '' @ m)] st2"
      obtain c2 st4 where q: "poll_cancel env (roll_back (length (history st)) ?st2) = (c2, st4)"
        by fastforce
      have "kept I b ?st2" using kept_poll[OF k1 p] kept_emit by auto
      from kept_poll[OF kept_roll_back[OF this] q]
      show ?thesis using assms(2) x Threw Thrown p q by (simp add: run_turn_def Let_def)
    qed
  next
    case ReturnDone
    then show ?thesis using assms(2) x k1 by (simp add: run_turn_def Let_def)
  next
    case NextStep
    obtain c st2 where p: "poll_cancel env st1 = (c, st2)" by fastforce
    then show ?thesis using assms(2) x NextStep kept_poll[OF k1 p]
      by (auto simp: run_turn_def Let_def kept_roll_back kept_emit split: bool.splits)
  next
    case LeaveLoop
    obtain c st2 where p: "poll_cancel env st1 = (c, st2)" by fastforce
    then show ?thesis using assms(2) x LeaveLoop kept_poll[OF k1 p]
      by (auto simp: run_turn_def Let_def kept_roll_back kept_emit split: bool.splits)
  qed
qed

end

end
