(* ===== verification/Swarm_Server.thy ===== *)
theory Swarm_Server
  imports Swarm_Tools Agent_World
begin

text \<open>
  The daemon (\<open>src/server/server.cpp\<close>): the handshake and the message loop of a client connection,
  the turns of hosted agents, leaving, shutting down, and the step relation these form. A line of a
  connection, a finished turn, a round of the poller and each swarm call of a running agent are
  single steps; what runs inside one step is not interleaved with others.
\<close>

section \<open>Prompts and turns\<close>

definition still_running_text :: string where "still_running_text = ''still running a turn''"

definition schedule_prompt :: "server_env \<Rightarrow> string \<Rightarrow> string \<Rightarrow> server \<Rightarrow> server" where
  "schedule_prompt env i t s =
     (if t = [] then s
      else case om_get (sv_agents s) i of
        None \<Rightarrow> s
      | Some slot \<Rightarrow>
          if sl_busy slot then
            send_only env i (turn_done_packet 1)
              (send_only env i (warning_packet still_running_text) s)
          else s\<lparr>sv_agents := om_put i (slot\<lparr>sl_busy := True\<rparr>) (sv_agents s),
                 sv_running := sv_running s @ [(i, t)]\<rparr>)"

definition cancel_prompt :: "string \<Rightarrow> server \<Rightarrow> server" where
  "cancel_prompt i s =
     (case om_get (sv_agents s) i of
        None \<Rightarrow> s
      | Some slot \<Rightarrow> if sl_busy slot then on_agent i cancel_turn s else s)"

text \<open>
  The environment of a hosted turn: the world is the daemon's state with the rest of the outside;
  the swarm calls and the two swarm tools work on the daemon, everything else is given.
\<close>

definition hosted_env :: "server_env \<Rightarrow> string \<Rightarrow> 'x turn_env \<Rightarrow> (server \<times> 'x) turn_env" where
  "hosted_env env i outer =
     \<lparr>te_complete = (\<lambda>ms defs sys p (s, x).
        let (r, x') = te_complete outer ms defs sys p x in (r, (s, x'))),
      te_exec = (\<lambda>n j (s, x).
        if n = ''msg'' then (let (r, s') = msg_execute (hosted_ops env i) j s in (r, (s', x)))
        else if n = ''peers'' then (let (r, s') = peers_execute (hosted_ops env i) j s in (r, (s', x)))
        else let (r, x') = te_exec outer n j x in (r, (s, x'))),
      te_parse = te_parse outer,
      te_cancelled = (\<lambda>(s, x). let (c, x') = te_cancelled outer x in (c, (s, x'))),
      te_connected = (\<lambda>w. (True, w)),
      te_register_read = (\<lambda>p (s, x). (snd (peer_register_read env i p s), x)),
      te_report_write = (\<lambda>p (s, x). (snd (peer_report_write env i p s), x)),
      te_sys_world = (\<lambda>(s, x). te_sys_world outer x)\<rparr>"

definition no_provider_text :: string where
  "no_provider_text =
     ''prompt not run: no provider api key set '' @ [CHR 0xE2, CHR 0x80, CHR 0x94] @
     '' run /connect to store one''"

text \<open>The thread's end: the slot is free again, and gone if its client is; a solo daemon without
  clients closes.\<close>

definition end_turn :: "string \<Rightarrow> server \<Rightarrow> server" where
  "end_turn i s =
     (let agents = (case om_get (sv_agents s) i of
            None \<Rightarrow> sv_agents s
          | Some slot \<Rightarrow>
              if om_get (sv_clients s) i = None then om_del i (sv_agents s)
              else om_put i (slot\<lparr>sl_busy := False\<rparr>) (sv_agents s))
      in s\<lparr>sv_agents := agents, sv_running := filter (\<lambda>(j, t). j \<noteq> i) (sv_running s),
           sv_closing := sv_closing s \<or> (sv_solo s \<and> sv_clients s = [])\<rparr>)"

definition put_agent :: "string \<Rightarrow> agent \<Rightarrow> server \<Rightarrow> server" where
  "put_agent i a s = on_agent i (\<lambda>_. a) s"

text \<open>
  The whole thread of one prompt: the turn with its callbacks sent as frames, the context and done
  frames if every send succeeded, then the end. \<open>Inl\<close> is a turn that runs into undefined behaviour.
\<close>

definition run_prompt ::
    "server_env \<Rightarrow> 'x turn_env \<Rightarrow> string \<Rightarrow> string \<Rightarrow> 'x \<Rightarrow> server \<Rightarrow> failure + int \<times> server \<times> 'x"
where
  "run_prompt env outer i t x s =
     (case om_get (sv_agents s) i of
        None \<Rightarrow> Inl Undefined
      | Some slot \<Rightarrow>
          let a = sl_agent slot;
              (rc, calls, a', s1, x') =
                (if ag_provider a = None then (Inr 1, [SinkWarning no_provider_text], a, s, x)
                 else (case run_turn (hosted_env env i outer) t
                             \<lparr>ts_agent = a, ts_sink = [], ts_world = (s, x)\<rparr> of
                     (rc, st) \<Rightarrow> (rc, ts_sink st, ts_agent st, fst (ts_world st), snd (ts_world st))))
          in case rc of
               Inl e \<Rightarrow> Inl e
             | Inr n \<Rightarrow>
                 let (alive, s2) = fold (wire_call (send_to env i)) calls (True, put_agent i a' s1);
                     s3 = (if alive then
                             (let (used, _) = agent_usage a';
                                  (whole, a'') = agent_context_window (se_query env) a'
                              in snd (wire_done (send_to env i) n
                                   (True, send_only env i (ctx_packet used whole) (put_agent i a'' s2))))
                           else s2)
                 in Inr (n, end_turn i s3, x'))"

section \<open>A client connection\<close>

datatype hello_result = HelloRejected server | HelloAccepted server | HelloCrashed

definition say_bye :: "int \<Rightarrow> server \<Rightarrow> server" where
  "say_bye fd s = s\<lparr>sv_out := sv_out s @ [(fd, bye_msg)]\<rparr>"

text \<open>The first line; \<open>i\<close> is the id \<open>random_hex_id\<close> drew. An exception ends the process.\<close>

definition client_hello :: "server_env \<Rightarrow> string \<Rightarrow> int \<Rightarrow> string \<Rightarrow> server \<Rightarrow> hello_result" where
  "client_hello env i fd line s =
     (case se_parse env line of
        None \<Rightarrow> HelloRejected s
      | Some first \<Rightarrow>
          if type_of first \<noteq> ''hello'' then HelloRejected (say_bye fd s)
          else (case (value_str first ''name'' [], value_str first ''repo'' []) of
              (Inr name, Inr repo) \<Rightarrow>
                if name = [] \<or> repo = [] \<or> length name > 64 then HelloRejected (say_bye fd s)
                else (let (peers, s1) = hello_register i name repo fd s
                  in case create_agent_slot env i repo s1 of
                       Inl e \<Rightarrow> HelloCrashed
                     | Inr s2 \<Rightarrow>
                         HelloAccepted (send_state env i
                           (send_only env i (hello_ack i (JArr peers)) s2)))
            | _ \<Rightarrow> HelloCrashed))"

datatype msg_result = Handled server | Hangup server | Crashed

definition with_str :: "json \<Rightarrow> string \<Rightarrow> (string \<Rightarrow> msg_result) \<Rightarrow> msg_result" where
  "with_str msg k f = (case value_str msg k [] of Inl e \<Rightarrow> Crashed | Inr v \<Rightarrow> f v)"

text \<open>One later line, of the client \<open>i\<close> with its repository.\<close>

definition client_message :: "server_env \<Rightarrow> string \<Rightarrow> string \<Rightarrow> string \<Rightarrow> server \<Rightarrow> msg_result" where
  "client_message env i repo line s =
     (case se_parse env line of
        None \<Rightarrow> Hangup s
      | Some msg \<Rightarrow>
          let t = type_of msg
          in if t = ''prompt'' then with_str msg ''text'' (\<lambda>x. Handled (schedule_prompt env i x s))
             else if t = ''cancel'' then Handled (cancel_prompt i s)
             else if t = ''clear'' then Handled (clear_agent_history i s)
             else if t = ''model_set'' then
               with_str msg ''model'' (\<lambda>m. Handled (set_agent_model env i m s))
             else if t = ''auth_set'' then
               with_str msg ''provider'' (\<lambda>p. with_str msg ''api_key'' (\<lambda>k.
                 Handled (set_agent_credentials env i p k s)))
             else if t = ''read'' then
               with_str msg ''path'' (\<lambda>p. with_str msg ''hash'' (\<lambda>h.
                 if p = [] then Handled s else Handled (record_read env (se_canon env repo p) i h s)))
             else if t = ''write'' then
               with_str msg ''path'' (\<lambda>p. with_str msg ''hash'' (\<lambda>h.
                 if p = [] then Handled s
                 else Handled (notify_file_changed env (se_canon env repo p) h i s)))
             else if t = ''msg'' then
               with_str msg ''to'' (\<lambda>to. with_str msg ''text'' (\<lambda>x.
                 Handled (route_message env i to x s)))
             else if t = ''agents'' then
               Handled (send_only env i (agents_list (JArr (all_peers s))) s)
             else if t = ''ping'' then Handled (send_only env i pong_msg s)
             else if t = ''bye'' then Hangup (send_only env i bye_msg s)
             else Handled s)"

definition maybe_shutdown :: "server \<Rightarrow> server" where
  "maybe_shutdown s =
     (if sv_solo s \<and> sv_clients s = [] \<and> list_all (\<lambda>(i, slot). \<not> sl_busy slot) (sv_agents s)
      then s\<lparr>sv_closing := True\<rparr> else s)"

definition client_leave :: "string \<Rightarrow> server \<Rightarrow> server" where
  "client_leave i s = maybe_shutdown (remove_client i s)"

text \<open>\<open>run\<close>'s last act: every connected client is told.\<close>

definition shutdown_clients :: "server \<Rightarrow> server" where
  "shutdown_clients s =
     s\<lparr>sv_out := sv_out s @
         map (\<lambda>(i, c). (cl_fd c, shutdown_msg)) (filter (\<lambda>(i, c). cl_fd c \<ge> 0) (sv_clients s))\<rparr>"

section \<open>The daemon as a step relation\<close>

text \<open>A drawn id is taken to be unused; every step may meet another outside.\<close>

inductive server_step :: "server \<Rightarrow> server \<Rightarrow> bool" where
  accepted: "om_get (sv_clients s) i = None \<Longrightarrow> om_get (sv_agents s) i = None \<Longrightarrow>
     client_hello env i fd line s = HelloAccepted s' \<Longrightarrow> server_step s s'"
| rejected: "client_hello env i fd line s = HelloRejected s' \<Longrightarrow> server_step s s'"
| message: "om_get (sv_clients s) i = Some c \<Longrightarrow>
     client_message env i (cl_repo c) line s = Handled s' \<Longrightarrow> server_step s s'"
| hangup: "om_get (sv_clients s) i = Some c \<Longrightarrow>
     client_message env i (cl_repo c) line s = Hangup s' \<Longrightarrow> server_step s (client_leave i s')"
| lost: "om_get (sv_clients s) i = Some c \<Longrightarrow> server_step s (client_leave i s)"
| turn: "(i, t) \<in> set (sv_running s) \<Longrightarrow>
     run_prompt env (outer :: unit turn_env) i t () s = Inr (rc, s', ()) \<Longrightarrow> server_step s s'"
| poll: "server_step s (poll_tick env s)"

definition reachable :: "string \<Rightarrow> bool \<Rightarrow> server \<Rightarrow> bool" where
  "reachable api_key solo s \<longleftrightarrow> server_step\<^sup>*\<^sup>* (new_server api_key solo) s"

inductive_cases server_step_cases: "server_step s s'"

section \<open>The invariant\<close>

text \<open>
  The tables agree: a client has a slot; a slot without a client is busy; the busy slots are those of
  the running turns; the members of a repository are its connected clients; every conversation is
  well-formed.
\<close>

definition slots_ok :: "server \<Rightarrow> bool" where
  "slots_ok s \<longleftrightarrow>
     (\<forall>i. om_get (sv_clients s) i \<noteq> None \<longrightarrow> om_get (sv_agents s) i \<noteq> None) \<and>
     (\<forall>i sl. om_get (sv_agents s) i = Some sl \<longrightarrow>
        (om_get (sv_clients s) i = None \<longrightarrow> sl_busy sl) \<and>
        (sl_busy sl \<longleftrightarrow> i \<in> fst ` set (sv_running s)) \<and>
        ag_swarm (sl_agent sl) \<and> well_formed (ag_messages (sl_agent sl))) \<and>
     (\<forall>i. i \<in> fst ` set (sv_running s) \<longrightarrow> om_get (sv_agents s) i \<noteq> None) \<and>
     distinct (map fst (sv_running s))"

definition members_ok :: "server \<Rightarrow> bool" where
  "members_ok s \<longleftrightarrow>
     (\<forall>r i. i \<in> set (members_of r s) \<longleftrightarrow> (\<exists>c. om_get (sv_clients s) i = Some c \<and> cl_repo c = r)) \<and>
     (\<forall>r. distinct (members_of r s)) \<and>
     (\<forall>r. om_get (sv_repo_members s) r \<noteq> Some [])"

definition tables_ok :: "server \<Rightarrow> bool" where
  "tables_ok s \<longleftrightarrow>
     om_ok (sv_clients s) \<and> om_ok (sv_agents s) \<and> om_ok (sv_repo_members s) \<and>
     om_ok (sv_read_hashes s) \<and> (\<forall>p. om_ok (readers_of p s))"

definition server_ok :: "server \<Rightarrow> bool" where
  "server_ok s \<longleftrightarrow> slots_ok s \<and> members_ok s \<and> tables_ok s"

section \<open>Operations that leave the tables alone\<close>

text \<open>
  Most operations only send frames, watch files, record reads or change an agent inside its slot.
  They are \<open>calm\<close>: clients, memberships and turns stay, and so does what the invariant says of slots.
\<close>

definition slot_calm :: "agent_slot \<Rightarrow> agent_slot \<Rightarrow> bool" where
  "slot_calm a b \<longleftrightarrow> sl_busy b = sl_busy a \<and> ag_swarm (sl_agent b) = ag_swarm (sl_agent a) \<and>
     (well_formed (ag_messages (sl_agent a)) \<longrightarrow> well_formed (ag_messages (sl_agent b)))"

definition calm :: "server \<Rightarrow> server \<Rightarrow> bool" where
  "calm s s' \<longleftrightarrow>
     sv_clients s' = sv_clients s \<and> sv_repo_members s' = sv_repo_members s \<and>
     sv_running s' = sv_running s \<and> (tables_ok s \<longrightarrow> tables_ok s') \<and>
     (\<forall>i. rel_option slot_calm (om_get (sv_agents s) i) (om_get (sv_agents s') i))"

lemma slot_calm_refl: "slot_calm a a"
  by (simp add: slot_calm_def)

lemma calm_refl [intro, simp]: "calm s s"
  by (simp add: calm_def option.rel_refl slot_calm_refl)

lemma calm_trans: "calm s t \<Longrightarrow> calm t u \<Longrightarrow> calm s u"
proof -
  assume a: "calm s t" "calm t u"
  have "rel_option slot_calm (om_get (sv_agents s) i) (om_get (sv_agents u) i)" for i
  proof -
    have "rel_option slot_calm (om_get (sv_agents s) i) (om_get (sv_agents t) i)"
      "rel_option slot_calm (om_get (sv_agents t) i) (om_get (sv_agents u) i)"
      using a by (simp_all add: calm_def)
    then show ?thesis by (auto simp: option_rel_Some1 slot_calm_def rel_option_iff split: option.splits)
  qed
  then show ?thesis using a by (simp add: calm_def)
qed

lemma calm_ok: "calm s s' \<Longrightarrow> server_ok s \<Longrightarrow> server_ok s'"
proof -
  assume c: "calm s s'" and ok: "server_ok s"
  have r: "rel_option slot_calm (om_get (sv_agents s) i) (om_get (sv_agents s') i)" for i
    using c by (simp add: calm_def)
  have n: "om_get (sv_agents s') i = None \<longleftrightarrow> om_get (sv_agents s) i = None" for i
    using r[of i] by (auto simp: rel_option_iff split: option.splits)
  have "slots_ok s'"
    unfolding slots_ok_def
  proof (intro conjI allI impI)
    fix i sl assume sl: "om_get (sv_agents s') i = Some sl"
    then obtain sl0 where "om_get (sv_agents s) i = Some sl0" "slot_calm sl0 sl"
      using r[of i] by (auto simp: option_rel_Some2)
    then show "om_get (sv_clients s') i = None \<Longrightarrow> sl_busy sl"
      "sl_busy sl \<longleftrightarrow> i \<in> fst ` set (sv_running s')" "ag_swarm (sl_agent sl)"
      "well_formed (ag_messages (sl_agent sl))"
      using ok c by (auto simp: server_ok_def slots_ok_def calm_def slot_calm_def)
  qed (use ok c n in \<open>auto simp: server_ok_def slots_ok_def calm_def\<close>)
  moreover have "members_ok s'"
    using ok c by (simp add: server_ok_def members_ok_def members_of_def calm_def)
  ultimately show ?thesis using ok c by (simp add: server_ok_def calm_def)
qed

text \<open>A sufficient condition for what changes one slot, and for what changes none.\<close>

lemma calm_slot:
  assumes "om_get (sv_agents s) i = Some sl" "slot_calm sl sl'"
  shows "calm s (s\<lparr>sv_agents := om_put i sl' (sv_agents s)\<rparr>)"
  using assms
  by (auto simp: calm_def om_get_put om_ok_put tables_ok_def readers_of_def option.rel_refl
      slot_calm_refl)

lemma calm_frame:
  assumes "sv_clients s' = sv_clients s" "sv_repo_members s' = sv_repo_members s"
    "sv_running s' = sv_running s" "sv_agents s' = sv_agents s" "tables_ok s \<Longrightarrow> tables_ok s'"
  shows "calm s s'"
  using assms by (simp add: calm_def option.rel_refl slot_calm_refl)

lemma calm_on_agent:
  assumes "\<And>a. ag_swarm (f a) = ag_swarm a"
    "\<And>a. well_formed (ag_messages a) \<Longrightarrow> well_formed (ag_messages (f a))"
  shows "calm s (on_agent i f s)"
  using assms calm_slot[of s i] by (auto simp: on_agent_def slot_calm_def split: option.splits)

lemma calm_send_only: "calm s (send_only env i msg s)" "calm s (snd (send_to env i msg s))"
  by (auto simp: send_only_def send_to_def intro!: calm_frame
      simp: tables_ok_def readers_of_def split: option.splits)

lemma calm_deliver: "calm s (deliver_inbox i ty msg s)"
  using calm_slot[of s i] receive_swarm_frame
  by (fastforce simp: deliver_inbox_def slot_calm_def split: option.splits sum.splits)

lemma calm_fold:
  assumes "\<And>x s. calm s (f x s)"
  shows "calm s (fold f xs s)"
  by (induction xs arbitrary: s) (auto intro: calm_trans assms)

lemma calm_refresh: "calm s (refresh_watch env path s)"
  by (auto simp: refresh_watch_def tables_ok_def readers_of_def intro!: calm_frame)

lemma calm_reads:
  assumes "tables_ok s \<Longrightarrow> om_ok reads"
  shows "calm s (s\<lparr>sv_read_hashes := om_put path reads (sv_read_hashes s)\<rparr>)"
  using assms
  by (intro calm_frame) (auto simp: tables_ok_def readers_of_def om_ok_put om_get_put)

lemma calm_notify: "calm s (notify_file_changed env path h who s)"
proof -
  obtain notify s' where u: "update_conflict_state env path h who s = (notify, s')" by fastforce
  have "calm s s'"
    using u
    by (auto simp: update_conflict_state_def Let_def intro!: calm_trans[OF calm_reads calm_refresh]
        om_ok_map) (simp add: tables_ok_def)
  then show ?thesis
    unfolding notify_file_changed_def u prod.case Let_def
    by (rule calm_trans) (rule calm_fold, rule calm_deliver)
qed

lemma calm_record_read: "calm s (record_read env path i h s)"
  unfolding record_read_def
  by (rule calm_trans[OF calm_reads calm_refresh]) (simp add: om_ok_put tables_ok_def)

lemma calm_route: "calm s (route_message env sender to t s)"
  by (auto simp: route_message_def intro!: calm_fold calm_deliver split: option.splits)

lemma calm_poll: "calm s (poll_tick env s)"
  unfolding poll_tick_def
proof (rule calm_trans)
  show "calm s (s\<lparr>sv_file_state := poll_states env (sv_file_state s)\<rparr>)"
    by (intro calm_frame) (auto simp: tables_ok_def readers_of_def)
qed (rule calm_fold, auto intro: calm_notify)

lemma calm_send_state: "calm s (send_state env i s)"
proof (cases "om_get (sv_agents s) i")
  case (Some slot)
  obtain n a' where w: "agent_context_window (se_query env) (sl_agent slot) = (n, a')" by fastforce
  have "slot_calm slot (slot\<lparr>sl_agent := a'\<rparr>)"
    using w by (auto simp: slot_calm_def agent_context_window_def split: option.splits prod.splits)
  from calm_slot[OF Some this] show ?thesis
    using Some w by (auto simp: send_state_def Let_def intro: calm_trans calm_send_only)
qed (simp add: send_state_def)

lemma calm_agent_ops:
  "calm s (clear_agent_history i s)" "calm s (cancel_prompt i s)"
  "calm s (set_agent_model env i m s)" "calm s (set_agent_credentials env i p k s)"
proof -
  show "calm s (clear_agent_history i s)"
    unfolding clear_agent_history_def by (rule calm_on_agent) (simp_all add: clear_messages_def)
  show "calm s (cancel_prompt i s)"
    by (auto simp: cancel_prompt_def cancel_turn_def intro!: calm_on_agent split: option.splits)
  show "calm s (set_agent_model env i m s)"
    by (auto simp: set_agent_model_def set_model_def
        intro!: calm_trans[OF calm_on_agent calm_send_state])
  have "calm t (t\<lparr>sv_api_key := k\<rparr>)" for t
    by (intro calm_frame) (auto simp: tables_ok_def readers_of_def)
  moreover have "calm s (on_agent i (set_provider x) s)" for x
    by (rule calm_on_agent) (simp_all add: set_provider_def Let_def)
  ultimately have "calm s ((on_agent i (set_provider x) s)\<lparr>sv_api_key := k\<rparr>)" for x
    using calm_trans by blast
  then show "calm s (set_agent_credentials env i p k s)"
    by (auto simp: set_agent_credentials_def calm_send_only
        intro: calm_trans[OF _ calm_send_state] split: option.splits)
qed

lemma calm_peer_ops:
  "calm s (snd (peer_send_message env me to t s))" "calm s (snd (peer_register_read env me path s))"
  "calm s (snd (peer_report_write env me path s))"
  by (auto simp: peer_send_message_def peer_register_read_def peer_report_write_def Let_def
      intro: calm_route calm_record_read calm_notify)

lemma calm_wire:
  "wire_call (send_to env i) c (alive, s) = (alive', s') \<Longrightarrow> calm s s'"
  "wire_done (send_to env i) rc (alive, s) = (alive', s') \<Longrightarrow> calm s s'"
  using calm_send_only(2)
  by (auto simp: wire_call_def wire_done_def wire_emit_def split: if_splits prod.splits)
    (metis snd_conv)+

lemma calm_wire_fold: "fold (wire_call (send_to env i)) cs (alive, s) = (alive', s') \<Longrightarrow> calm s s'"
proof (induction cs arbitrary: alive s)
  case (Cons c cs)
  obtain a1 s1 where w: "wire_call (send_to env i) c (alive, s) = (a1, s1)" by fastforce
  with Cons have "calm s1 s'" by simp
  with calm_wire(1)[OF w] show ?case by (rule calm_trans)
qed simp

section \<open>Every step keeps the invariant\<close>

lemma ok_closing: "server_ok (s\<lparr>sv_closing := c\<rparr>) \<longleftrightarrow> server_ok s"
  by (simp add: server_ok_def slots_ok_def members_ok_def members_of_def tables_ok_def readers_of_def)

lemma ok_out: "server_ok (s\<lparr>sv_out := c\<rparr>) \<longleftrightarrow> server_ok s"
  by (simp add: server_ok_def slots_ok_def members_ok_def members_of_def tables_ok_def readers_of_def)

lemma schedule_prompt_ok:
  assumes "server_ok s"
  shows "server_ok (schedule_prompt env i t s)"
proof -
  have "server_ok (s\<lparr>sv_agents := om_put i (slot\<lparr>sl_busy := True\<rparr>) (sv_agents s),
      sv_running := sv_running s @ [(i, t)]\<rparr>)"
    if slot: "om_get (sv_agents s) i = Some slot" "\<not> sl_busy slot" for slot
  proof -
    have n: "i \<notin> fst ` set (sv_running s)"
      using assms slot by (auto simp: server_ok_def slots_ok_def)
    show ?thesis
      using assms slot n
      by (auto simp: server_ok_def slots_ok_def members_ok_def members_of_def tables_ok_def
          readers_of_def om_get_put om_ok_put)
  qed
  then show ?thesis
    using assms calm_ok[OF calm_trans[OF calm_send_only(1) calm_send_only(1)] assms]
    by (auto simp: schedule_prompt_def split: option.splits)
qed

lemma end_turn_ok:
  assumes "server_ok s"
  shows "server_ok (end_turn i s)"
proof -
  have "distinct (map fst (filter (\<lambda>(j, t). j \<noteq> i) (sv_running s)))"
    using assms by (auto simp: server_ok_def slots_ok_def intro: distinct_map_filter)
  moreover have "fst ` set (filter (\<lambda>(j, t). j \<noteq> i) (sv_running s)) = fst ` set (sv_running s) - {i}"
    by force
  ultimately show ?thesis
    using assms
    by (auto simp: end_turn_def Let_def server_ok_def slots_ok_def members_ok_def members_of_def
        tables_ok_def readers_of_def om_get_put om_get_del om_ok_put om_ok_del split: option.splits)
qed

lemma maybe_shutdown_ok: "server_ok s \<Longrightarrow> server_ok (maybe_shutdown s)"
  by (simp add: maybe_shutdown_def ok_closing)

lemma remove_client_frame:
  assumes "om_get (sv_clients s) i = Some c"
  shows "sv_clients (remove_client i s) = om_del i (sv_clients s)"
    "sv_running (remove_client i s) = sv_running s"
    "readers_of p (remove_client i s) = om_del i (readers_of p s)"
    "om_get (sv_agents (remove_client i s)) j =
       (if j = i \<and> (\<exists>sl. om_get (sv_agents s) i = Some sl \<and> \<not> sl_busy sl) then None
        else om_get (sv_agents s) j)"
  using assms
  by (auto simp: remove_client_def Let_def readers_of_def om_get_map_keys om_get_del
      split: option.splits)

lemma remove_client_members:
  assumes "om_get (sv_clients s) i = Some c" "members_ok s"
  shows "members_of r (remove_client i s) = removeAll i (members_of r s)"
    "om_get (sv_repo_members (remove_client i s)) r \<noteq> Some []"
proof -
  have i: "i \<in> set (members_of (cl_repo c) s)" using assms by (auto simp: members_ok_def)
  then obtain ids where ids: "om_get (sv_repo_members s) (cl_repo c) = Some ids" "i \<in> set ids"
    by (cases "om_get (sv_repo_members s) (cl_repo c)") (auto simp: members_of_def)
  have other: "r \<noteq> cl_repo c \<Longrightarrow> i \<notin> set (members_of r s)"
    using assms by (auto simp: members_ok_def)
  show "members_of r (remove_client i s) = removeAll i (members_of r s)"
    using assms(1) ids other
    by (auto simp: remove_client_def Let_def members_of_def om_get_put om_get_del
        split: option.splits)
  show "om_get (sv_repo_members (remove_client i s)) r \<noteq> Some []"
    using assms ids by (auto simp: remove_client_def Let_def om_get_put om_get_del members_ok_def)
qed

lemma remove_client_ok:
  assumes "server_ok s" "om_get (sv_clients s) i = Some c"
  shows "server_ok (remove_client i s)"
proof -
  note F = remove_client_frame[OF assms(2)]
  have m: "members_ok s" using assms(1) by (simp add: server_ok_def)
  note M = remove_client_members[OF assms(2) m]
  have "members_ok (remove_client i s)"
    using m M unfolding members_ok_def F(1) by (auto simp: om_get_del distinct_removeAll)
  moreover define R where "R = fst ` set (sv_running s)"
  moreover have "slots_ok (remove_client i s)"
    using assms(1) unfolding server_ok_def slots_ok_def F R_def[symmetric]
    by (auto simp: om_get_del split: if_splits)
  moreover have "tables_ok (remove_client i s)"
    using assms
    by (auto simp: server_ok_def tables_ok_def F om_ok_del)
      (auto simp: remove_client_def Let_def om_ok_put om_ok_del om_ok_map split: option.splits)
  ultimately show ?thesis by (simp add: server_ok_def)
qed

lemma client_leave_ok:
  "server_ok s \<Longrightarrow> om_get (sv_clients s) i = Some c \<Longrightarrow> server_ok (client_leave i s)"
  by (simp add: client_leave_def maybe_shutdown_ok remove_client_ok)

lemma new_agent_idle:
  assumes "new_agent td w prov = Inr a"
  shows "ag_messages a = []"
  using assms by (auto simp: new_agent_def bind_outcome_Inr)

lemma register_ok:
  assumes "server_ok s" "om_get (sv_clients s) i = None" "om_get (sv_agents s) i = None"
    and "hello_register i name repo fd s = (peers, s1)" "create_agent_slot env i repo s1 = Inr s2"
  shows "server_ok s2"
proof -
  obtain a where n: "new_agent (se_tool_def env) (se_sys_world env)
        (make_provider ''openrouter'' (sv_api_key s1)) = Inr a" and s2: "s2 = s1\<lparr>sv_agents :=
      om_put i \<lparr>sl_agent = attach_swarm (se_tool_def env) True True (set_tool_cwd_base repo a),
                sl_busy = False\<rparr> (sv_agents s1)\<rparr>"
    using assms(5) unfolding create_agent_slot_def bind_outcome_Inr sum.inject by blast
  note a = new_agent_idle[OF n]
  have s1: "s1 = s\<lparr>sv_clients :=
        om_put i \<lparr>cl_id = i, cl_name = name, cl_repo = repo, cl_fd = fd\<rparr> (sv_clients s),
      sv_repo_members := om_put repo (members_of repo s @ [i]) (sv_repo_members s)\<rparr>"
    using assms(4) by (simp add: hello_register_def Let_def)
  have i: "i \<notin> set (members_of r s)" for r
    using assms(1,2) by (auto simp: server_ok_def members_ok_def)
  have run: "i \<notin> fst ` set (sv_running s)"
    using assms(1,3) by (auto simp: server_ok_def slots_ok_def)
  have mem: "members_of r s2 = (if r = repo then members_of r s @ [i] else members_of r s)" for r
    by (simp add: s1 s2 members_of_def om_get_put)
  have "members_ok s2"
    using assms(1,2) i unfolding server_ok_def members_ok_def mem
    by (auto simp: s1 s2 om_get_put)
  moreover have "slots_ok s2"
    using assms(1) run a
    by (auto simp: server_ok_def slots_ok_def s1 s2 om_get_put attach_swarm_def set_tool_cwd_base_def)
  moreover have "tables_ok s2"
    using assms(1) by (auto simp: server_ok_def tables_ok_def s1 s2 om_ok_put readers_of_def)
  ultimately show ?thesis by (simp add: server_ok_def)
qed

lemma client_hello_ok:
  assumes "server_ok s"
  shows "client_hello env i fd line s = HelloRejected s' \<Longrightarrow> server_ok s'"
    and "om_get (sv_clients s) i = None \<Longrightarrow> om_get (sv_agents s) i = None \<Longrightarrow>
      client_hello env i fd line s = HelloAccepted s' \<Longrightarrow> server_ok s'"
proof -
  show "client_hello env i fd line s = HelloRejected s' \<Longrightarrow> server_ok s'"
    using assms by (auto simp: client_hello_def say_bye_def ok_out Let_def
        split: option.splits if_splits sum.splits prod.splits)
  assume fresh: "om_get (sv_clients s) i = None" "om_get (sv_agents s) i = None"
    and h: "client_hello env i fd line s = HelloAccepted s'"
  then obtain name repo peers s1 s2 where
      "hello_register i name repo fd s = (peers, s1)" "create_agent_slot env i repo s1 = Inr s2"
      "s' = send_state env i (send_only env i (hello_ack i (JArr peers)) s2)"
    by (auto simp: client_hello_def Let_def split: option.splits if_splits sum.splits prod.splits)
  with register_ok[OF assms fresh] show "server_ok s'"
    using calm_ok calm_trans[OF calm_send_only(1) calm_send_state] by metis
qed

lemma client_message_ok:
  assumes "server_ok s"
  shows "client_message env i repo line s = Handled s' \<Longrightarrow> server_ok s'"
    and "client_message env i repo line s = Hangup s' \<Longrightarrow>
      server_ok s' \<and> sv_clients s' = sv_clients s"
proof -
  have c: "calm s t \<Longrightarrow> server_ok t" for t using calm_ok assms by blast
  show "client_message env i repo line s = Handled s' \<Longrightarrow> server_ok s'"
    using assms schedule_prompt_ok[OF assms]
    by (auto simp: client_message_def with_str_def Let_def
        intro: c calm_agent_ops calm_record_read calm_notify calm_route calm_send_only
        split: option.splits if_splits sum.splits)
  show "client_message env i repo line s = Hangup s' \<Longrightarrow> server_ok s' \<and> sv_clients s' = sv_clients s"
    using assms calm_ok[OF calm_send_only(1) assms]
    by (auto simp: client_message_def with_str_def Let_def send_only_def send_to_def ok_out
        split: option.splits if_splits sum.splits)
qed

text \<open>A hosted turn only makes calm changes to the daemon.\<close>

lemma msg_execute_calm: "calm s (snd (msg_execute (hosted_ops env i) j s))"
proof -
  have "peer_send_message env i to t s = (ok, s') \<Longrightarrow> calm s s'" for to t ok s'
    using calm_peer_ops(1)[of s env i to t] by simp
  then show ?thesis
    by (auto simp: msg_execute_def hosted_ops_def split: sum.splits prod.splits bool.splits)
qed

lemma peers_execute_same: "snd (peers_execute (hosted_ops env i) j s) = s"
  by (auto simp: peers_execute_def hosted_ops_def Let_def split: sum.splits)

interpretation hosted_turn: env_invariant "hosted_env env i outer" "\<lambda>(s, x). calm s0 s"
  for env i outer s0
proof
  fix w :: "server \<times> 'a" and n :: string and j :: json and path :: string
  obtain s x where w: "w = (s, x)" by fastforce
  assume c: "case w of (s, x) \<Rightarrow> calm s0 s"
  then have c: "calm s0 s" by (simp add: w)
  show "case snd (te_exec (hosted_env env i outer) n j w) of (s, x) \<Rightarrow> calm s0 s"
    using calm_trans[OF c msg_execute_calm[of s env i j]] c peers_execute_same[of env i j s]
    by (auto simp: w hosted_env_def Let_def split: prod.splits)
  show "case te_register_read (hosted_env env i outer) path w of (s, x) \<Rightarrow> calm s0 s"
    using calm_trans[OF c calm_peer_ops(2)] by (simp add: w hosted_env_def)
  show "case te_report_write (hosted_env env i outer) path w of (s, x) \<Rightarrow> calm s0 s"
    using calm_trans[OF c calm_peer_ops(3)] by (simp add: w hosted_env_def)
qed (auto simp: hosted_env_def Let_def split: prod.splits)

lemma calm_put_agent:
  assumes "om_get (sv_agents s) i = Some sl" "ag_swarm (sl_agent sl)" "ag_swarm a"
    and "well_formed (ag_messages a)"
  shows "calm s (put_agent i a s)"
  using calm_slot[OF assms(1), of "sl\<lparr>sl_agent := a\<rparr>"] assms
  by (simp add: put_agent_def on_agent_def slot_calm_def)

lemma context_window_frame:
  assumes "agent_context_window q a = (n, a')"
  shows "ag_swarm a' = ag_swarm a" "ag_messages a' = ag_messages a"
  using assms by (auto simp: agent_context_window_def split: option.splits prod.splits)

lemma ok_slot:
  assumes "server_ok s" "om_get (sv_agents s) i = Some sl"
  shows "ag_swarm (sl_agent sl)" "well_formed (ag_messages (sl_agent sl))"
  using assms by (auto simp: server_ok_def slots_ok_def)

text \<open>The turn itself, before its frames are sent.\<close>

lemma hosted_turn_result:
  assumes "server_ok s" "om_get (sv_agents s) i = Some sl"
    and "run_turn (hosted_env env i outer) t \<lparr>ts_agent = sl_agent sl, ts_sink = [], ts_world = (s, x)\<rparr>
      = (Inr rc, st)"
  shows "calm s (fst (ts_world st)) \<and> ag_swarm (ts_agent st) \<and> well_formed (ag_messages (ts_agent st))"
proof -
  let ?st = "\<lparr>ts_agent = sl_agent sl, ts_sink = [], ts_world = (s, x)\<rparr>"
  note S = ok_slot[OF assms(1,2)]
  have "kept (\<lambda>(s', x). calm s s') True ?st" using S by (simp add: kept_def)
  from hosted_turn.kept_run_turn[OF this assms(3)]
  have "calm s (fst (ts_world st))" "ag_swarm (ts_agent st)"
    by (auto simp: kept_def split: prod.splits)
  moreover have "well_formed (ag_messages (ts_agent st))"
    using run_turn_wf[OF assms(3)] S by simp
  ultimately show ?thesis by blast
qed

text \<open>Up to the end of its thread a prompt makes only calm changes.\<close>

lemma run_prompt_calm:
  assumes "server_ok s" "run_prompt env outer i t x s = Inr (rc, s', x')"
  shows "\<exists>s0. calm s s0 \<and> s' = end_turn i s0"
proof -
  obtain sl where sl: "om_get (sv_agents s) i = Some sl"
    using assms(2) by (auto simp: run_prompt_def split: option.splits)
  let ?a = "sl_agent sl"
  obtain r calls a' s1 x1 where turn:
      "(if ag_provider ?a = None then (Inr 1, [SinkWarning no_provider_text], ?a, s, x)
        else (case run_turn (hosted_env env i outer) t
                    \<lparr>ts_agent = ?a, ts_sink = [], ts_world = (s, x)\<rparr> of
            (rc, st) \<Rightarrow> (rc, ts_sink st, ts_agent st, fst (ts_world st), snd (ts_world st))))
       = (r, calls, a', s1, x1)"
    by (rule prod_cases5) (erule that)
  obtain n where n: "r = Inr n"
    using assms(2) sl turn by (cases r) (auto simp: run_prompt_def Let_def)
  have t: "calm s s1 \<and> ag_swarm a' \<and> well_formed (ag_messages a')"
  proof (cases "ag_provider ?a = None")
    case True
    then show ?thesis using turn ok_slot[OF assms(1) sl] by simp
  next
    case False
    then obtain st where "run_turn (hosted_env env i outer) t
        \<lparr>ts_agent = ?a, ts_sink = [], ts_world = (s, x)\<rparr> = (Inr n, st)"
        "a' = ts_agent st" "s1 = fst (ts_world st)"
      using turn n by (auto split: prod.splits)
    with hosted_turn_result[OF assms(1) sl this(1)] show ?thesis by simp
  qed
  have ok1: "server_ok s1" using t calm_ok assms(1) by blast
  obtain sl1 where sl1: "om_get (sv_agents s1) i = Some sl1"
  proof -
    have "rel_option slot_calm (om_get (sv_agents s) i) (om_get (sv_agents s1) i)"
      using t by (simp add: calm_def)
    then show ?thesis using that sl by (auto simp: option_rel_Some1)
  qed
  let ?s1 = "put_agent i a' s1"
  have c1: "calm s ?s1"
    using calm_put_agent[OF sl1 ok_slot(1)[OF ok1 sl1]] t calm_trans by blast
  obtain alive s2 where w: "fold (wire_call (send_to env i)) calls (True, ?s1) = (alive, s2)"
    by fastforce
  have c2: "calm s s2" by (rule calm_trans[OF c1 calm_wire_fold[OF w]])
  have ok2: "server_ok s2" by (rule calm_ok[OF c2 assms(1)])
  show ?thesis
  proof (cases alive)
    case False
    then have "s' = end_turn i s2"
      using assms(2) sl turn n w by (simp add: run_prompt_def Let_def)
    with c2 show ?thesis by blast
  next
    case True
    obtain used ct where u: "agent_usage a' = (used, ct)" by fastforce
    obtain whole a'' where c: "agent_context_window (se_query env) a' = (whole, a'')" by fastforce
    let ?s3 = "put_agent i a'' s2"
    have "om_get (sv_agents s2) i \<noteq> None"
    proof -
      have "om_get (sv_agents ?s1) i \<noteq> None"
        using sl1 by (simp add: put_agent_def on_agent_def om_get_put)
      moreover have "rel_option slot_calm (om_get (sv_agents ?s1) i) (om_get (sv_agents s2) i)"
        using calm_wire_fold[OF w] by (simp add: calm_def)
      ultimately show ?thesis by (auto simp: option_rel_Some1)
    qed
    then obtain sl2 where sl2: "om_get (sv_agents s2) i = Some sl2" by blast
    have c3: "calm s2 ?s3"
      using calm_put_agent[OF sl2 ok_slot(1)[OF ok2 sl2]] t context_window_frame[OF c] by simp
    let ?s4 = "send_only env i (ctx_packet used whole) ?s3"
    obtain al s5 where d: "wire_done (send_to env i) n (True, ?s4) = (al, s5)" by fastforce
    have "calm s s5"
      by (rule calm_trans[OF calm_trans[OF calm_trans[OF c2 c3] calm_send_only(1)] calm_wire(2)[OF d]])
    moreover have "s' = end_turn i s5"
      using assms(2) sl turn n w True u c d by (simp add: run_prompt_def Let_def)
    ultimately show ?thesis by blast
  qed
qed

lemma run_prompt_ok:
  assumes "server_ok s" "run_prompt env outer i t x s = Inr (rc, s', x')"
  shows "server_ok s'"
proof -
  obtain s0 where "calm s s0" "s' = end_turn i s0" using run_prompt_calm[OF assms] by (elim exE conjE)
  with end_turn_ok[OF calm_ok[OF this(1) assms(1)]] show ?thesis by simp
qed

lemma server_step_ok: "server_step s s' \<Longrightarrow> server_ok s \<Longrightarrow> server_ok s'"
proof (induction rule: server_step.induct)
  case (hangup s i c env line s')
  then have "server_ok s' \<and> sv_clients s' = sv_clients s" using client_message_ok(2) by blast
  with hangup client_leave_ok show ?case by simp
qed (auto intro: client_hello_ok client_message_ok(1) client_leave_ok run_prompt_ok
      calm_ok[OF calm_poll])

lemma new_server_ok: "server_ok (new_server k solo)"
  by (simp add: new_server_def server_ok_def slots_ok_def members_ok_def members_of_def
      tables_ok_def readers_of_def)

lemma reachable_ok: "reachable k solo s \<Longrightarrow> server_ok s"
  unfolding reachable_def
  by (induction rule: rtranclp_induct) (auto intro: new_server_ok server_step_ok)

section \<open>What a client sees of its turn\<close>

lemma notify_out: "sv_out (notify_file_changed env path h who s) = sv_out s"
  by (simp add: notify_file_changed_def update_conflict_state_def Let_def server_simps)

lemma route_out: "sv_out (route_message env sender to t s) = sv_out s"
  by (simp add: route_message_def server_simps split: option.splits)

lemma record_read_out: "sv_out (record_read env path i h s) = sv_out s"
  by (simp add: record_read_def server_simps)

lemma msg_execute_out: "sv_out (snd (msg_execute (hosted_ops env i) j s)) = sv_out s"
  by (auto simp: msg_execute_def hosted_ops_def peer_send_message_def route_out
      split: sum.splits prod.splits bool.splits if_splits)

interpretation hosted_out: env_invariant "hosted_env env i outer" "\<lambda>(s, x). sv_out s = out"
  for env i outer out
proof
  fix w :: "server \<times> 'a" and n :: string and j :: json and path :: string
  obtain s x where w: "w = (s, x)" by fastforce
  assume "case w of (s, x) \<Rightarrow> sv_out s = out"
  then have c: "sv_out s = out" by (simp add: w)
  show "case snd (te_exec (hosted_env env i outer) n j w) of (s, x) \<Rightarrow> sv_out s = out"
    using c msg_execute_out[of env i j s] peers_execute_same[of env i j s]
    by (auto simp: w hosted_env_def Let_def split: prod.splits)
  show "case te_register_read (hosted_env env i outer) path w of (s, x) \<Rightarrow> sv_out s = out"
    using c by (simp add: w hosted_env_def peer_register_read_def Let_def record_read_out)
  show "case te_report_write (hosted_env env i outer) path w of (s, x) \<Rightarrow> sv_out s = out"
    using c by (simp add: w hosted_env_def peer_report_write_def Let_def notify_out)
qed (auto simp: hosted_env_def Let_def split: prod.splits)

text \<open>A client that can be reached.\<close>

definition reachable_at :: "server_env \<Rightarrow> string \<Rightarrow> int \<Rightarrow> server \<Rightarrow> bool" where
  "reachable_at env i fd s \<longleftrightarrow>
     (\<exists>c. om_get (sv_clients s) i = Some c \<and> cl_fd c = fd \<and> fd \<ge> 0 \<and> se_fd_ok env fd)"

lemma send_to_reachable:
  "reachable_at env i fd s \<Longrightarrow>
     send_to env i msg s = (True, s\<lparr>sv_out := sv_out s @ [(fd, msg)]\<rparr>)"
  by (auto simp: reachable_at_def send_to_def)

lemma reachable_at_calm: "calm s s' \<Longrightarrow> reachable_at env i fd s \<Longrightarrow> reachable_at env i fd s'"
  by (simp add: reachable_at_def calm_def)

definition stream_frame :: "int \<Rightarrow> int \<times> json \<Rightarrow> bool" where
  "stream_frame fd m \<longleftrightarrow> fst m = fd \<and> type_of (snd m) = ''stream''"

lemma type_of_call: "type_of (jupdate (frame ''stream'' []) (sink_fields c)) = ''stream''"
  by (cases c) (simp_all add: frame_def jobj_def type_of_def)

lemma type_of_done:
  "type_of (jupdate (frame ''stream'' []) (jobj [(''type'', JStr ''turn_done''), (''rc'', JInt rc)]))
     = ''turn_done''"
  by (simp add: frame_def jobj_def type_of_def)

definition done_frame :: "int \<Rightarrow> json" where
  "done_frame rc =
     jupdate (frame ''stream'' []) (jobj [(''type'', JStr ''turn_done''), (''rc'', JInt rc)])"

lemma done_frame_packet: "done_frame rc = turn_done_packet rc"
  by (simp add: done_frame_def turn_done_packet_def frame_def jobj_def)

lemma wire_fold_out:
  assumes "reachable_at env i fd s"
  shows "\<exists>s'. fold (wire_call (send_to env i)) cs (True, s) = (True, s') \<and> calm s s' \<and>
    sv_out s' = sv_out s @ map (\<lambda>c. (fd, call_frame c)) cs"
  using assms
proof (induction cs arbitrary: s)
  case Nil
  show ?case by auto
next
  case (Cons c cs)
  let ?s1 = "s\<lparr>sv_out := sv_out s @ [(fd, call_frame c)]\<rparr>"
  have w: "wire_call (send_to env i) c (True, s) = (True, ?s1)"
    using send_to_reachable[OF Cons.prems] by (simp add: wire_call_def wire_emit_def call_frame_def)
  have c1: "calm s ?s1" using calm_wire(1)[OF w] .
  obtain s' where r: "fold (wire_call (send_to env i)) cs (True, ?s1) = (True, s')"
      "calm ?s1 s'" "sv_out s' = sv_out ?s1 @ map (\<lambda>c. (fd, call_frame c)) cs"
    using Cons.IH[OF reachable_at_calm[OF c1 Cons.prems]] by blast
  have "sv_out s' = sv_out s @ map (\<lambda>c. (fd, call_frame c)) (c # cs)" using r(3) by simp
  moreover have "fold (wire_call (send_to env i)) (c # cs) (True, s) = (True, s')"
    using w r(1) by simp
  ultimately show ?case using calm_trans[OF c1 r(2)] by blast
qed

lemma stream_frames_of_calls: "list_all (stream_frame fd) (map (\<lambda>c. (fd, call_frame c)) cs)"
  by (induction cs) (simp_all add: stream_frame_def call_frame_def type_of_call)

lemma put_agent_out: "sv_out (put_agent i a s) = sv_out s"
  by (simp add: put_agent_def on_agent_def split: option.splits)

lemma end_turn_out: "sv_out (end_turn i s) = sv_out s"
  by (simp add: end_turn_def Let_def)

lemma put_agent_reachable: "reachable_at env i fd (put_agent j a s) = reachable_at env i fd s"
  by (simp add: reachable_at_def put_agent_def on_agent_def split: option.splits)

text \<open>The turn of a prompt: its result code and callbacks.\<close>

definition prompt_turn ::
    "server_env \<Rightarrow> 'x turn_env \<Rightarrow> string \<Rightarrow> string \<Rightarrow> 'x \<Rightarrow> server \<Rightarrow> (failure + int) \<times> sink_call list"
where
  "prompt_turn env outer i t x s =
     (case om_get (sv_agents s) i of
        None \<Rightarrow> (Inl Undefined, [])
      | Some slot \<Rightarrow>
          if ag_provider (sl_agent slot) = None then (Inr 1, [SinkWarning no_provider_text])
          else (case run_turn (hosted_env env i outer) t
                      \<lparr>ts_agent = sl_agent slot, ts_sink = [], ts_world = (s, x)\<rparr> of
              (rc, st) \<Rightarrow> (rc, ts_sink st)))"

lemma run_prompt_calls:
  assumes "server_ok s" "reachable_at env i fd s" "run_prompt env outer i t x s = Inr (rc, s', x')"
  shows "\<exists>calls used whole. prompt_turn env outer i t x s = (Inr rc, calls) \<and> sv_out s' = sv_out s @ map (\<lambda>c. (fd, call_frame c)) calls @
      [(fd, ctx_packet used whole), (fd, turn_done_packet rc)]"
proof -
  obtain sl where sl: "om_get (sv_agents s) i = Some sl"
    using assms(3) by (auto simp: run_prompt_def split: option.splits)
  let ?a = "sl_agent sl"
  obtain r calls a' s1 x1 where turn:
      "(if ag_provider ?a = None then (Inr 1, [SinkWarning no_provider_text], ?a, s, x)
        else (case run_turn (hosted_env env i outer) t
                    \<lparr>ts_agent = ?a, ts_sink = [], ts_world = (s, x)\<rparr> of
            (rc, st) \<Rightarrow> (rc, ts_sink st, ts_agent st, fst (ts_world st), snd (ts_world st))))
       = (r, calls, a', s1, x1)"
    by (rule prod_cases5) (erule that)
  obtain n where n: "r = Inr n"
    using assms(3) sl turn by (cases r) (auto simp: run_prompt_def Let_def)
  have t: "calm s s1 \<and> sv_out s1 = sv_out s"
  proof (cases "ag_provider ?a = None")
    case True
    then show ?thesis using turn by simp
  next
    case False
    then obtain st where st: "run_turn (hosted_env env i outer) t
        \<lparr>ts_agent = ?a, ts_sink = [], ts_world = (s, x)\<rparr> = (Inr n, st)" "s1 = fst (ts_world st)"
      using turn n by (auto split: prod.splits)
    have "kept (\<lambda>(s', x). sv_out s' = sv_out s) (ag_swarm ?a)
        \<lparr>ts_agent = ?a, ts_sink = [], ts_world = (s, x)\<rparr>"
      by (simp add: kept_def)
    from hosted_out.kept_run_turn[OF this st(1)] have "sv_out s1 = sv_out s"
      using st(2) by (auto simp: kept_def split: prod.splits)
    with hosted_turn_result[OF assms(1) sl st(1)] st(2) show ?thesis by simp
  qed
  have r1: "reachable_at env i fd (put_agent i a' s1)"
    using reachable_at_calm[OF _ assms(2)] t by (simp add: put_agent_reachable)
  obtain s2 where w: "fold (wire_call (send_to env i)) calls (True, put_agent i a' s1) = (True, s2)"
      "calm (put_agent i a' s1) s2" "sv_out s2 = sv_out s @ map (\<lambda>c. (fd, call_frame c)) calls"
    using wire_fold_out[OF r1, of calls] t by (auto simp: put_agent_out)
  obtain used ct where u: "agent_usage a' = (used, ct)" by fastforce
  obtain whole a'' where c: "agent_context_window (se_query env) a' = (whole, a'')" by fastforce
  let ?s3 = "put_agent i a'' s2"
  have r3: "reachable_at env i fd ?s3"
    using reachable_at_calm[OF w(2) r1] by (simp add: put_agent_reachable)
  let ?s4 = "send_only env i (ctx_packet used whole) ?s3"
  have s4: "?s4 = ?s3\<lparr>sv_out := sv_out ?s3 @ [(fd, ctx_packet used whole)]\<rparr>"
    using send_to_reachable[OF r3] by (simp add: send_only_def)
  have r4: "reachable_at env i fd ?s4" using r3 s4 by (simp add: reachable_at_def)
  have "wire_done (send_to env i) n (True, ?s4) =
      (True, ?s4\<lparr>sv_out := sv_out ?s4 @ [(fd, turn_done_packet n)]\<rparr>)"
    using send_to_reachable[OF r4] done_frame_packet[of n]
    by (simp add: wire_done_def wire_emit_def done_frame_def)
  then have "s' = end_turn i (?s4\<lparr>sv_out := sv_out ?s4 @ [(fd, turn_done_packet n)]\<rparr>)" "rc = n"
    using assms(3) sl turn n w(1) u c by (auto simp: run_prompt_def Let_def)
  then have "sv_out s' = sv_out s @ map (\<lambda>c. (fd, call_frame c)) calls @
      [(fd, ctx_packet used whole), (fd, turn_done_packet rc)]" "rc = n"
    using s4 w(3) by (simp_all add: end_turn_out put_agent_out)
  moreover have "prompt_turn env outer i t x s = (r, calls)"
    using sl turn by (auto simp: prompt_turn_def split: prod.splits if_splits)
  ultimately show ?thesis using n by blast
qed

lemma run_prompt_frames:
  assumes "server_ok s" "reachable_at env i fd s" "run_prompt env outer i t x s = Inr (rc, s', x')"
  shows "\<exists>frames used whole. sv_out s' = sv_out s @ frames @
      [(fd, ctx_packet used whole), (fd, turn_done_packet rc)] \<and> list_all (stream_frame fd) frames"
  using run_prompt_calls[OF assms] stream_frames_of_calls by blast

lemma client_listens: "server_ok s \<Longrightarrow> om_get (sv_clients s) i \<noteq> None \<Longrightarrow> listening i s"
  by (auto simp: server_ok_def slots_ok_def listening_def split: option.splits)



lemma leave_frame:
  assumes "om_get (sv_clients s) i = Some c"
  shows "om_get (sv_clients (client_leave i s)) i = None"
    "om_get (readers_of p (client_leave i s)) i = None"
    "members_ok s \<Longrightarrow> i \<notin> set (members_of r (client_leave i s))"
    "om_get (sv_agents (client_leave i s)) i \<noteq> None \<Longrightarrow>
       (\<exists>sl. om_get (sv_agents s) i = Some sl \<and> sl_busy sl)"
proof -
  note F = remove_client_frame[OF assms]
  have m: "sv_clients (client_leave i s) = sv_clients (remove_client i s)"
    "readers_of p (client_leave i s) = readers_of p (remove_client i s)"
    "members_of r (client_leave i s) = members_of r (remove_client i s)"
    "sv_agents (client_leave i s) = sv_agents (remove_client i s)"
    by (simp_all add: client_leave_def maybe_shutdown_def readers_of_def members_of_def)
  show "om_get (sv_clients (client_leave i s)) i = None" by (simp add: m F om_get_del)
  show "om_get (readers_of p (client_leave i s)) i = None" by (simp add: m F om_get_del)
  show "i \<notin> set (members_of r (client_leave i s))" if "members_ok s"
    using remove_client_members(1)[OF assms that] by (simp add: m)
  show "om_get (sv_agents (client_leave i s)) i \<noteq> None \<Longrightarrow>
       (\<exists>sl. om_get (sv_agents s) i = Some sl \<and> sl_busy sl)"
    by (auto simp: m F split: if_splits)
qed

section \<open>A daemon with two clients\<close>

lemma new_agent_fresh:
  "\<exists>a. new_agent td w prov = Inr a \<and> ag_inbox a = [] \<and> ag_provider a = prov"
  by (simp add: new_agent_def builtins_registered)

lemma send_state_frame:
  "inbox_of j (send_state env i s) = inbox_of j s"
  "sv_clients (send_state env i s) = sv_clients s"
  "sv_read_hashes (send_state env i s) = sv_read_hashes s"
  by (auto simp: send_state_def inbox_of_def send_only_def send_to_def Let_def om_get_put
      agent_context_window_def split: option.splits prod.splits)

lemma send_only_frame:
  "inbox_of j (send_only env i m s) = inbox_of j s"
  "sv_clients (send_only env i m s) = sv_clients s"
  "sv_read_hashes (send_only env i m s) = sv_read_hashes s"
  by (auto simp: send_only_def send_to_def inbox_of_def split: option.splits)

definition provider_of :: "string \<Rightarrow> server \<Rightarrow> provider option" where
  "provider_of i s =
     (case om_get (sv_agents s) i of None \<Rightarrow> None | Some sl \<Rightarrow> ag_provider (sl_agent sl))"

lemma send_state_provider:
  "provider_of i s = None \<Longrightarrow> provider_of j (send_state env i s) = provider_of j s"
  "provider_of j (send_only env i m s) = provider_of j s"
  "sv_api_key (send_state env i s) = sv_api_key s"
  "sv_api_key (send_only env i m s) = sv_api_key s"
  by (auto simp: send_state_def provider_of_def send_only_def send_to_def Let_def om_get_put
      agent_context_window_def split: option.splits prod.splits)

lemma hello_accepts:
  assumes "sv_api_key s = []" "se_parse env line = Some (hello_req repo name)" "name \<noteq> []" "repo \<noteq> []" "length name \<le> 64"
  shows "\<exists>s'. client_hello env i fd line s = HelloAccepted s' \<and>
    sv_clients s' = om_put i \<lparr>cl_id = i, cl_name = name, cl_repo = repo, cl_fd = fd\<rparr> (sv_clients s) \<and>
    sv_read_hashes s' = sv_read_hashes s \<and>
    inbox_of j s' = (if j = i then [] else inbox_of j s) \<and>
    provider_of j s' = (if j = i then None else provider_of j s) \<and> sv_api_key s' = []"
proof -
  obtain peers s1 where r: "hello_register i name repo fd s = (peers, s1)" by fastforce
  have s1: "sv_clients s1 = om_put i \<lparr>cl_id = i, cl_name = name, cl_repo = repo, cl_fd = fd\<rparr> (sv_clients s)"
    "sv_agents s1 = sv_agents s" "sv_read_hashes s1 = sv_read_hashes s" "sv_api_key s1 = []"
    using r assms(1) by (auto simp: hello_register_def Let_def)
  obtain a where a: "new_agent (se_tool_def env) (se_sys_world env)
      (make_provider ''openrouter'' (sv_api_key s1)) = Inr a" "ag_inbox a = []"
      "ag_provider a = None"
    using new_agent_fresh[of "se_tool_def env" "se_sys_world env" "make_provider ''openrouter'' []"] s1(4)
    by (auto simp: make_provider_def)
  then obtain s2 where c: "create_agent_slot env i repo s1 = Inr s2" "sv_clients s2 = sv_clients s1"
      "sv_read_hashes s2 = sv_read_hashes s1"
      "inbox_of j s2 = (if j = i then [] else inbox_of j s)"
      "provider_of k s2 = (if k = i then None else provider_of k s)" "sv_api_key s2 = []" for k
    using s1(2,4) by (simp add: create_agent_slot_def inbox_of_def om_get_put attach_swarm_def
        set_tool_cwd_base_def provider_of_def)
  have f: "type_of (hello_req repo name) = ''hello''"
    "value_str (hello_req repo name) ''name'' [] = Inr name"
    "value_str (hello_req repo name) ''repo'' [] = Inr repo"
    by (simp_all add: hello_req_def frame_def jobj_def type_of_def value_of_def om_get_def)
  show ?thesis
    using assms r c s1
    by (simp add: client_hello_def f Let_def send_state_frame send_only_frame send_state_provider)
qed

definition sample_env :: server_env where
  "sample_env =
     \<lparr>se_disk = (\<lambda>p. Some \<lparr>df_mtime = 1, df_size = 1, df_bytes = Some ''x''\<rparr>), se_now = ''now'',
      se_canon = (\<lambda>base p. p), se_query = (\<lambda>m. 100),
      se_tool_def = (\<lambda>n. \<lparr>td_name = n, td_description = [], td_input_schema = JNull\<rparr>),
      se_sys_world = sample_world,
      se_parse = (\<lambda>l. if l = ''h'' then Some (hello_req ''/r'' ''ann'')
                      else if l = ''r'' then Some (read_req ''f'' ''7'')
                      else if l = ''bad'' then Some (frame ''prompt'' [(''text'', JInt 5)]) else None),
      se_fd_ok = (\<lambda>fd. True)\<rparr>"

abbreviation ann :: "string \<Rightarrow> int \<Rightarrow> client" where
  "ann i fd \<equiv> \<lparr>cl_id = i, cl_name = ''ann'', cl_repo = ''/r'', cl_fd = fd\<rparr>"

text \<open>Two clients of one repository have connected; the first has read a file.\<close>

lemma two_clients:
  "\<exists>s. reachable [] True s \<and> sv_clients s = [(''a1'', ann ''a1'' 5), (''b2'', ann ''b2'' 6)] \<and>
     readers_of ''f'' s = [(''a1'', ''7'')] \<and> inbox_of ''a1'' s = [] \<and> inbox_of ''b2'' s = [] \<and>
     provider_of ''a1'' s = None"
proof -
  let ?s0 = "new_server [] True"
  have p: "se_parse sample_env ''h'' = Some (hello_req ''/r'' ''ann'')"
    "se_parse sample_env ''r'' = Some (read_req ''f'' ''7'')"
    by (simp_all add: sample_env_def)
  have H: "sv_api_key s = [] \<Longrightarrow> \<exists>s'. client_hello sample_env i fd ''h'' s = HelloAccepted s' \<and>
      sv_clients s' = om_put i (ann i fd) (sv_clients s) \<and> sv_read_hashes s' = sv_read_hashes s \<and>
      inbox_of j s' = (if j = i then [] else inbox_of j s) \<and>
      provider_of j s' = (if j = i then None else provider_of j s) \<and> sv_api_key s' = []" for i fd s j
    by (rule hello_accepts[OF _ p(1)]) simp_all
  obtain s1 where s1: "client_hello sample_env ''a1'' 5 ''h'' ?s0 = HelloAccepted s1"
      "sv_clients s1 = [(''a1'', ann ''a1'' 5)]" "sv_read_hashes s1 = []" "inbox_of ''a1'' s1 = []"
      "provider_of ''a1'' s1 = None" "sv_api_key s1 = []"
    using H[of ?s0 "''a1''" 5 "''a1''"] by (auto simp: new_server_def)
  have st1: "server_step ?s0 s1"
    by (rule accepted[OF _ _ s1(1)]) (simp_all add: new_server_def)
  have ok1: "server_ok s1" by (rule server_step_ok[OF st1 new_server_ok])
  have c1: "om_get (sv_clients s1) ''b2'' = None" by (simp add: s1(2) om_get_def)
  have run1: "sv_running s1 = []"
    using s1(1) by (auto simp: client_hello_def Let_def hello_register_def create_agent_slot_def
        bind_outcome_Inr send_state_def send_only_def send_to_def new_server_def
        split: option.splits if_splits sum.splits prod.splits)
  have a1: "om_get (sv_agents s1) ''b2'' = None"
  proof (cases "om_get (sv_agents s1) ''b2''")
    case (Some sl)
    then show ?thesis using ok1 c1 run1 by (auto simp: server_ok_def slots_ok_def)
  qed
  have o: "om_put ''b2'' x [(''a1'', ann ''a1'' 5)] = [(''a1'', ann ''a1'' 5), (''b2'', x)]" for x
    by (simp add: less_list_code byte_less)
  obtain s2 where s2: "client_hello sample_env ''b2'' 6 ''h'' s1 = HelloAccepted s2"
      "sv_clients s2 = [(''a1'', ann ''a1'' 5), (''b2'', ann ''b2'' 6)]" "sv_read_hashes s2 = []"
      "inbox_of ''a1'' s2 = []" "provider_of ''a1'' s2 = None"
    using H[OF s1(6), of "''b2''" 6 "''a1''"] unfolding s1(2,3) o s1(4,5) by auto
  have i2: "inbox_of ''b2'' s2 = []"
    using H[OF s1(6), of "''b2''" 6 "''b2''"] s2(1) by auto
  have st2: "server_step s1 s2" by (rule accepted[OF c1 a1 s2(1)])
  let ?s3 = "record_read sample_env ''f'' ''a1'' ''7'' s2"
  have m: "client_message sample_env ''a1'' (cl_repo (ann ''a1'' 5)) ''r'' s2 = Handled ?s3"
    using p(2) by (simp add: client_message_def read_req_def frame_def jobj_def type_of_def with_str_def
        value_of_def om_get_def Let_def sample_env_def)
  have st3: "server_step s2 ?s3"
    by (rule message[OF _ m]) (simp add: s2(2) om_get_def)
  have "reachable [] True ?s3"
    unfolding reachable_def
    by (rule rtranclp_trans[OF rtranclp_trans[OF r_into_rtranclp[of server_step, OF st1]
          r_into_rtranclp[of server_step, OF st2]] r_into_rtranclp[of server_step, OF st3]])
  moreover have "sv_clients ?s3 = sv_clients s2" "readers_of ''f'' ?s3 = [(''a1'', ''7'')]"
    "inbox_of j ?s3 = inbox_of j s2" "provider_of j ?s3 = provider_of j s2" for j
    using s2(3) by (simp_all add: record_read_def server_simps inbox_of_def readers_of_def om_get_def
        refresh_watch_def provider_of_def)
  ultimately show ?thesis using s2(2,4,5) i2 by (intro exI[of _ ?s3]) simp
qed

lemma run_prompt_no_provider:
  assumes "om_get (sv_agents s) i = Some sl" "provider_of i s = None"
  shows "\<exists>s'. run_prompt env outer i t x s = Inr (1, s', x)"
  using assms by (simp add: run_prompt_def provider_of_def Let_def split: prod.splits)

section \<open>Properties\<close>



text \<open>C16: A changed file is announced to exactly the agents that read it with another hash, except the
  one that changed it; the new hash becomes what every reader is taken to know, so a second
  announcement of the same hash tells nobody.\<close>

theorem conflict_announcement:
  assumes "reachable k solo s"
  shows "inbox_of i (notify_file_changed env path h who s) =
      (if i \<noteq> who \<and> (\<exists>had. om_get (readers_of path s) i = Some had \<and> had \<noteq> h) \<and> listening i s
       then with_line (''[swarm] conflict: '' @ path @ '' was changed by '' @ who @ '' at '' @ se_now env)
         (inbox_of i s)
       else inbox_of i s) \<and>
    om_get (readers_of path (notify_file_changed env path h who s)) i =
      map_option (\<lambda>_. h) (om_get (readers_of path s) i) \<and>
    inbox_of i (notify_file_changed env path h by2 (notify_file_changed env path h who s)) =
      inbox_of i (notify_file_changed env path h who s)"
proof -
  have ok: "server_ok s" by (rule reachable_ok[OF assms])
  let ?s = "notify_file_changed env path h who s"
  have o: "om_ok (readers_of path s)" "om_ok (readers_of path ?s)"
    using ok calm_ok[OF calm_notify ok] by (simp_all add: server_ok_def tables_ok_def)
  have r: "om_get (readers_of path ?s) i = map_option (\<lambda>_. h) (om_get (readers_of path s) i)"
    by (simp add: notify_file_changed_readers om_get_map_keys)
  have quiet: "\<not> (\<exists>had. om_get (readers_of path ?s) i = Some had \<and> had \<noteq> h)"
    unfolding r by (cases "om_get (readers_of path s) i") simp_all
  have "inbox_of i (notify_file_changed env path h by2 ?s) = inbox_of i ?s"
    unfolding notify_file_changed_inbox[OF o(2)] by (simp only: quiet simp_thms if_False)
  with r notify_file_changed_inbox[OF o(1)] show ?thesis by blast
qed

theorem conflict_announcement_witness:
  "\<exists>s. inbox_of ''a1'' s = [] \<and> inbox_of ''a1'' (notify_file_changed sample_env ''f'' ''8'' ''b2'' s) =
     [''[swarm] conflict: f was changed by b2 at now'']"
proof -
  obtain s where s: "reachable [] True s" "readers_of ''f'' s = [(''a1'', ''7'')]" "inbox_of ''a1'' s = []"
      "sv_clients s = [(''a1'', ann ''a1'' 5), (''b2'', ann ''b2'' 6)]"
    using two_clients by blast
  have l: "listening ''a1'' s"
    by (rule client_listens[OF reachable_ok[OF s(1)]]) (simp add: s(4) om_get_def)
  show ?thesis
    using conflict_announcement[OF s(1), of "''a1''" sample_env "''f''" "''8''" "''b2''"] s(2,3) l
    by (intro exI[of _ s]) (simp add: om_get_def with_line_def inbox_cap_def sample_env_def)
qed



text \<open>Polling an unchanged disk a second time changes nothing and announces nothing.\<close>

theorem poll_settles: "poll_tick env (poll_tick env s) = poll_tick env s"
  by (rule settled_tick[OF poll_tick_settled])

text \<open>A client whose connection stays up gets, for a prompt that was started, only \<open>stream\<close> frames,
  then one \<open>ctx\<close> frame, then one \<open>turn_done\<close> frame with the turn's code, which comes last.\<close>

theorem turn_frames:
  assumes "reachable k solo s" and "reachable_at env i fd s"
    and "run_prompt env outer i t x s = Inr (rc, s', x')"
  shows "\<exists>frames used whole. sv_out s' = sv_out s @ frames @
      [(fd, ctx_packet used whole), (fd, turn_done_packet rc)] \<and> list_all (stream_frame fd) frames"
  by (rule run_prompt_frames[OF reachable_ok[OF assms(1)] assms(2,3)])

theorem turn_frames_witness:
  "\<exists>(s :: server) (s' :: server) frames used whole. sv_out s' = sv_out s @ frames @
     [(5, ctx_packet used whole), (5, turn_done_packet 1)] \<and> list_all (stream_frame 5) frames"
proof -
  obtain s where s: "reachable [] True s" "provider_of ''a1'' s = None"
      "sv_clients s = [(''a1'', ann ''a1'' 5), (''b2'', ann ''b2'' 6)]"
    using two_clients by blast
  have "om_get (sv_clients s) ''a1'' \<noteq> None" by (simp add: s(3) om_get_def)
  then obtain sl where "om_get (sv_agents s) ''a1'' = Some sl"
    using reachable_ok[OF s(1)] by (auto simp: server_ok_def slots_ok_def)
  from run_prompt_no_provider[OF this s(2), of sample_env script_env "''go''" "[]"] obtain s' where
      r: "run_prompt sample_env script_env ''a1'' ''go'' [] s = Inr (1, s', [])"
    by blast
  have "reachable_at sample_env ''a1'' 5 s"
    by (simp add: reachable_at_def s(3) om_get_def sample_env_def)
  from turn_frames[OF s(1) this r] show ?thesis by blast
qed

text \<open>When a connection ends, nothing of the client is left in the client, member and reader tables,
  and its agent stays only while a turn of it is running.\<close>

theorem leaving_cleans_up:
  assumes "reachable k solo s" and "om_get (sv_clients s) i = Some c"
  shows "om_get (sv_clients (client_leave i s)) i = None \<and>
    om_get (readers_of p (client_leave i s)) i = None \<and>
    i \<notin> set (members_of r (client_leave i s)) \<and>
    (om_get (sv_agents (client_leave i s)) i \<noteq> None \<longrightarrow> i \<in> fst ` set (sv_running s))"
proof -
  have ok: "server_ok s" by (rule reachable_ok[OF assms(1)])
  then have m: "members_ok s" by (simp add: server_ok_def)
  note L = leave_frame[OF assms(2)]
  have "om_get (sv_agents (client_leave i s)) i \<noteq> None \<longrightarrow> i \<in> fst ` set (sv_running s)"
    using L(4) ok unfolding server_ok_def slots_ok_def by blast
  then show ?thesis by (intro conjI L(1) L(2) L(3)[OF m])
qed

theorem leaving_cleans_up_witness:
  "\<exists>s. om_get (readers_of ''f'' s) ''a1'' = Some ''7'' \<and>
     om_get (readers_of ''f'' (client_leave ''a1'' s)) ''a1'' = None \<and>
     ''a1'' \<notin> set (members_of ''/r'' (client_leave ''a1'' s))"
proof -
  obtain s where s: "reachable [] True s" "readers_of ''f'' s = [(''a1'', ''7'')]"
      "sv_clients s = [(''a1'', ann ''a1'' 5), (''b2'', ann ''b2'' 6)]"
    using two_clients by blast
  have "om_get (sv_clients s) ''a1'' = Some (ann ''a1'' 5)" by (simp add: s(3) om_get_def)
  from leaving_cleans_up[OF s(1) this] s(2) show ?thesis by (intro exI[of _ s]) (simp add: om_get_def)
qed

text \<open>A solo daemon closes at the end of any turn that leaves it without clients, even while another
  agent's turn is still running.\<close>

theorem solo_closes_on_running_turn:
  "let s = (new_server [] True)\<lparr>sv_running := [(''a1'', ''x''), (''b2'', ''y'')]\<rparr>
   in sv_closing (end_turn ''a1'' s) \<and> sv_running (end_turn ''a1'' s) = [(''b2'', ''y'')] \<and>
      \<not> sv_closing (client_leave ''a1'' (s\<lparr>sv_agents := [(''b2'',
        \<lparr>sl_agent = script_agent, sl_busy = True\<rparr>)]\<rparr>))"
  by code_simp

text \<open>A field of the wrong type in a client's message ends the daemon: the exception leaves the
  connection's thread.\<close>

theorem malformed_field_crashes: "client_message sample_env ''a1'' ''/r'' ''bad'' s = Crashed"
  by (simp add: client_message_def sample_env_def type_of_def frame_def jobj_def with_str_def
      value_of_def om_get_def type_error_302_def Let_def)

end
