(* ===== verification/Swarm_Run.thy ===== *)
theory Swarm_Run
  imports Swarm_Server
begin

text \<open>
  The life of the daemon process (\<open>src/server/server.cpp\<close>): the ids it draws, the listening socket, the
  loop that accepts connections and how it ends, and the sleep of the poller. The socket calls and the
  random numbers are parameters; what the other threads do between two turns of the loop is the state
  each turn finds.
\<close>

section \<open>Ids\<close>

definition hex_id_digits :: string where "hex_id_digits = ''0123456789abcdef''"

text \<open>\<open>rng\<close> are the numbers the generator gives.\<close>

definition random_hex_id :: "nat list \<Rightarrow> string" where
  "random_hex_id rng = map (\<lambda>n. hex_id_digits ! (n mod 16)) (take 4 rng)"

lemma random_hex_id_collides: "random_hex_id [16, 1, 2, 3] = random_hex_id [0, 17, 34, 51]"
  by (simp add: random_hex_id_def)

section \<open>The listening socket\<close>

text \<open>One address of \<open>getaddrinfo\<close>: no socket, a socket that cannot be bound or listened on, or one that can.\<close>

datatype address = NoSocket | NotBound int | Bound int

text \<open>The socket that listens and the sockets that were closed on the way.\<close>

fun try_addresses :: "address list \<Rightarrow> int option \<times> int list" where
  "try_addresses [] = (None, [])"
| "try_addresses (NoSocket # as) = try_addresses as"
| "try_addresses (NotBound fd # as) = (let (r, closed) = try_addresses as in (r, fd # closed))"
| "try_addresses (Bound fd # as) = (Some fd, [])"

definition listen_socket :: "string \<Rightarrow> int \<Rightarrow> string + address list \<Rightarrow> (string + int) \<times> int list" where
  "listen_socket host port found =
     (let place = host @ '':'' @ int_str port in
      case found of
        Inl reason \<Rightarrow> (Inl (''Error: getaddrinfo('' @ place @ ''): '' @ reason), [])
      | Inr as \<Rightarrow>
          (case try_addresses as of
             (None, closed) \<Rightarrow> (Inl (''Error: could not bind '' @ place), closed)
           | (Some fd, closed) \<Rightarrow> (Inr fd, closed)))"

fun opened_sockets :: "address list \<Rightarrow> int list" where
  "opened_sockets [] = []"
| "opened_sockets (NoSocket # as) = opened_sockets as"
| "opened_sockets (NotBound fd # as) = fd # opened_sockets as"
| "opened_sockets (Bound fd # as) = [fd]"

text \<open>Every socket made is closed again or is the one that listens.\<close>

lemma no_socket_leaks:
  "opened_sockets as = snd (try_addresses as) @ (case fst (try_addresses as) of None \<Rightarrow> [] | Some fd \<Rightarrow> [fd])"
  by (induction as rule: try_addresses.induct) (simp_all split: prod.split)

section \<open>The accept loop\<close>

text \<open>What \<open>poll\<close> and \<open>accept\<close> answer: interrupted, failed, timed out, readable with the descriptor of the
  connection (negative when there is none), or another event.\<close>

datatype poll_answer = Interrupted | PollFailed | TimedOut | Connection int | OtherEvent

text \<open>A turn of the loop: the signal flag and the daemon's state as the condition finds them, and the answer
  of \<open>poll\<close>. The result is the descriptors that got a thread and the last state; \<open>None\<close> while the loop runs.\<close>

fun accept_loop :: "(bool \<times> server \<times> poll_answer) list \<Rightarrow> (int list \<times> server) option" where
  "accept_loop [] = None"
| "accept_loop ((stop, s, answer) # ticks) =
     (if stop \<or> sv_closing s then Some ([], s)
      else case answer of
          Interrupted \<Rightarrow> accept_loop ticks
        | PollFailed \<Rightarrow> Some ([], s)
        | TimedOut \<Rightarrow> accept_loop ticks
        | Connection fd \<Rightarrow>
            map_option (\<lambda>(fds, s'). (if 0 \<le> fd then fd # fds else fds, s')) (accept_loop ticks)
        | OtherEvent \<Rightarrow> accept_loop ticks)"

record daemon_end =
  de_code :: int
  de_server :: "server option"
  de_threads :: "int list"
  de_closed :: "int list"
  de_error :: string

definition connected_fds :: "server \<Rightarrow> int list" where
  "connected_fds s = map cl_fd (filter (\<lambda>c. 0 \<le> cl_fd c) (map snd (sv_clients s)))"

text \<open>\<open>run\<close>: \<open>meanwhile\<close> is what the other threads do while the poller is joined.\<close>

definition run_daemon ::
    "string \<Rightarrow> int \<Rightarrow> string + address list \<Rightarrow> (bool \<times> server \<times> poll_answer) list \<Rightarrow> (server \<Rightarrow> server) \<Rightarrow>
     daemon_end option" where
  "run_daemon host port found ticks meanwhile =
     (case listen_socket host port found of
        (Inl e, closed) \<Rightarrow>
          Some \<lparr>de_code = 1, de_server = None, de_threads = [], de_closed = closed, de_error = e\<rparr>
      | (Inr sfd, closed) \<Rightarrow>
          (case accept_loop ticks of
             None \<Rightarrow> None
           | Some (fds, s) \<Rightarrow>
               let s1 = meanwhile (s\<lparr>sv_closing := True\<rparr>) in
               Some \<lparr>de_code = 0, de_server = Some (shutdown_clients s1), de_threads = fds,
                     de_closed = closed @ connected_fds s1 @ [sfd], de_error = []\<rparr>))"

section \<open>The poller's sleep\<close>

text \<open>The sleep before a round, in steps of 250 ms that look at \<open>closing_\<close> in between: the time slept; \<open>None\<close>
  when what is known of the flag ends before.\<close>

fun poller_sleep :: "int \<Rightarrow> int \<Rightarrow> bool list \<Rightarrow> int option" where
  "poller_sleep poll_ms elapsed [] = (if elapsed < poll_ms then None else Some elapsed)"
| "poller_sleep poll_ms elapsed (closing # later) =
     (if elapsed < poll_ms \<and> \<not> closing then poller_sleep poll_ms (elapsed + 250) later else Some elapsed)"

lemma poller_sleep_bound:
  "poller_sleep poll_ms elapsed flags = Some t \<Longrightarrow> 
   elapsed \<le> t \<and> (if elapsed < poll_ms then t < poll_ms + 250 else t = elapsed)"
  by (induction poll_ms elapsed flags rule: poller_sleep.induct) (fastforce split: if_splits)+

text \<open>After \<open>closing_\<close> is set the poller sleeps at most the step it is in.\<close>

lemma poller_wakes:
  "poller_sleep poll_ms elapsed (replicate n False @ True # flags) = Some t \<Longrightarrow> t \<le> elapsed + 250 * int n"
proof (induction n arbitrary: elapsed)
  case (Suc n)
  then show ?case by (fastforce split: if_splits)
qed (auto split: if_splits)

section \<open>How the daemon ends\<close>

definition stops :: "bool \<times> server \<times> poll_answer \<Rightarrow> bool" where
  "stops tick = (case tick of (stop, s, answer) \<Rightarrow> stop \<or> sv_closing s \<or> answer = PollFailed)"

fun connections :: "(bool \<times> server \<times> poll_answer) list \<Rightarrow> int list" where
  "connections [] = []"
| "connections ((stop, s, Connection fd) # ticks) = (if 0 \<le> fd then fd # connections ticks else connections ticks)"
| "connections (tick # ticks) = connections ticks"

lemma accept_loop_stops:
  assumes "list_all (\<lambda>tick. \<not> stops tick) before" "stops (stop, s, answer)"
  shows "accept_loop (before @ (stop, s, answer) # later) = Some (connections before, s)"
  using assms(1)
proof (induction before rule: connections.induct)
  case 1
  then show ?case using assms(2) by (auto simp: stops_def split: poll_answer.split)
qed (simp_all add: stops_def)

lemma accept_loop_waits: "list_all (\<lambda>tick. \<not> stops tick) ticks \<Longrightarrow> accept_loop ticks = None"
  by (induction ticks rule: connections.induct) (auto simp: stops_def)

text \<open>The daemon accepts connections until a signal, a request to close or a failing \<open>poll\<close>, and then ends
  with code 0: whoever is connected at that moment is told, and every socket is closed.\<close>

theorem daemon_ends_when_told:
  assumes "list_all (\<lambda>tick. \<not> stops tick) before" "stops (stop, s, answer)"
    and "listen_socket host port found = (Inr sfd, closed)"
  shows "run_daemon host port found before meanwhile = None \<and>
    (\<exists>s' e. run_daemon host port found (before @ (stop, s, answer) # later) meanwhile = Some e \<and>
      de_code e = 0 \<and> de_threads e = connections before \<and> de_server e = Some s' \<and>
      sfd \<in> set (de_closed e) \<and>
      (\<forall>(i, c) \<in> set (sv_clients s'). 0 \<le> cl_fd c \<longrightarrow>
         (cl_fd c, shutdown_msg) \<in> set (sv_out s') \<and> cl_fd c \<in> set (de_closed e)))"
proof -
  let ?s = "meanwhile (s\<lparr>sv_closing := True\<rparr>)"
  let ?e = "\<lparr>de_code = 0, de_server = Some (shutdown_clients ?s), de_threads = connections before,
      de_closed = closed @ connected_fds ?s @ [sfd], de_error = []\<rparr>"
  have r: "run_daemon host port found (before @ (stop, s, answer) # later) meanwhile = Some ?e"
    by (simp add: run_daemon_def assms(3) accept_loop_stops[OF assms(1,2)] Let_def)
  have c: "sv_clients (shutdown_clients ?s) = sv_clients ?s" by (simp add: shutdown_clients_def)
  have "(cl_fd c, shutdown_msg) \<in> set (sv_out (shutdown_clients ?s)) \<and> cl_fd c \<in> set (connected_fds ?s)"
    if "(i, c) \<in> set (sv_clients ?s)" "0 \<le> cl_fd c" for i c
    using that by (force simp: shutdown_clients_def connected_fds_def)
  then have "\<forall>(i, c) \<in> set (sv_clients (shutdown_clients ?s)). 0 \<le> cl_fd c \<longrightarrow>
      (cl_fd c, shutdown_msg) \<in> set (sv_out (shutdown_clients ?s)) \<and> cl_fd c \<in> set (de_closed ?e)"
    by (auto simp: c)
  moreover have "run_daemon host port found before meanwhile = None"
    by (simp add: run_daemon_def assms(3) accept_loop_waits[OF assms(1)])
  ultimately show ?thesis
    by (intro conjI exI[of _ "shutdown_clients ?s"] exI[of _ ?e] r) simp_all
qed

text \<open>The last client of a solo daemon takes the daemon with it, when no turn is running.\<close>

theorem solo_daemon_ends:
  assumes "sv_solo s" "sv_clients (remove_client i s) = []"
    and "list_all (\<lambda>(j, slot). \<not> sl_busy slot) (sv_agents (remove_client i s))"
    and "listen_socket host port found = (Inr sfd, closed)"
  shows "\<exists>e. run_daemon host port found [(False, client_leave i s, TimedOut)] meanwhile = Some e \<and> de_code e = 0"
proof -
  have "sv_solo (remove_client i s)" using assms(1) by (simp add: remove_client_def Let_def split: option.split)
  then have "sv_closing (client_leave i s)" using assms(2,3) by (simp add: client_leave_def maybe_shutdown_def)
  then show ?thesis by (simp add: run_daemon_def assms(4) Let_def)
qed

theorem daemon_ends_when_told_witness:
  "run_daemon ''h'' 1 (Inr [NotBound 3, Bound 4]) [(False, new_server [] False, Connection 7)] id = None"
proof -
  have "listen_socket ''h'' 1 (Inr [NotBound 3, Bound 4]) = (Inr 4, [3])" by (simp add: listen_socket_def Let_def)
  from daemon_ends_when_told[OF _ _ this,
      of "[(False, new_server [] False, Connection 7)]" True "new_server [] False" TimedOut id "[]"]
  show ?thesis by (simp add: stops_def new_server_def)
qed

theorem solo_daemon_ends_witness:
  "\<exists>e. run_daemon ''h'' 1 (Inr [Bound 4]) [(False, client_leave ''a'' (new_server [] True), TimedOut)] id = Some e \<and>
     de_code e = 0"
  by (rule solo_daemon_ends[of _ _ _ _ _ 4 "[]"])
    (simp_all add: new_server_def remove_client_def Let_def om_get_def om_del_def listen_socket_def)

end
