(* ===== verification/Remote_Client.thy ===== *)
theory Remote_Client
  imports Swarm_Server
begin

text \<open>
  The client side of a served session: \<open>ServerClient\<close> (\<open>src/server/client.h\<close>, \<open>client.cpp\<close>) and the
  agent facade that mirrors the daemon's runtime (\<open>src/remote/remote_agent.h\<close>, \<open>remote_agent.cpp\<close>).
  Sockets, threads and the JSON parser are parameters: what the resolver and the connection attempts
  answer, which sends succeed, and the lines the reader thread gets. An exception in the reader
  thread ends the process (\<open>Inl\<close>).
\<close>

section \<open>State\<close>

text \<open>
  \<open>sc_\<close> fields are those of \<open>ServerClient\<close>, \<open>ra_\<close> fields those of \<open>RemoteAgent\<close>. \<open>sc_sent\<close> collects the
  frames handed to the socket, \<open>ra_calls\<close> the callbacks made on the active turn's sink and \<open>ra_lines\<close>
  the lines given to the realtime callback.
\<close>

record remote =
  sc_repo :: string
  sc_name :: string
  sc_id :: string
  sc_fd :: int
  sc_running :: bool
  sc_peers :: "json list"
  sc_sent :: "json list"
  ra_connected :: bool
  ra_provider :: string
  ra_model :: string
  ra_tools :: "tool_definition list"
  ra_stubs :: "tool_definition list"
  ra_peers :: "json list"
  ra_usage :: "int \<times> int"
  ra_ctx :: int
  ra_active :: bool
  ra_cancel :: bool
  ra_rc :: int
  ra_sink :: bool
  ra_calls :: "sink_call list"
  ra_realtime :: bool
  ra_lines :: "string list"

definition new_remote :: remote where
  "new_remote = \<lparr>sc_repo = [], sc_name = [], sc_id = [], sc_fd = -1, sc_running = False, sc_peers = [],
     sc_sent = [], ra_connected = False, ra_provider = [], ra_model = [], ra_tools = [], ra_stubs = [],
     ra_peers = [], ra_usage = (0, 0), ra_ctx = -1, ra_active = False, ra_cancel = False, ra_rc = 1,
     ra_sink = False, ra_calls = [], ra_realtime = False, ra_lines = []\<rparr>"

section \<open>Requests\<close>

definition send_frame :: "(json \<Rightarrow> bool) \<Rightarrow> json \<Rightarrow> remote \<Rightarrow> bool \<times> remote" where
  "send_frame ok j st = (ok j, st\<lparr>sc_sent := sc_sent st @ [j]\<rparr>)"

text \<open>\<open>canon\<close> is the canonical path, \<open>content\<close> what \<open>hash_file\<close> reads there.\<close>

definition client_register_read ::
    "(json \<Rightarrow> bool) \<Rightarrow> string \<Rightarrow> string option \<Rightarrow> remote \<Rightarrow> bool \<times> remote" where
  "client_register_read ok canon content st =
     (let h = hash_file content in if h = [] then (False, st) else send_frame ok (read_req canon h) st)"

definition client_report_write ::
    "(json \<Rightarrow> bool) \<Rightarrow> string \<Rightarrow> string option \<Rightarrow> remote \<Rightarrow> bool \<times> remote" where
  "client_report_write ok canon content st =
     (let h = hash_file content in if h = [] then (False, st) else send_frame ok (write_req canon h) st)"

definition client_send_message :: "(json \<Rightarrow> bool) \<Rightarrow> string \<Rightarrow> string \<Rightarrow> remote \<Rightarrow> bool \<times> remote" where
  "client_send_message ok to t st = (if t = [] then (False, st) else send_frame ok (msg_req to t) st)"

definition client_request_peers :: "(json \<Rightarrow> bool) \<Rightarrow> remote \<Rightarrow> bool \<times> remote" where
  "client_request_peers ok st = send_frame ok agents_req st"

definition client_send_prompt :: "(json \<Rightarrow> bool) \<Rightarrow> string \<Rightarrow> remote \<Rightarrow> bool \<times> remote" where
  "client_send_prompt ok t st = (if t = [] then (False, st) else send_frame ok (prompt_req t) st)"

definition client_send_clear :: "(json \<Rightarrow> bool) \<Rightarrow> remote \<Rightarrow> bool \<times> remote" where
  "client_send_clear ok st = send_frame ok clear_req st"

definition client_send_cancel :: "(json \<Rightarrow> bool) \<Rightarrow> remote \<Rightarrow> bool \<times> remote" where
  "client_send_cancel ok st = send_frame ok cancel_req st"

definition client_send_model :: "(json \<Rightarrow> bool) \<Rightarrow> string \<Rightarrow> remote \<Rightarrow> bool \<times> remote" where
  "client_send_model ok m st = (if m = [] then (False, st) else send_frame ok (model_req m) st)"

definition client_send_auth :: "(json \<Rightarrow> bool) \<Rightarrow> string \<Rightarrow> string \<Rightarrow> remote \<Rightarrow> bool \<times> remote" where
  "client_send_auth ok prov key st =
     (if prov = [] \<or> key = [] then (False, st) else send_frame ok (auth_req prov key) st)"

section \<open>Connecting\<close>

text \<open>
  \<open>ce_addrs\<close>: for each address the descriptor \<open>socket\<close> gives (negative on failure) and whether
  \<open>connect\<close> succeeds; \<open>ce_ack\<close> is the first line parsed, \<open>None\<close> when none came within five seconds or
  it did not parse.
\<close>

record connect_env =
  ce_resolved :: bool
  ce_addrs :: "(int \<times> bool) list"
  ce_hello_ok :: bool
  ce_ack :: "json option"

fun open_first :: "(int \<times> bool) list \<Rightarrow> int" where
  "open_first [] = -1"
| "open_first ((fd, ok) # rest) = (if fd < 0 then open_first rest else if ok then fd else open_first rest)"

definition peers_in :: "string \<Rightarrow> json \<Rightarrow> json list option" where
  "peers_in k msg = (case jfind msg k of Some (JArr ps) \<Rightarrow> Some ps | _ \<Rightarrow> None)"

definition client_connect :: "connect_env \<Rightarrow> string \<Rightarrow> string \<Rightarrow> remote \<Rightarrow> (bool \<times> remote) outcome" where
  "client_connect env repo name st0 =
     (let st = st0\<lparr>sc_repo := repo, sc_name := name\<rparr>; fd = open_first (ce_addrs env) in
      if \<not> ce_resolved env then Inr (False, st)
      else if fd < 0 then Inr (False, st)
      else let st1 = st\<lparr>sc_sent := sc_sent st @ [hello_req repo name]\<rparr> in
        if \<not> ce_hello_ok env then Inr (False, st1)
        else (case ce_ack env of
            None \<Rightarrow> Inr (False, st1)
          | Some ack \<Rightarrow>
              if type_of ack \<noteq> ''hello_ack'' then Inr (False, st1)
              else bind_outcome (value_str ack ''id'' []) (\<lambda>i.
                let st2 = st1\<lparr>sc_id := i\<rparr> in
                if i = [] then Inr (False, st2)
                else Inr (True, st2\<lparr>sc_fd := fd, sc_running := True,
                  sc_peers := (case peers_in ''peers'' ack of None \<Rightarrow> [] | Some ps \<Rightarrow> ps)\<rparr>))))"

definition remote_connect :: "connect_env \<Rightarrow> string \<Rightarrow> string \<Rightarrow> remote \<Rightarrow> (bool \<times> remote) outcome" where
  "remote_connect env repo name st =
     bind_outcome (client_connect env repo name st) (\<lambda>(ok, st'). Inr (ok, st'\<lparr>ra_connected := ok\<rparr>))"

definition client_disconnect :: "(json \<Rightarrow> bool) \<Rightarrow> remote \<Rightarrow> remote" where
  "client_disconnect ok st =
     (let st1 = st\<lparr>sc_running := False\<rparr>;
          st2 = (if sc_running st \<and> 0 \<le> sc_fd st then snd (send_frame ok bye_msg st1) else st1)
      in if 0 \<le> sc_fd st then st2\<lparr>sc_fd := -1\<rparr> else st2)"

section \<open>Frames from the daemon\<close>

definition tool_of_frame :: "json \<Rightarrow> tool_definition outcome" where
  "tool_of_frame t =
     bind_outcome (value_str t ''name'' []) (\<lambda>n.
     bind_outcome (value_str t ''description'' []) (\<lambda>d.
     bind_outcome (value_json t ''parameters'' (JObj [])) (\<lambda>p.
       Inr \<lparr>td_name = n, td_description = d, td_input_schema = p\<rparr>)))"

fun tools_of_frames :: "json list \<Rightarrow> tool_definition list outcome" where
  "tools_of_frames [] = Inr []"
| "tools_of_frames (t # ts) =
     bind_outcome (tool_of_frame t) (\<lambda>d. bind_outcome (tools_of_frames ts) (\<lambda>ds. Inr (d # ds)))"

definition on_call :: "sink_call \<Rightarrow> remote \<Rightarrow> remote" where
  "on_call c st = st\<lparr>ra_calls := ra_calls st @ [c]\<rparr>"

definition handle_stream_event :: "json \<Rightarrow> remote \<Rightarrow> remote outcome" where
  "handle_stream_event msg st =
     bind_outcome (value_str msg ''event'' []) (\<lambda>event.
       if event = ''header'' then
         bind_outcome (value_str msg ''provider'' []) (\<lambda>p.
         bind_outcome (value_str msg ''model'' []) (\<lambda>m. Inr (on_call (SinkHeader p m) st)))
       else if event = ''text_delta'' then
         bind_outcome (value_str msg ''text'' []) (\<lambda>t. Inr (on_call (SinkTextDelta t) st))
       else if event = ''tool_start'' then
         bind_outcome (value_str msg ''name'' []) (\<lambda>n. Inr (on_call (SinkToolStart n) st))
       else if event = ''tool_call'' then
         bind_outcome (value_str msg ''name'' []) (\<lambda>n.
         bind_outcome (value_json msg ''args'' (JObj [])) (\<lambda>a. Inr (on_call (SinkToolCall n a) st)))
       else if event = ''tool_result'' then
         bind_outcome (value_str msg ''text'' []) (\<lambda>t.
         bind_outcome (value_bool msg ''is_error'' False) (\<lambda>e. Inr (on_call (SinkToolResult t e) st)))
       else if event = ''summary'' then
         bind_outcome (value_int msg ''prompt'' 0) (\<lambda>p.
         bind_outcome (value_int msg ''completion'' 0) (\<lambda>c.
         bind_outcome (value_str msg ''model'' []) (\<lambda>m.
           Inr (on_call (SinkSummary m p c) (st\<lparr>ra_usage := (p, c)\<rparr>)))))
       else if event = ''warning'' then
         bind_outcome (value_str msg ''text'' []) (\<lambda>t. Inr (on_call (SinkWarning t) st))
       else Inr st)"

definition realtime_line :: "string \<Rightarrow> json \<Rightarrow> string outcome" where
  "realtime_line ty msg =
     (if ty = ''msg'' then
        bind_outcome (value_str msg ''from'' ''?'') (\<lambda>sender.
        bind_outcome (value_str msg ''text'' []) (\<lambda>t. Inr (''[swarm] <'' @ sender @ ''> '' @ t)))
      else
        bind_outcome (value_str msg ''path'' []) (\<lambda>path.
        bind_outcome (value_str msg ''by'' ''?'') (\<lambda>who.
        bind_outcome (value_str msg ''at'' ''?'') (\<lambda>at.
          Inr (''[swarm] conflict: '' @ path @ '' was changed by '' @ who @ '' at '' @ at)))))"

definition handle_frame :: "string \<Rightarrow> json \<Rightarrow> remote \<Rightarrow> remote outcome" where
  "handle_frame ty msg st =
     (if ty = ''state'' then
        bind_outcome (value_str msg ''provider'' []) (\<lambda>p.
        bind_outcome (value_str msg ''model'' []) (\<lambda>m.
        bind_outcome (value_int msg ''ctx'' (-1)) (\<lambda>c.
        bind_outcome (case peers_in ''tools'' msg of None \<Rightarrow> Inr [] | Some ts \<Rightarrow> tools_of_frames ts) (\<lambda>ds.
          Inr (st\<lparr>ra_provider := p, ra_model := m, ra_ctx := c, ra_tools := ds, ra_stubs := []\<rparr>)))))
      else if ty = ''agents_list'' then
        Inr (st\<lparr>ra_peers := (case peers_in ''agents'' msg of None \<Rightarrow> [] | Some ps \<Rightarrow> ps)\<rparr>)
      else if ty = ''ctx'' then
        bind_outcome (value_int msg ''total'' (ra_ctx st)) (\<lambda>c.
        bind_outcome (value_int msg ''used'' (fst (ra_usage st))) (\<lambda>u.
          Inr (st\<lparr>ra_ctx := c, ra_usage := (u, snd (ra_usage st))\<rparr>)))
      else if ty = ''msg'' \<or> ty = ''conflict'' then
        bind_outcome (realtime_line ty msg) (\<lambda>line.
          Inr (if ra_realtime st then st\<lparr>ra_lines := ra_lines st @ [line]\<rparr> else st))
      else if ty = ''shutdown'' \<or> ty = ''bye'' then
        Inr (st\<lparr>ra_connected := False, ra_active := False\<rparr>)
      else if ty = ''stream'' then
        (if \<not> ra_sink st \<or> \<not> ra_active st then Inr st
         else if ra_cancel st then Inr st
         else handle_stream_event msg st)
      else if ty = ''turn_done'' then
        bind_outcome (value_int msg ''rc'' 1) (\<lambda>rc.
          Inr (st\<lparr>ra_rc := rc, ra_cancel := False, ra_active := False\<rparr>))
      else Inr st)"

text \<open>The reader thread: the client's own list of peers, then the handler; a line that does not parse
  is skipped, a shutdown ends the loop, and so does the end of the connection.\<close>

definition receive_frame :: "json \<Rightarrow> remote \<Rightarrow> remote outcome" where
  "receive_frame msg st =
     handle_frame (type_of msg) msg
       (if type_of msg = ''agents_list''
        then (case peers_in ''agents'' msg of None \<Rightarrow> st | Some ps \<Rightarrow> st\<lparr>sc_peers := ps\<rparr>) else st)"

fun read_frames :: "(string \<Rightarrow> json option) \<Rightarrow> string list \<Rightarrow> remote \<Rightarrow> remote outcome" where
  "read_frames parse [] st = Inr st"
| "read_frames parse (l # ls) st =
     (if \<not> sc_running st then Inr st
      else case parse l of
        None \<Rightarrow> read_frames parse ls st
      | Some msg \<Rightarrow>
          bind_outcome (receive_frame msg st) (\<lambda>st'.
            if type_of msg = ''shutdown'' then Inr (st'\<lparr>sc_running := False\<rparr>)
            else read_frames parse ls st'))"

definition reader_loop :: "(string \<Rightarrow> json option) \<Rightarrow> string list \<Rightarrow> remote \<Rightarrow> remote outcome" where
  "reader_loop parse ls st =
     bind_outcome (read_frames parse ls st) (\<lambda>st'. Inr (st'\<lparr>sc_running := False\<rparr>))"

section \<open>The agent facade\<close>

definition remote_set_model :: "(json \<Rightarrow> bool) \<Rightarrow> string \<Rightarrow> remote \<Rightarrow> remote" where
  "remote_set_model ok m st =
     (let st1 = st\<lparr>ra_model := m\<rparr> in if ra_connected st then snd (client_send_model ok m st1) else st1)"

definition remote_set_credentials :: "(json \<Rightarrow> bool) \<Rightarrow> string \<Rightarrow> string \<Rightarrow> remote \<Rightarrow> bool \<times> remote" where
  "remote_set_credentials ok prov key st =
     (if \<not> ra_connected st then (False, st) else client_send_auth ok prov key st)"

text \<open>A stand-in is made once per declared tool.\<close>

definition remote_tool :: "string \<Rightarrow> remote \<Rightarrow> tool_definition option \<times> remote" where
  "remote_tool name st =
     (case find (\<lambda>d. td_name d = name) (ra_stubs st) of
        Some d \<Rightarrow> (Some d, st)
      | None \<Rightarrow> (case find (\<lambda>d. td_name d = name) (ra_tools st) of
            Some d \<Rightarrow> (Some d, st\<lparr>ra_stubs := ra_stubs st @ [d]\<rparr>)
          | None \<Rightarrow> (None, st)))"

definition stub_execute :: "json \<Rightarrow> string" where
  "stub_execute input = ''tools execute on the server, not on this client''"

definition remote_clear :: "(json \<Rightarrow> bool) \<Rightarrow> remote \<Rightarrow> remote" where
  "remote_clear ok st = (if ra_connected st then snd (client_send_clear ok st) else st)"

definition remote_swarm_connected :: "remote \<Rightarrow> bool" where
  "remote_swarm_connected st \<longleftrightarrow> ra_connected st \<and> sc_running st"

definition remote_cancel :: "(json \<Rightarrow> bool) \<Rightarrow> remote \<Rightarrow> remote" where
  "remote_cancel ok st =
     (if ra_active st then
        (let st1 = st\<lparr>ra_cancel := True\<rparr> in
         if ra_connected st then snd (client_send_cancel ok st1) else st1)
      else st)"

text \<open>The two halves of \<open>run_turn\<close>: up to the wait, which the reader thread ends, and after it.\<close>

definition start_turn :: "(json \<Rightarrow> bool) \<Rightarrow> string \<Rightarrow> remote \<Rightarrow> bool \<times> remote" where
  "start_turn ok prompt st =
     (if \<not> ra_connected st then
        (False, st\<lparr>ra_calls := [SinkWarning ''not connected to a swarm server'']\<rparr>)
      else let st1 = st\<lparr>ra_active := True, ra_cancel := False, ra_rc := 1, ra_sink := True, ra_calls := []\<rparr>;
               (sent, st2) = client_send_prompt ok prompt st1
        in if sent then (True, st2)
           else (False, on_call (SinkWarning ''failed to send prompt to swarm server'')
             (st2\<lparr>ra_active := False, ra_sink := False\<rparr>)))"

definition finish_turn :: "remote \<Rightarrow> int \<times> remote" where
  "finish_turn st = (ra_rc st, st\<lparr>ra_sink := False\<rparr>)"

text \<open>The turn while the given lines arrive; \<open>None\<close> is a turn that still waits.\<close>

definition remote_run_turn ::
    "(json \<Rightarrow> bool) \<Rightarrow> (string \<Rightarrow> json option) \<Rightarrow> string \<Rightarrow> string list \<Rightarrow> remote \<Rightarrow> (int option \<times> remote) outcome" where
  "remote_run_turn ok parse prompt ls st =
     (case start_turn ok prompt st of
        (False, st1) \<Rightarrow> Inr (Some 1, st1)
      | (True, st1) \<Rightarrow>
          bind_outcome (read_frames parse ls st1) (\<lambda>st2.
            if ra_active st2 then Inr (None, st2)
            else let (rc, st3) = finish_turn st2 in Inr (Some rc, st3)))"

section \<open>The peer the tools and the screen use\<close>

fun find_peer :: "string \<Rightarrow> json list \<Rightarrow> bool outcome" where
  "find_peer i [] = Inr False"
| "find_peer i (p # ps) =
     bind_outcome (value_str p ''id'' []) (\<lambda>j. if j = i then Inr True else find_peer i ps)"

definition remote_knows :: "string \<Rightarrow> remote \<Rightarrow> bool outcome" where
  "remote_knows i st = find_peer i (ra_peers st)"

definition client_knows :: "string \<Rightarrow> remote \<Rightarrow> bool outcome" where
  "client_knows i st = find_peer i (sc_peers st)"

definition remote_send_message :: "(json \<Rightarrow> bool) \<Rightarrow> string \<Rightarrow> string \<Rightarrow> remote \<Rightarrow> bool \<times> remote" where
  "remote_send_message ok to t st =
     (if to = [] \<or> t = [] \<or> \<not> ra_connected st then (False, st) else client_send_message ok to t st)"

definition remote_request_peers :: "(json \<Rightarrow> bool) \<Rightarrow> remote \<Rightarrow> bool \<times> remote" where
  "remote_request_peers ok st =
     (if \<not> ra_connected st then (False, st) else client_request_peers ok st)"

definition remote_ops :: "(json \<Rightarrow> bool) \<Rightarrow> remote peer_ops" where
  "remote_ops ok =
     \<lparr>po_connected = remote_swarm_connected, po_knows = (\<lambda>i st. remote_knows i st = Inr True),
      po_send = remote_send_message ok, po_request = remote_request_peers ok, po_peers = ra_peers\<rparr>"

section \<open>The contract of a peer, again\<close>

text \<open>The daemon lists its peers as objects with a string id, so a lookup among them cannot throw.\<close>

definition listed_peer :: "json \<Rightarrow> bool" where
  "listed_peer p \<longleftrightarrow> (\<exists>i. jfind p ''id'' = Some (JStr i))"

definition remote_alive :: "remote \<Rightarrow> bool" where
  "remote_alive st \<longleftrightarrow> ra_connected st \<and> sc_running st \<and> (\<forall>p \<in> set (ra_peers st). listed_peer p)"

lemma find_peer_listed:
  "\<forall>p \<in> set ps. listed_peer p \<Longrightarrow> find_peer i ps = Inr (i \<in> set (map peer_id ps))"
proof (induction ps)
  case (Cons p ps)
  then obtain j where j: "jfind p ''id'' = Some (JStr j)" by (auto simp: listed_peer_def)
  then have "value_str p ''id'' [] = Inr j" by (cases p) (auto simp: value_of_def)
  moreover have "peer_id p = j" using j by (simp add: peer_id_def)
  ultimately show ?case using Cons by auto
qed simp

interpretation remote_peer: swarm_peer "remote_ops (\<lambda>_. True)" remote_alive
  by unfold_locales
    (auto simp: remote_ops_def remote_alive_def remote_swarm_connected_def remote_knows_def find_peer_listed
      remote_send_message_def client_send_message_def send_frame_def)

section \<open>A served turn as the client sees it\<close>

text \<open>A callback after its strings went over the wire.\<close>

fun arrived_call :: "sink_call \<Rightarrow> sink_call" where
  "arrived_call (SinkHeader p m) = SinkHeader (utf8_sanitize p) (utf8_sanitize m)"
| "arrived_call (SinkTextDelta t) = SinkTextDelta (utf8_sanitize t)"
| "arrived_call (SinkToolStart n) = SinkToolStart (utf8_sanitize n)"
| "arrived_call (SinkToolCall n a) = SinkToolCall (utf8_sanitize n) (sanitize_json_strings a)"
| "arrived_call (SinkToolResult t e) = SinkToolResult (utf8_sanitize t) e"
| "arrived_call (SinkSummary m p c) = SinkSummary (utf8_sanitize m) (to_int32 p) (to_int32 c)"
| "arrived_call (SinkWarning t) = SinkWarning (utf8_sanitize t)"

fun usage_after :: "sink_call \<Rightarrow> int \<times> int \<Rightarrow> int \<times> int" where
  "usage_after (SinkSummary m p c) u = (to_int32 p, to_int32 c)"
| "usage_after _ u = u"

definition after_call :: "sink_call \<Rightarrow> remote \<Rightarrow> remote" where
  "after_call c st = on_call (arrived_call c) (st\<lparr>ra_usage := usage_after c (ra_usage st)\<rparr>)"

lemma sanitized_words:
  "utf8_sanitize ''stream'' = ''stream''" "utf8_sanitize ''header'' = ''header''"
  "utf8_sanitize ''text_delta'' = ''text_delta''" "utf8_sanitize ''tool_start'' = ''tool_start''"
  "utf8_sanitize ''tool_call'' = ''tool_call''" "utf8_sanitize ''tool_result'' = ''tool_result''"
  "utf8_sanitize ''summary'' = ''summary''" "utf8_sanitize ''warning'' = ''warning''"
  "utf8_sanitize ''ctx'' = ''ctx''" "utf8_sanitize ''turn_done'' = ''turn_done''"
  by (rule utf8_sanitize_id, code_simp)+

lemma call_frame_type: "type_of (sanitize_json_strings (call_frame c)) = ''stream''"
  by (cases c) (simp_all add: call_frame_def frame_def jobj_def type_of_def sanitized_words)

lemma call_frame_event: "handle_stream_event (sanitize_json_strings (call_frame c)) st = Inr (after_call c st)"
  by (cases c) (simp_all add: call_frame_def frame_def jobj_def handle_stream_event_def value_of_def
      sanitized_words after_call_def get_int_def on_call_def)

text \<open>The frames of a message list as lines, and what a parser must make of them.\<close>

definition lines_of :: "(json \<Rightarrow> string) \<Rightarrow> json list \<Rightarrow> string list" where
  "lines_of dump ms = map (wire_line dump) ms"

definition parses :: "(json \<Rightarrow> string) \<Rightarrow> (string \<Rightarrow> json option) \<Rightarrow> json list \<Rightarrow> bool" where
  "parses dump parse ms \<longleftrightarrow> list_all (\<lambda>m. parse (wire_line dump m) = Some (sanitize_json_strings m)) ms"

definition taking_turn :: "remote \<Rightarrow> bool" where
  "taking_turn st \<longleftrightarrow> sc_running st \<and> ra_active st \<and> ra_sink st \<and> \<not> ra_cancel st"

lemma after_call_keeps: "taking_turn (after_call c st) = taking_turn st"
  by (simp add: after_call_def on_call_def taking_turn_def)

lemma receive_call:
  "taking_turn st \<Longrightarrow> receive_frame (sanitize_json_strings (call_frame c)) st = Inr (after_call c st)"
  by (simp add: receive_frame_def call_frame_type handle_frame_def taking_turn_def call_frame_event)

lemma read_calls:
  "taking_turn st \<Longrightarrow> parses dump parse (map call_frame cs) \<Longrightarrow>
   read_frames parse (lines_of dump (map call_frame cs) @ ls) st = read_frames parse ls (fold after_call cs st)"
proof (induction cs arbitrary: st)
  case (Cons c cs)
  have "sc_running st" using Cons.prems(1) by (simp add: taking_turn_def)
  moreover have "parse (wire_line dump (call_frame c)) = Some (sanitize_json_strings (call_frame c))"
    using Cons.prems(2) by (simp add: parses_def)
  moreover have "taking_turn (after_call c st)" using Cons.prems(1) by (simp add: after_call_keeps)
  ultimately show ?case
    using Cons.IH[of "after_call c st"] Cons.prems
    by (simp add: lines_of_def receive_call call_frame_type parses_def)
qed (simp add: lines_of_def)

lemma fold_after_call:
  "ra_calls (fold after_call cs st) = ra_calls st @ map arrived_call cs \<and>
   taking_turn (fold after_call cs st) = taking_turn st"
  by (induction cs arbitrary: st) (simp_all add: after_call_keeps, simp add: after_call_def on_call_def)

lemma end_frames:
  assumes "taking_turn st" "parses dump parse [ctx_packet used whole, turn_done_packet rc]"
  shows "read_frames parse (lines_of dump [ctx_packet used whole, turn_done_packet rc]) st =
    Inr (st\<lparr>ra_ctx := to_int32 whole, ra_usage := (to_int32 used, snd (ra_usage st)),
      ra_rc := to_int32 rc, ra_cancel := False, ra_active := False\<rparr>)"
proof -
  have p: "parse (wire_line dump (ctx_packet used whole)) = Some (sanitize_json_strings (ctx_packet used whole))"
    "parse (wire_line dump (turn_done_packet rc)) = Some (sanitize_json_strings (turn_done_packet rc))"
    using assms(2) by (simp_all add: parses_def)
  have t: "type_of (sanitize_json_strings (ctx_packet used whole)) = ''ctx''"
    "type_of (sanitize_json_strings (turn_done_packet rc)) = ''turn_done''"
    by (simp_all add: ctx_packet_def turn_done_packet_def frame_def jobj_def type_of_def sanitized_words)
  have c: "receive_frame (sanitize_json_strings (ctx_packet used whole)) st =
      Inr (st\<lparr>ra_ctx := to_int32 whole, ra_usage := (to_int32 used, snd (ra_usage st))\<rparr>)"
    unfolding receive_frame_def t
    by (simp add: handle_frame_def ctx_packet_def frame_def jobj_def value_of_def get_int_def)
  have d: "receive_frame (sanitize_json_strings (turn_done_packet rc)) st' =
      Inr (st'\<lparr>ra_rc := to_int32 rc, ra_cancel := False, ra_active := False\<rparr>)" for st'
    unfolding receive_frame_def t
    by (simp add: handle_frame_def turn_done_packet_def frame_def jobj_def value_of_def get_int_def)
  show ?thesis
    using assms(1) by (simp add: lines_of_def p t c d taking_turn_def)
qed

lemma start_turn_ok:
  assumes "ra_connected st" "sc_running st" "t \<noteq> []" "ok (prompt_req t)"
  shows "\<exists>st1. start_turn ok t st = (True, st1) \<and> taking_turn st1 \<and> ra_calls st1 = []"
  using assms by (simp add: start_turn_def Let_def client_send_prompt_def send_frame_def taking_turn_def)

lemma mirrored_turn:
  assumes "ra_connected st" "sc_running st" "t \<noteq> []" "ok (prompt_req t)"
    and "parses dump parse (map call_frame cs @ [ctx_packet used whole, turn_done_packet rc])"
  shows "\<exists>st'. remote_run_turn ok parse t
      (lines_of dump (map call_frame cs @ [ctx_packet used whole, turn_done_packet rc])) st =
      Inr (Some (to_int32 rc), st') \<and> ra_calls st' = map arrived_call cs \<and>
      ra_ctx st' = to_int32 whole \<and> fst (ra_usage st') = to_int32 used"
proof -
  obtain st1 where s: "start_turn ok t st = (True, st1)" "taking_turn st1" "ra_calls st1 = []"
    using start_turn_ok[of st t ok] assms(1-4) by blast
  have ps: "parses dump parse (map call_frame cs)" "parses dump parse [ctx_packet used whole, turn_done_packet rc]"
    using assms(5) by (simp_all add: parses_def)
  let ?st2 = "fold after_call cs st1"
  have t2: "taking_turn ?st2" and c2: "ra_calls ?st2 = map arrived_call cs"
    using fold_after_call[of cs st1] s by simp_all
  have "lines_of dump (map call_frame cs @ [ctx_packet used whole, turn_done_packet rc]) =
      lines_of dump (map call_frame cs) @ lines_of dump [ctx_packet used whole, turn_done_packet rc]"
    by (simp add: lines_of_def)
  then have r: "read_frames parse (lines_of dump (map call_frame cs @ [ctx_packet used whole, turn_done_packet rc])) st1 =
      Inr (?st2\<lparr>ra_ctx := to_int32 whole, ra_usage := (to_int32 used, snd (ra_usage ?st2)),
        ra_rc := to_int32 rc, ra_cancel := False, ra_active := False\<rparr>)"
    using read_calls[OF s(2) ps(1)] end_frames[OF t2 ps(2)] by simp
  show ?thesis
    unfolding remote_run_turn_def s(1) prod.case bool.case r bind_outcome_simps
    using c2 by (simp add: finish_turn_def)
qed

section \<open>When a turn ends\<close>

definition releasing :: "string \<Rightarrow> bool" where
  "releasing ty \<longleftrightarrow> ty = ''turn_done'' \<or> ty = ''shutdown'' \<or> ty = ''bye''"

lemma stream_event_active:
  assumes "handle_stream_event msg st = Inr st'"
  shows "ra_active st' = ra_active st \<and> sc_running st' = sc_running st"
proof -
  obtain ev where ev: "value_str msg ''event'' [] = Inr ev"
    using assms by (cases "value_str msg ''event'' []") (simp_all add: handle_stream_event_def)
  note d = assms[unfolded handle_stream_event_def ev bind_outcome_simps]
  show ?thesis
    using d by (simp add: bind_outcome_Inr on_call_def split: if_split_asm)
      ((elim exE conjE)?, hypsubst, simp)+
qed

lemma handle_frame_active:
  assumes "handle_frame ty msg st = Inr st'"
  shows "ra_active st' = (ra_active st \<and> \<not> releasing ty) \<and> sc_running st' = sc_running st"
proof -
  note d = assms[unfolded handle_frame_def]
  consider (rt) "ty = ''msg'' \<or> ty = ''conflict''" | (stop) "ty = ''shutdown'' \<or> ty = ''bye''"
    | (stream) "ty = ''stream''" | (fin) "ty = ''turn_done''"
    | (other) "\<not> (ty = ''msg'' \<or> ty = ''conflict'')" "\<not> (ty = ''shutdown'' \<or> ty = ''bye'')"
        "ty \<noteq> ''stream''" "ty \<noteq> ''turn_done''" by argo
  then show ?thesis
  proof cases
    case rt
    then obtain line where "(if ra_realtime st then st\<lparr>ra_lines := ra_lines st @ [line]\<rparr> else st) = st'"
      using d by (elim disjE) (simp_all add: bind_outcome_Inr, blast+)
    moreover have "\<not> releasing ty" using rt by (elim disjE) (simp_all add: releasing_def)
    ultimately show ?thesis by (cases "ra_realtime st") (simp_all, (hypsubst, simp)+)
  next
    case stop
    then have "st' = st\<lparr>ra_connected := False, ra_active := False\<rparr>" using d by (elim disjE) simp_all
    then show ?thesis using stop by (simp add: releasing_def)
  next
    case stream
    then have "st' = st \<or> handle_stream_event msg st = Inr st'" using d by (simp split: if_split_asm)
    moreover have "\<not> releasing ty" using stream by (simp add: releasing_def)
    ultimately show ?thesis using stream_event_active by auto
  next
    case fin
    then obtain rc where "st' = st\<lparr>ra_rc := rc, ra_cancel := False, ra_active := False\<rparr>"
      using d by (simp add: bind_outcome_Inr) blast
    then show ?thesis using fin by (simp add: releasing_def)
  next
    case other
    then have "\<not> releasing ty" by (simp add: releasing_def)
    then show ?thesis
      using d other by (simp add: bind_outcome_Inr split: if_split_asm)
        ((elim exE conjE)?, hypsubst, simp)+
  qed
qed

lemma receive_frame_active:
  assumes "receive_frame msg st = Inr st'"
  shows "ra_active st' = (ra_active st \<and> \<not> releasing (type_of msg))" "sc_running st' = sc_running st"
  using handle_frame_active[OF assms[unfolded receive_frame_def]] by (auto split: option.splits if_split_asm)

text \<open>The messages the reader thread handles: those that parse, up to a shutdown.\<close>

fun handled :: "(string \<Rightarrow> json option) \<Rightarrow> string list \<Rightarrow> json list" where
  "handled parse [] = []"
| "handled parse (l # ls) =
     (case parse l of
        None \<Rightarrow> handled parse ls
      | Some m \<Rightarrow> m # (if type_of m = ''shutdown'' then [] else handled parse ls))"

lemma read_frames_active:
  "read_frames parse ls st = Inr st' \<Longrightarrow> sc_running st \<Longrightarrow>
   ra_active st' \<longleftrightarrow> ra_active st \<and> \<not> list_ex (\<lambda>m. releasing (type_of m)) (handled parse ls)"
proof (induction ls arbitrary: st)
  case (Cons l ls)
  show ?case
  proof (cases "parse l")
    case None
    then show ?thesis using Cons by simp
  next
    case (Some m)
    then obtain st1 where r: "receive_frame m st = Inr st1"
      "(if type_of m = ''shutdown'' then Inr (st1\<lparr>sc_running := False\<rparr>) else read_frames parse ls st1) = Inr st'"
      using Cons.prems by (auto simp: bind_outcome_Inr)
    note a = receive_frame_active[OF r(1)]
    show ?thesis
    proof (cases "type_of m = ''shutdown''")
      case True
      then show ?thesis using r(2) a(1) Some by (auto simp: releasing_def)
    next
      case False
      then have "read_frames parse ls st1 = Inr st'" "sc_running st1" using r(2) a(2) Cons.prems(2) by simp_all
      from Cons.IH[OF this] show ?thesis using a(1) Some False by auto
    qed
  qed
qed simp

section \<open>Properties\<close>

text \<open>a turn that the daemon ran for a reachable client is mirrored by the client: the frames the
  daemon put on the connection, read back by any parser that inverts the printer on them, make the
  client's sink receive the callbacks of the daemon's turn in order (strings sanitized, counts as
  32-bit integers), and \<open>run_turn\<close> returns the daemon's code.\<close>

theorem served_turn_reaches_client:
  assumes "reachable k solo s" "reachable_at env i fd s" "run_prompt env outer i t x s = Inr (rc, s', x')"
    and "parses dump parse (map snd (drop (length (sv_out s)) (sv_out s')))"
    and "ra_connected st" "sc_running st" "t \<noteq> []" "ok (prompt_req t)"
  shows "\<exists>calls used whole st'. sv_out s' = sv_out s @ map (\<lambda>c. (fd, call_frame c)) calls @
      [(fd, ctx_packet used whole), (fd, turn_done_packet rc)] \<and>
    remote_run_turn ok parse t (lines_of dump (map snd (drop (length (sv_out s)) (sv_out s')))) st =
      Inr (Some (to_int32 rc), st') \<and>
    ra_calls st' = map arrived_call calls \<and> ra_ctx st' = to_int32 whole \<and> fst (ra_usage st') = to_int32 used"
proof -
  obtain calls used whole where o: "sv_out s' = sv_out s @ map (\<lambda>c. (fd, call_frame c)) calls @
      [(fd, ctx_packet used whole), (fd, turn_done_packet rc)]"
    using run_prompt_calls[OF reachable_ok[OF assms(1)] assms(2,3)] by blast
  then have d: "map snd (drop (length (sv_out s)) (sv_out s')) =
      map call_frame calls @ [ctx_packet used whole, turn_done_packet rc]" by simp
  obtain st' where "remote_run_turn ok parse t
      (lines_of dump (map call_frame calls @ [ctx_packet used whole, turn_done_packet rc])) st =
      Inr (Some (to_int32 rc), st')" "ra_calls st' = map arrived_call calls"
      "ra_ctx st' = to_int32 whole" "fst (ra_usage st') = to_int32 used"
    using mirrored_turn[of st t ok dump parse calls used whole rc] assms(4-8) unfolding d by blast
  with o show ?thesis unfolding d by blast
qed

text \<open>C29: a prompt that was sent returns exactly when the reader thread handles a \<open>turn_done\<close>,
  \<open>shutdown\<close> or \<open>bye\<close> frame; every other frame leaves it waiting, and so does silence.\<close>

theorem remote_turn_ends_when_told:
  assumes "ra_connected st" "sc_running st" "t \<noteq> []" "ok (prompt_req t)"
    and "remote_run_turn ok parse t ls st = Inr (r, st')"
  shows "r \<noteq> None \<longleftrightarrow> list_ex (\<lambda>m. releasing (type_of m)) (handled parse ls)"
proof -
  obtain st1 where s: "start_turn ok t st = (True, st1)" "taking_turn st1"
    using start_turn_ok[of st t ok] assms(1-4) by blast
  then obtain st2 where r: "read_frames parse ls st1 = Inr st2"
    and e: "(if ra_active st2 then (None, st2) else (Some (ra_rc st2), st2\<lparr>ra_sink := False\<rparr>)) = (r, st')"
    using assms(5) by (auto simp: remote_run_turn_def bind_outcome_Inr finish_turn_def split: if_splits)
  have "sc_running st1" "ra_active st1" using s(2) by (simp_all add: taking_turn_def)
  with read_frames_active[OF r] have "ra_active st2 \<longleftrightarrow> \<not> list_ex (\<lambda>m. releasing (type_of m)) (handled parse ls)"
    by simp
  with e show ?thesis by (auto split: if_splits)
qed

section \<open>Witnesses\<close>

text \<open>A printer and a parser for a given list of values: a value is printed as its position.\<close>

definition table_dump :: "json list \<Rightarrow> json \<Rightarrow> string" where
  "table_dump tbl j = nat_str (length (takeWhile (\<lambda>x. x \<noteq> j) tbl))"

definition table_parse :: "json list \<Rightarrow> string \<Rightarrow> json option" where
  "table_parse tbl s = (let n = digits_value s in if n < length tbl then Some (tbl ! n) else None)"

lemma table_codec: "j \<in> set tbl \<Longrightarrow> table_parse tbl (table_dump tbl j) = Some j"
proof -
  assume "j \<in> set tbl"
  then have "length (takeWhile (\<lambda>x. x \<noteq> j) tbl) < length tbl \<and>
      tbl ! length (takeWhile (\<lambda>x. x \<noteq> j) tbl) = j"
    by (induction tbl) auto
  then show ?thesis by (simp add: table_parse_def table_dump_def nat_str_value)
qed

lemma table_parses: "parses (table_dump (map sanitize_json_strings ms)) (table_parse (map sanitize_json_strings ms)) ms"
  by (auto simp: parses_def list_all_iff wire_line_def intro!: table_codec)

definition demo_remote :: remote where
  "demo_remote = new_remote\<lparr>ra_connected := True, sc_running := True, sc_fd := 3\<rparr>"

lemma served_turn_reaches_client_witness:
  "\<exists>(s :: server) (s' :: server) dump parse calls used whole st'.
    sv_out s' = sv_out s @ map (\<lambda>c. (5, call_frame c)) calls @
      [(5, ctx_packet used whole), (5, turn_done_packet 1)] \<and>
    remote_run_turn (\<lambda>_. True) parse ''go'' (lines_of dump (map snd (drop (length (sv_out s)) (sv_out s')))) demo_remote =
      Inr (Some 1, st') \<and> ra_calls st' = map arrived_call calls"
proof -
  obtain s where s: "reachable [] True s" "provider_of ''a1'' s = None"
      "sv_clients s = [(''a1'', ann ''a1'' 5), (''b2'', ann ''b2'' 6)]"
    using two_clients by blast
  have "om_get (sv_clients s) ''a1'' \<noteq> None" by (simp add: s(3) om_get_def)
  then obtain sl where "om_get (sv_agents s) ''a1'' = Some sl"
    using reachable_ok[OF s(1)] by (auto simp: server_ok_def slots_ok_def)
  from run_prompt_no_provider[OF this s(2), of sample_env script_env "''go''" "[]"] obtain s' where
      r: "run_prompt sample_env script_env ''a1'' ''go'' [] s = Inr (1, s', [])"
    by blast
  have at: "reachable_at sample_env ''a1'' 5 s"
    by (simp add: reachable_at_def s(3) om_get_def sample_env_def)
  have st: "ra_connected demo_remote" "sc_running demo_remote" by (simp_all add: demo_remote_def)
  have t1: "to_int32 1 = 1" by (simp add: to_int32_id)
  from served_turn_reaches_client[OF s(1) at r table_parses st, of "\<lambda>_. True", unfolded t1] show ?thesis by blast
qed

lemma remote_turn_ends_when_told_witness:
  "\<exists>rc st'. remote_run_turn (\<lambda>_. True) (\<lambda>l. if l = ''d'' then Some (turn_done_packet 0) else None)
    ''hi'' [''x'', ''d''] demo_remote = Inr (Some rc, st')"
proof -
  let ?p = "\<lambda>l. if l = ''d'' then Some (turn_done_packet 0) else None"
  have st: "ra_connected demo_remote" "sc_running demo_remote" by (simp_all add: demo_remote_def)
  have ty: "type_of (turn_done_packet 0) = ''turn_done''" by (simp add: turn_done_packet_def type_of_frame)
  have f: "handle_frame ''turn_done'' (turn_done_packet 0) st = Inr (st\<lparr>ra_rc := 0, ra_cancel := False, ra_active := False\<rparr>)"
    for st :: remote
    by (simp add: handle_frame_def turn_done_packet_def frame_def jobj_def value_of_def get_int_def to_int32_id)
  have "\<exists>r st'. remote_run_turn (\<lambda>_. True) ?p ''hi'' [''x'', ''d''] demo_remote = Inr (r, st')"
    by (simp add: remote_run_turn_def start_turn_def demo_remote_def Let_def client_send_prompt_def send_frame_def
        new_remote_def receive_frame_def ty f finish_turn_def)
  then obtain r st' where r: "remote_run_turn (\<lambda>_. True) ?p ''hi'' [''x'', ''d''] demo_remote = Inr (r, st')" by blast
  have "list_ex (\<lambda>m. releasing (type_of m)) (handled ?p [''x'', ''d''])" by (simp add: ty releasing_def)
  with remote_turn_ends_when_told[OF st _ _ r] have "r \<noteq> None" by simp
  with r show ?thesis by blast
qed

section \<open>Divergences\<close>

text \<open>When the connection drops without a farewell, the reader thread ends and the turn keeps waiting.\<close>

lemma dropped_connection_keeps_waiting:
  "ra_active st \<Longrightarrow> \<exists>st'. reader_loop parse [] st = Inr st' \<and> ra_active st' \<and> \<not> sc_running st'"
  by (simp add: reader_loop_def)

text \<open>What arrives in one packet with the acknowledgement stays in the handshake's reader, which is thrown
  away: the thread that reads on starts with an empty buffer.\<close>

lemma handshake_discards_what_follows:
  assumes "frameable ack"
  shows "\<exists>r. next_line (new_reader 5000) (arrivals [ack @ NL @ rest]) = Some (ReadOk, ack, r, []) \<and>
    unread r = rest \<and> next_line (new_reader 0) [] = None"
proof -
  have "nl \<notin> set ack" using assms by (simp add: frameable_def)
  then have "split_at nl (ack @ nl # rest) = Some (ack, rest)" by (simp add: split_at_Some)
  then show ?thesis
    by (simp add: arrivals_def new_reader_def take_line_def too_long_def compact_def elapse_def expired_def
        Let_def unread_def)
qed

end
