(* ===== verification/Swarm_Paths.thy ===== *)
theory Swarm_Paths
  imports Remote_Client Paths
begin

text \<open>
  The files of the swarm under their canonical names: \<open>ServerClient::register_read\<close> and
  \<open>report_write\<close> (\<open>src/server/client.cpp\<close>), which canonicalise the path and hash the file, the
  daemon's handler, which canonicalises it once more (\<open>server.cpp\<close>), and the view of an agent the
  daemon runs itself, which does not.
\<close>

section \<open>The client's side\<close>

text \<open>\<open>disk\<close> is what \<open>hash_file\<close> reads at a path.\<close>

definition register_read_at ::
    "(string \<Rightarrow> string option) \<Rightarrow> (string \<Rightarrow> string option) \<Rightarrow> (json \<Rightarrow> bool) \<Rightarrow> string \<Rightarrow>
     remote \<Rightarrow> bool \<times> remote" where
  "register_read_at weak disk ok path st =
     (let canon = canonical_path weak (sc_repo st) path
      in client_register_read ok canon (disk canon) st)"

definition report_write_at ::
    "(string \<Rightarrow> string option) \<Rightarrow> (string \<Rightarrow> string option) \<Rightarrow> (json \<Rightarrow> bool) \<Rightarrow> string \<Rightarrow>
     remote \<Rightarrow> bool \<times> remote" where
  "report_write_at weak disk ok path st =
     (let canon = canonical_path weak (sc_repo st) path
      in client_report_write ok canon (disk canon) st)"

section \<open>What the daemon makes of it\<close>

lemma path_frame_fields:
  "type_of (read_req p h) = ''read''" "type_of (write_req p h) = ''write''"
  "value_str (read_req p h) ''path'' [] = Inr p" "value_str (read_req p h) ''hash'' [] = Inr h"
  "value_str (write_req p h) ''path'' [] = Inr p" "value_str (write_req p h) ''hash'' [] = Inr h"
  by (simp_all add: read_req_def write_req_def frame_def jobj_def type_of_def value_of_def om_get_def)

lemma read_frame_handled:
  assumes "se_parse env line = Some (read_req p h)" "p \<noteq> []"
  shows "client_message env i repo line s = Handled (record_read env (se_canon env repo p) i h s)"
  by (simp add: client_message_def assms path_frame_fields with_str_def Let_def)

lemma write_frame_handled:
  assumes "se_parse env line = Some (write_req p h)" "p \<noteq> []"
  shows "client_message env i repo line s = Handled (notify_file_changed env (se_canon env repo p) h i s)"
  by (simp add: client_message_def assms path_frame_fields with_str_def Let_def)

lemma record_read_readers:
  "readers_of q (record_read env p i h s) =
     (if q = p then om_put i h (readers_of p s) else readers_of q s)"
  by (auto simp: record_read_def readers_of_def server_simps om_get_put)

lemma record_read_agents: "sv_agents (record_read env p i h s) = sv_agents s"
  by (simp add: record_read_def server_simps)

lemma record_read_inbox:
  "inbox_of j (record_read env p i h s) = inbox_of j s" "listening j (record_read env p i h s) = listening j s"
  by (simp_all add: inbox_of_def listening_def record_read_agents)

text \<open>A file read by one client and written by another, under the daemon's name for it.\<close>

lemma read_then_written:
  assumes "server_ok s" "om_get (sv_clients s) a \<noteq> None" "a \<noteq> b" "h \<noteq> h'"
  shows "inbox_of a (notify_file_changed env' key h' b (record_read env key a h s)) =
      with_line (''[swarm] conflict: '' @ key @ '' was changed by '' @ b @ '' at '' @ se_now env') (inbox_of a s)"
    "inbox_of b (notify_file_changed env' key h' b (record_read env key a h s)) = inbox_of b s"
proof -
  let ?s = "record_read env key a h s"
  have "server_ok ?s" by (rule calm_ok[OF calm_record_read assms(1)])
  then have o: "om_ok (readers_of key ?s)" by (simp add: server_ok_def tables_ok_def)
  have "listening a ?s" using client_listens[OF assms(1,2)] by (simp add: record_read_inbox)
  then show "inbox_of a (notify_file_changed env' key h' b ?s) =
      with_line (''[swarm] conflict: '' @ key @ '' was changed by '' @ b @ '' at '' @ se_now env') (inbox_of a s)"
    using assms(3,4) unfolding notify_file_changed_inbox[OF o]
    by (simp add: record_read_readers record_read_inbox om_get_put)
  show "inbox_of b (notify_file_changed env' key h' b ?s) = inbox_of b s"
    unfolding notify_file_changed_inbox[OF o] by (simp add: record_read_inbox)
qed

lemma register_read_sent:
  assumes "register_read_at weak disk ok path st = (True, st')"
  shows "last (sc_sent st') = read_req (canonical_path weak (sc_repo st) path)
    (hash_file (disk (canonical_path weak (sc_repo st) path)))"
  using assms by (auto simp: register_read_at_def client_register_read_def send_frame_def Let_def split: if_splits)

lemma report_write_sent:
  assumes "report_write_at weak disk ok path st = (True, st')"
  shows "last (sc_sent st') = write_req (canonical_path weak (sc_repo st) path)
    (hash_file (disk (canonical_path weak (sc_repo st) path)))"
  using assms by (auto simp: report_write_at_def client_report_write_def send_frame_def Let_def split: if_splits)

text \<open>Two paths that lead to the same place, or that the file system resolves to the same file.\<close>

definition same_file ::
    "(string \<Rightarrow> string option) \<Rightarrow> string \<Rightarrow> string \<Rightarrow> string \<Rightarrow> string \<Rightarrow> bool" where
  "same_file weak base p base' q \<longleftrightarrow>
     located base p = located base' q \<or>
     (weak (location_str (located base p)) \<noteq> None \<and>
      weak (location_str (located base p)) = weak (location_str (located base' q)))"

lemma same_file_same_name:
  assumes "is_absolute base" "names_file p" "is_absolute base'" "names_file q"
    and "same_file weak base p base' q"
  shows "canonical_path weak base p = canonical_path weak base' q"
  using assms(5) unfolding same_file_def canonical_location[OF assms(1,2)] canonical_location[OF assms(3,4)]
  by (auto split: option.splits)

section \<open>Properties\<close>

text \<open>C18: Spelling does not matter: when one client reads a file and another writes it, under paths that
  lead to the same place from their repositories or through symbolic links, the reader finds the conflict in its inbox under the
  canonical name, and the writer finds nothing.\<close>

theorem write_is_announced_across_spellings:
  assumes "reachable k solo s"
    and "om_get (sv_clients s) a = Some ca" "om_get (sv_clients s) b = Some cb" "a \<noteq> b"
    and "canonicaliser weak" "se_canon env = canonical_path weak" "se_canon env' = canonical_path weak"
    and "is_absolute (sc_repo ra)" "names_file p" "is_absolute (sc_repo rb)" "names_file q"
    and "same_file weak (sc_repo ra) p (sc_repo rb) q"
    and "register_read_at weak disk ok p ra = (True, ra')" "se_parse env la = Some (last (sc_sent ra'))"
    and "report_write_at weak disk' ok' q rb = (True, rb')" "se_parse env' lb = Some (last (sc_sent rb'))"
    and "hash_file (disk (canonical_path weak (sc_repo ra) p)) \<noteq>
      hash_file (disk' (canonical_path weak (sc_repo ra) p))"
  shows "\<exists>s1 s2. client_message env a (cl_repo ca) la s = Handled s1 \<and>
    client_message env' b (cl_repo cb) lb s1 = Handled s2 \<and>
    inbox_of a s2 = with_line (''[swarm] conflict: '' @ canonical_path weak (sc_repo ra) p @
      '' was changed by '' @ b @ '' at '' @ se_now env') (inbox_of a s) \<and>
    inbox_of b s2 = inbox_of b s"
proof -
  let ?key = "canonical_path weak (sc_repo ra) p"
  let ?s1 = "record_read env ?key a (hash_file (disk ?key)) s"
  have key: "canonical_path weak (sc_repo rb) q = ?key"
    by (rule same_file_same_name[OF assms(8-12), symmetric])
  have again: "canonical_path weak base ?key = ?key" for base
    by (rule canonical_again[OF assms(5,8,9)])
  have ne: "?key \<noteq> []" using canonical_absolute[OF assms(5,8,9)] by (auto simp: is_absolute_def)
  have m1: "client_message env a (cl_repo ca) la s = Handled ?s1"
    using read_frame_handled[OF assms(14)[unfolded register_read_sent[OF assms(13)]] ne]
    by (simp add: assms(6) again)
  have m2: "client_message env' b (cl_repo cb) lb ?s1 =
      Handled (notify_file_changed env' ?key (hash_file (disk' ?key)) b ?s1)"
    using write_frame_handled[OF assms(16)[unfolded report_write_sent[OF assms(15)] key] ne]
    by (simp add: assms(7) again)
  have "om_get (sv_clients s) a \<noteq> None" using assms(2) by simp
  from read_then_written[OF reachable_ok[OF assms(1)] this assms(4,17)] m1 m2 show ?thesis by blast
qed

text \<open>The first client opens the file through a link, the second names it from a subdirectory.\<close>

definition link_world :: "string \<Rightarrow> string option" where
  "link_world x = (if x = ''/l/f'' \<or> x = ''/r/f'' then Some ''/r/f'' else None)"

theorem write_is_announced_across_spellings_witness:
  "\<exists>s1 s2 (env :: server_env). inbox_of ''a1'' s1 = [] \<and> inbox_of ''a1'' s2 =
     [''[swarm] conflict: /r/f was changed by b2 at '' @ se_now env]"
proof -
  obtain s where s: "reachable [] True s" "inbox_of ''a1'' s = []"
      "sv_clients s = [(''a1'', ann ''a1'' 5), (''b2'', ann ''b2'' 6)]"
    using two_clients by blast
  have c: "om_get (sv_clients s) ''a1'' = Some (ann ''a1'' 5)"
    "om_get (sv_clients s) ''b2'' = Some (ann ''b2'' 6)"
    by (simp_all add: s(3) om_get_def)
  define ra where "ra = new_remote\<lparr>sc_repo := ''/r''\<rparr>"
  define rb where "rb = new_remote\<lparr>sc_repo := ''/r/sub''\<rparr>"
  define ra' where "ra' = snd (register_read_at link_world (\<lambda>x. Some ''x'') (\<lambda>j. True) ''../l/./f'' ra)"
  define rb' where "rb' = snd (report_write_at link_world (\<lambda>x. Some ''y'') (\<lambda>j. True) ''..//f'' rb)"
  define env where "env = sample_env\<lparr>se_canon := canonical_path link_world,
    se_parse := (\<lambda>l. if l = ''r'' then Some (last (sc_sent ra')) else Some (last (sc_sent rb')))\<rparr>"
  have w: "canonicaliser link_world"
  proof -
    have "is_absolute ''/r/f''" "lexically_normal ''/r/f'' = ''/r/f''" by code_simp+
    then show ?thesis by (auto simp: canonicaliser_def link_world_def split: if_splits)
  qed
  have p: "is_absolute ''/r''" "names_file ''../l/./f''" "is_absolute ''/r/sub''" "names_file ''..//f''"
    "same_file link_world ''/r'' ''../l/./f'' ''/r/sub'' ''..//f''"
    "canonical_path link_world ''/r'' ''../l/./f'' = ''/r/f''"
    by code_simp+
  have R: "register_read_at link_world (\<lambda>x. Some ''x'') (\<lambda>j. True) ''../l/./f'' ra = (True, ra')"
    using nat_str_nonempty by (simp add: ra'_def register_read_at_def client_register_read_def
        hash_file_def send_frame_def Let_def)
  have W: "report_write_at link_world (\<lambda>x. Some ''y'') (\<lambda>j. True) ''..//f'' rb = (True, rb')"
    using nat_str_nonempty by (simp add: rb'_def report_write_at_def client_report_write_def
        hash_file_def send_frame_def Let_def)
  have h: "hash_file (Some ''x'') \<noteq> hash_file (Some ''y'')"
    using fnv_one_byte[of "[]" "CHR ''x''" "[]" "CHR ''y''"] by (simp add: hash_file_eq)
  have e: "se_canon env = canonical_path link_world" "se_parse env ''r'' = Some (last (sc_sent ra'))"
    "se_parse env ''w'' = Some (last (sc_sent rb'))"
    by (simp_all add: env_def)
  have repo: "sc_repo ra = ''/r''" "sc_repo rb = ''/r/sub''" by (simp_all add: ra_def rb_def)
  obtain s2 where "inbox_of ''a1'' s2 = with_line (''[swarm] conflict: '' @ ''/r/f'' @
      '' was changed by '' @ ''b2'' @ '' at '' @ se_now env) (inbox_of ''a1'' s)"
    using write_is_announced_across_spellings[OF s(1) c _ w e(1) e(1), of ra "''../l/./f''" rb "''..//f''"
        "\<lambda>x. Some ''x''" "\<lambda>j. True" ra' "''r''" "\<lambda>x. Some ''y''" "\<lambda>j. True" rb' "''w''"]
      R W e(2,3) h p unfolding repo by auto
  then show ?thesis
    using s(2) by (intro exI[of _ s] exI[of _ s2] exI[of _ env]) (simp add: with_line_def inbox_cap_def)
qed

section \<open>Divergences\<close>

text \<open>
  An agent the daemon runs keys the tables with the path its tool was given (\<open>PeerView::register_read\<close>,
  \<open>report_write\<close>): a read under another spelling is as if it had not happened.
\<close>

theorem hosted_paths_are_compared_as_text:
  assumes "server_ok s" "p \<noteq> q"
  shows "inbox_of i (snd (peer_report_write env b q (snd (peer_register_read env a p s)))) =
    inbox_of i (snd (peer_report_write env b q s))"
proof -
  have ok: "server_ok (snd (peer_register_read env a p s))"
    by (rule calm_ok[OF calm_peer_ops(2) assms(1)])
  have o: "om_ok (readers_of q (snd (peer_register_read env a p s)))" "om_ok (readers_of q s)"
    using ok assms(1) by (simp_all add: server_ok_def tables_ok_def)
  have r: "readers_of q (snd (peer_register_read env a p s)) = readers_of q s"
    "inbox_of j (snd (peer_register_read env a p s)) = inbox_of j s"
    "listening j (snd (peer_register_read env a p s)) = listening j s" for j
    using assms(2) by (simp_all add: peer_register_read_def Let_def record_read_readers record_read_inbox)
  show ?thesis
  proof (cases "disk_hash env q = []")
    case True
    then show ?thesis by (simp add: peer_report_write_def r)
  next
    case False
    show ?thesis
      unfolding peer_report_write_def Let_def if_not_P[OF False] snd_conv
        notify_file_changed_inbox[OF o(1)] notify_file_changed_inbox[OF o(2)] r ..
  qed
qed

end
