(* ===== verification/Swarm_Connection.thy ===== *)
theory Swarm_Connection
  imports Swarm_Server
begin

text \<open>
  The thread of one connection, \<open>SwarmsServer::handle_client\<close> (\<open>src/server/server.cpp\<close>), from its first
  byte to the close: the reader of \<open>Wire\<close> feeds the handlers of \<open>Swarm_Server\<close>. What the other threads
  do to the daemon while this one waits for a line is a parameter, related to the daemon's steps where
  a property needs it.
\<close>

section \<open>The thread\<close>

text \<open>For the \<open>n\<close>-th line of a connection: what the outside answers while it is handled, and what the other
  threads have done to the daemon while it was awaited.\<close>

type_synonym pace = "nat \<Rightarrow> server_env \<times> (server \<Rightarrow> server)"

datatype conn_result =
    Waiting server   \<comment> \<open>the socket has nothing more to say yet\<close>
  | Ended server     \<comment> \<open>the socket is closed, the thread done\<close>
  | Died             \<comment> \<open>an exception left the thread: the process ends\<close>

text \<open>What a reader can still consume: a line takes at least its newline from it.\<close>

definition tick_size :: "tick \<Rightarrow> nat" where
  "tick_size t = Suc (case snd t of RecvData d \<Rightarrow> length d | _ \<Rightarrow> 0)"

definition to_read :: "line_reader \<Rightarrow> tick list \<Rightarrow> nat" where
  "to_read r ticks = length (unread r) + sum_list (map tick_size ticks)"

lemma refilled_unread: "unread (elapse (compact r)\<lparr>lr_buf := unread r @ d\<rparr>) = unread r @ d"
  by (simp add: unread_def elapse_def compact_def)

lemma next_line_progress:
  assumes "next_line r ticks = Some (ReadOk, line, r', ticks')"
  shows "to_read r' ticks' < to_read r ticks"
  using assms
proof (induction r ticks rule: next_line.induct)
  case (1 r)
  then show ?case by (auto simp: to_read_def dest: take_line_Some split: option.splits if_splits)
next
  case (2 r stop ev ticks)
  show ?case
  proof (cases "take_line r")
    case (Some x)
    then show ?thesis
      using 2(5) by (cases x) (auto simp: to_read_def dest: take_line_Some split: if_splits)
  next
    case None
    then show ?thesis
      using 2 by (fastforce simp: Let_def refilled_unread to_read_def tick_size_def split: if_splits net_event.splits)
  qed
qed

function serve_client ::
    "pace \<Rightarrow> nat \<Rightarrow> string \<Rightarrow> string \<Rightarrow> line_reader \<Rightarrow> tick list \<Rightarrow> server \<Rightarrow> conn_result" where
  "serve_client pace n i repo r ticks s =
     (case next_line r ticks of
        None \<Rightarrow> Waiting s
      | Some (ReadOk, line, r', ticks') \<Rightarrow>
          (let (env, others) = pace n
           in case client_message env i repo line (others s) of
                Handled s' \<Rightarrow> serve_client pace (Suc n) i repo r' ticks' s'
              | Hangup s' \<Rightarrow> Ended (client_leave i s')
              | Crashed \<Rightarrow> Died)
      | Some _ \<Rightarrow> Ended (client_leave i (snd (pace n) s)))"
  by pat_completeness auto
termination
  by (relation "measure (\<lambda>(pace, n, i, repo, r, ticks, s). to_read r ticks)")
    (auto dest: next_line_progress)

declare serve_client.simps [simp del]

text \<open>\<open>i\<close> is the id that is drawn for the connection, \<open>fd\<close> its socket.\<close>

definition hello_repo :: "server_env \<Rightarrow> string \<Rightarrow> string" where
  "hello_repo env line =
     (case se_parse env line of
        None \<Rightarrow> []
      | Some first \<Rightarrow> (case value_str first ''repo'' [] of Inl e \<Rightarrow> [] | Inr repo \<Rightarrow> repo))"

definition handle_client :: "pace \<Rightarrow> string \<Rightarrow> int \<Rightarrow> tick list \<Rightarrow> server \<Rightarrow> conn_result" where
  "handle_client pace i fd ticks s =
     (case next_line (new_reader 0) ticks of
        None \<Rightarrow> Waiting s
      | Some (ReadOk, line, r, ticks') \<Rightarrow>
          (let (env, others) = pace 0
           in case client_hello env i fd line (others s) of
                HelloRejected s' \<Rightarrow> Ended s'
              | HelloCrashed \<Rightarrow> Died
              | HelloAccepted s' \<Rightarrow> serve_client pace 1 i (hello_repo env line) r ticks' s')
      | Some _ \<Rightarrow> Ended (snd (pace 0) s))"

section \<open>The other threads\<close>

text \<open>What the daemon does while the connection of \<open>i\<close> waits: every step but those of that connection.\<close>

inductive other_thread :: "string \<Rightarrow> server \<Rightarrow> server \<Rightarrow> bool" for i where
  other_accepted: "j \<noteq> i \<Longrightarrow> om_get (sv_clients s) j = None \<Longrightarrow> om_get (sv_agents s) j = None \<Longrightarrow>
     client_hello env j fd line s = HelloAccepted s' \<Longrightarrow> other_thread i s s'"
| other_rejected: "client_hello env j fd line s = HelloRejected s' \<Longrightarrow> other_thread i s s'"
| other_message: "j \<noteq> i \<Longrightarrow> om_get (sv_clients s) j = Some c \<Longrightarrow>
     client_message env j (cl_repo c) line s = Handled s' \<Longrightarrow> other_thread i s s'"
| other_hangup: "j \<noteq> i \<Longrightarrow> om_get (sv_clients s) j = Some c \<Longrightarrow>
     client_message env j (cl_repo c) line s = Hangup s' \<Longrightarrow> other_thread i s (client_leave j s')"
| other_lost: "j \<noteq> i \<Longrightarrow> om_get (sv_clients s) j = Some c \<Longrightarrow> other_thread i s (client_leave j s)"
| a_turn: "(j, t) \<in> set (sv_running s) \<Longrightarrow>
     run_prompt env (outer :: unit turn_env) j t () s = Inr (rc, s', ()) \<Longrightarrow> other_thread i s s'"
| a_poll: "other_thread i s (poll_tick env s)"

lemma other_thread_step: "other_thread i s s' \<Longrightarrow> server_step s s'"
  by (induction rule: other_thread.induct) (auto intro: server_step.intros)

lemma other_threads_steps: "(other_thread i)\<^sup>*\<^sup>* s s' \<Longrightarrow> server_step\<^sup>*\<^sup>* s s'"
  by (rule rtranclp_mono[THEN predicate2D]) (auto intro: other_thread_step)

lemma client_message_clients:
  "client_message env j repo line s = Handled s' \<Longrightarrow> sv_clients s' = sv_clients s"
proof -
  have c: "calm s t \<Longrightarrow> sv_clients t = sv_clients s" for t by (simp add: calm_def)
  have p: "sv_clients (schedule_prompt env j x s) = sv_clients s" for x
    by (auto simp: schedule_prompt_def send_only_frame split: option.splits)
  show "client_message env j repo line s = Handled s' \<Longrightarrow> sv_clients s' = sv_clients s"
    by (auto simp: client_message_def with_str_def Let_def p
        intro: c calm_agent_ops calm_record_read calm_notify calm_route calm_send_only
        split: option.splits if_splits sum.splits)
qed

lemma hello_rejected_frame:
  "client_hello env i fd line s = HelloRejected s' \<Longrightarrow>
   sv_clients s' = sv_clients s \<and> sv_agents s' = sv_agents s \<and> sv_running s' = sv_running s \<and>
   sv_read_hashes s' = sv_read_hashes s \<and> sv_repo_members s' = sv_repo_members s"
  by (auto simp: client_hello_def say_bye_def Let_def split: option.splits if_splits sum.splits prod.splits)

lemma hello_accepted_clients:
  assumes "client_hello env i fd line s = HelloAccepted s'"
  shows "\<exists>name. sv_clients s' = om_put i
    \<lparr>cl_id = i, cl_name = name, cl_repo = hello_repo env line, cl_fd = fd\<rparr> (sv_clients s)"
  using assms
  by (auto simp: client_hello_def hello_repo_def Let_def hello_register_def create_agent_slot_def
      bind_outcome_Inr send_state_frame send_only_frame
      split: option.splits if_splits sum.splits prod.splits)

lemma leave_clients: "om_get (sv_clients s) j = Some c \<Longrightarrow> sv_clients (client_leave j s) = om_del j (sv_clients s)"
  using remove_client_frame(1)[of s j c] by (simp add: client_leave_def maybe_shutdown_def)

text \<open>None of it touches the connection.\<close>

lemma other_thread_client:
  assumes "other_thread i s s'" "server_ok s"
  shows "om_get (sv_clients s') i = om_get (sv_clients s) i"
  using assms
proof (induction rule: other_thread.induct)
  case (other_accepted j s env fd line s')
  then show ?case using hello_accepted_clients[OF other_accepted(4)] by (auto simp: om_get_put)
next
  case (other_rejected env j fd line s s')
  then show ?case using hello_rejected_frame by simp
next
  case (other_message j s c env line s')
  then show ?case using client_message_clients by simp
next
  case (other_hangup j s c env line s')
  then have "sv_clients s' = sv_clients s" using client_message_ok(2) by blast
  with other_hangup show ?case by (simp add: leave_clients om_get_del)
next
  case (other_lost j s c)
  then show ?case by (simp add: leave_clients om_get_del)
next
  case (a_turn j t s env outer rc s')
  obtain s0 where "calm s s0" "s' = end_turn j s0" using run_prompt_calm[OF a_turn(3,2)] by (elim exE conjE)
  then show ?case by (simp add: end_turn_def Let_def calm_def)
next
  case (a_poll s env)
  then show ?case using calm_poll[of s env] by (simp add: calm_def)
qed

lemma other_threads_client:
  "(other_thread i)\<^sup>*\<^sup>* s s' \<Longrightarrow> server_ok s \<Longrightarrow>
   server_ok s' \<and> om_get (sv_clients s') i = om_get (sv_clients s) i"
proof (induction rule: rtranclp_induct)
  case (step t u)
  then show ?case using other_thread_client[OF step(2)] server_step_ok[OF other_thread_step[OF step(2)]] by simp
qed simp

section \<open>How a connection ends\<close>

text \<open>Ticks at which a wait for input is over: the stop flag, a failed \<open>poll\<close> or \<open>recv\<close>, the end of the
  stream.\<close>

definition final_tick :: "tick \<Rightarrow> bool" where
  "final_tick t \<longleftrightarrow> fst t \<or> snd t \<in> {PollFailed, PollOther, RecvEof, RecvFailed}"

lemma new_reader_wait [simp]: "lr_max_wait_ms (new_reader 0) = 0" "unread (new_reader 0) = []"
  by (simp_all add: new_reader_def unread_def)

lemma next_line_None_step:
  assumes "next_line r ((stop, ev) # ticks) = None"
  shows "\<not> final_tick (stop, ev)" "\<exists>r1. next_line r1 ticks = None"
proof -
  have t: "take_line r = None" using assms by (cases "take_line r") (auto split: if_splits)
  show "\<not> final_tick (stop, ev)" "\<exists>r1. next_line r1 ticks = None"
    using assms t by (cases ev; auto simp: Let_def final_tick_def split: if_splits)+
qed

lemma next_line_waits:
  "next_line r ticks = None \<Longrightarrow> list_all (\<lambda>t. \<not> final_tick t) ticks"
proof (induction ticks arbitrary: r)
  case (Cons t ticks)
  then show ?case using next_line_None_step[of r "fst t" "snd t" ticks] by auto
qed simp

lemma next_line_ok_step:
  assumes "next_line r ((stop, ev) # ticks) = Some (ReadOk, line, r', ticks')" "take_line r = None"
  shows "\<not> final_tick (stop, ev)" "\<exists>r1. next_line r1 ticks = Some (ReadOk, line, r', ticks')"
  using assms by (cases ev; auto simp: Let_def final_tick_def split: if_splits)+

lemma next_line_rest:
  "next_line r ticks = Some (ReadOk, line, r', ticks') \<Longrightarrow>
   \<exists>before. ticks = before @ ticks' \<and> list_all (\<lambda>t. \<not> final_tick t) before"
proof (induction ticks arbitrary: r)
  case Nil
  then show ?case by (auto split: option.splits if_splits)
next
  case (Cons t ticks)
  obtain stop ev where t: "t = (stop, ev)" by fastforce
  show ?case
  proof (cases "take_line r")
    case None
    note N = next_line_ok_step[OF Cons.prems[unfolded t] None]
    obtain r1 where "next_line r1 ticks = Some (ReadOk, line, r', ticks')" using N(2) by (elim exE)
    from Cons.IH[OF this] obtain before
      where "ticks = before @ ticks'" "list_all (\<lambda>t. \<not> final_tick t) before" by (elim exE conjE)
    with N(1) show ?thesis by (intro exI[of _ "t # before"]) (simp add: t)
  next
    case (Some x)
    then have "ticks' = t # ticks" using Cons.prems by (cases x) (auto simp: t split: if_splits)
    then show ?thesis by (intro exI[of _ "[]"]) simp
  qed
qed

lemma serve_client_waits:
  "serve_client pace n i repo r ticks s = Waiting s' \<Longrightarrow> t \<in> set ticks \<Longrightarrow> \<not> final_tick t"
proof (induction pace n i repo r ticks s rule: serve_client.induct)
  case (1 pace n i repo r ticks s)
  show ?case
  proof (cases "next_line r ticks")
    case None
    then show ?thesis using next_line_waits 1(3) by (auto simp: list_all_iff)
  next
    case (Some x)
    obtain res line r' ticks' where x: "x = (res, line, r', ticks')" by (cases x) auto
    have res: "res = ReadOk"
      using 1(2) Some x by (subst (asm) serve_client.simps) (auto split: read_result.splits)
    obtain env others where e: "pace n = (env, others)" by fastforce
    obtain s1 where m: "client_message env i repo line (others s) = Handled s1"
        "serve_client pace (Suc n) i repo r' ticks' s1 = Waiting s'"
      using 1(2) Some x res e by (subst (asm) serve_client.simps) (auto split: msg_result.splits)
    note N = Some[unfolded x res]
    from next_line_rest[OF N] obtain before
      where b: "ticks = before @ ticks'" "list_all (\<lambda>t. \<not> final_tick t) before" by blast
    have "t \<in> set ticks' \<Longrightarrow> \<not> final_tick t"
      by (rule 1(1)[OF N refl refl refl refl e[symmetric] refl m(1) m(2)])
    then show ?thesis using b 1(3) by (auto simp: list_all_iff)
  qed
qed

lemma handle_client_waits:
  assumes "handle_client pace i fd ticks s = Waiting s'" "t \<in> set ticks"
  shows "\<not> final_tick t"
proof (cases "next_line (new_reader 0) ticks")
  case None
  then show ?thesis using next_line_waits assms(2) by (auto simp: list_all_iff)
next
  case (Some x)
  obtain res line r' ticks' where x: "x = (res, line, r', ticks')" by (cases x) auto
  have res: "res = ReadOk" using assms(1) Some x by (auto simp: handle_client_def split: read_result.splits)
  obtain env others where e: "pace 0 = (env, others)" by fastforce
  have w: "\<exists>s1 repo. serve_client pace 1 i repo r' ticks' s1 = Waiting s'"
    using assms(1) Some x res e by (auto simp: handle_client_def split: hello_result.splits)
  from next_line_rest[OF Some[unfolded x res]] obtain before
    where b: "ticks = before @ ticks'" "list_all (\<lambda>t. \<not> final_tick t) before" by blast
  from w serve_client_waits have "t \<in> set ticks' \<Longrightarrow> \<not> final_tick t" by blast
  then show ?thesis using b assms(2) by (auto simp: list_all_iff)
qed

section \<open>A connection is a run of the daemon\<close>

definition fair_pace :: "string \<Rightarrow> pace \<Rightarrow> bool" where
  "fair_pace i pace \<longleftrightarrow> (\<forall>n s. (other_thread i)\<^sup>*\<^sup>* s (snd (pace n) s))"

lemma fair_pace_others:
  assumes "fair_pace i pace" "reachable k solo s"
  shows "reachable k solo (snd (pace n) s)"
    "om_get (sv_clients (snd (pace n) s)) i = om_get (sv_clients s) i"
proof -
  have b: "(other_thread i)\<^sup>*\<^sup>* s (snd (pace n) s)" using assms(1) by (simp add: fair_pace_def)
  show "reachable k solo (snd (pace n) s)"
    using assms(2) other_threads_steps[OF b] unfolding reachable_def by (rule rtranclp_trans)
  show "om_get (sv_clients (snd (pace n) s)) i = om_get (sv_clients s) i"
    using other_threads_client[OF b reachable_ok[OF assms(2)]] by simp
qed

lemma reachable_step: "reachable k solo s \<Longrightarrow> server_step s s' \<Longrightarrow> reachable k solo s'"
  unfolding reachable_def by (rule rtranclp.rtrancl_into_rtrancl)

text \<open>A served connection ends with its client leaving a state in which it is still there.\<close>

lemma serve_client_run:
  "serve_client pace n i repo r ticks s = Ended s' \<Longrightarrow> fair_pace i pace \<Longrightarrow> reachable k solo s \<Longrightarrow>
   om_get (sv_clients s) i = Some c \<Longrightarrow> cl_repo c = repo \<Longrightarrow>
   reachable k solo s' \<and> (\<exists>t. om_get (sv_clients t) i = Some c \<and> s' = client_leave i t)"
proof (induction pace n i repo r ticks s rule: serve_client.induct)
  case (1 pace n i repo r ticks s)
  obtain env others where e: "pace n = (env, others)" by fastforce
  note F = fair_pace_others[OF 1(3,4), of n, unfolded e snd_conv]
  have c: "om_get (sv_clients (others s)) i = Some c" using F(2) 1(5) by simp
  obtain res line r' ticks' where x: "next_line r ticks = Some (res, line, r', ticks')"
    using 1(2) by (subst (asm) serve_client.simps) (auto split: option.splits)
  show ?case
  proof (cases "res = ReadOk")
    case False
    then have "s' = client_leave i (others s)"
      using 1(2) x e by (subst (asm) serve_client.simps) (auto split: read_result.splits)
    then show ?thesis using c reachable_step[OF F(1) lost[OF c]] by blast
  next
    case True
    note N = x[unfolded True]
    show ?thesis
    proof (cases "client_message env i repo line (others s)")
      case (Handled s1)
      have m: "client_message env i (cl_repo c) line (others s) = Handled s1" using Handled 1(6) by simp
      have r1: "reachable k solo s1" by (rule reachable_step[OF F(1) message[OF c m]])
      have c1: "om_get (sv_clients s1) i = Some c" using client_message_clients[OF Handled] c by simp
      have "serve_client pace (Suc n) i repo r' ticks' s1 = Ended s'"
        using 1(2) N e Handled by (subst (asm) serve_client.simps) simp
      from 1(1)[OF N refl refl refl refl e[symmetric] refl Handled this 1(3) r1 c1 1(6)] show ?thesis .
    next
      case (Hangup s1)
      have m: "client_message env i (cl_repo c) line (others s) = Hangup s1" using Hangup 1(6) by simp
      have "s' = client_leave i s1" using 1(2) N e Hangup by (subst (asm) serve_client.simps) simp
      moreover have "om_get (sv_clients s1) i = Some c"
        using client_message_ok(2)[OF reachable_ok[OF F(1)] Hangup] c by simp
      ultimately show ?thesis using reachable_step[OF F(1) hangup[OF c m]] by blast
    next
      case Crashed
      then show ?thesis using 1(2) N e by (subst (asm) serve_client.simps) simp
    qed
  qed
qed

definition unknown_id :: "string \<Rightarrow> server \<Rightarrow> bool" where
  "unknown_id i s \<longleftrightarrow> om_get (sv_clients s) i = None \<and> om_get (sv_agents s) i = None \<and>
     (\<forall>m\<in>set (map snd (sv_read_hashes s)). om_get m i = None)"

lemma handle_client_run:
  assumes "handle_client pace i fd ticks s = Ended s'" "fair_pace i pace" "reachable k solo s"
    and "unknown_id i (snd (pace 0) s)"
  shows "reachable k solo s' \<and> om_get (sv_clients s') i = None \<and> om_get (readers_of p s') i = None"
proof -
  obtain env others where e: "pace 0 = (env, others)" by fastforce
  note F = fair_pace_others(1)[OF assms(2,3), of 0, unfolded e snd_conv]
  have u: "om_get (sv_clients (others s)) i = None" "om_get (sv_agents (others s)) i = None"
    using assms(4) by (simp_all add: unknown_id_def e)
  have rd: "om_get (readers_of p (others s)) i = None"
  proof (cases "om_get (sv_read_hashes (others s)) p")
    case (Some m)
    then have "(p, m) \<in> set (sv_read_hashes (others s))"
      using reachable_ok[OF F] om_get_mem[of "sv_read_hashes (others s)" p m]
      by (auto simp: server_ok_def tables_ok_def om_ok_distinct)
    then show ?thesis using assms(4) Some by (force simp: unknown_id_def e readers_of_def)
  qed (simp add: readers_of_def)
  show ?thesis
  proof (cases "next_line (new_reader 0) ticks")
    case None
    then show ?thesis using assms(1) by (simp add: handle_client_def)
  next
    case (Some x)
    obtain res line r' ticks' where x: "x = (res, line, r', ticks')" by (cases x) auto
    show ?thesis
    proof (cases "res = ReadOk")
      case False
      then have "s' = others s" using assms(1) Some x e by (auto simp: handle_client_def split: read_result.splits)
      then show ?thesis using F u rd by simp
    next
      case True
      show ?thesis
      proof (cases "client_hello env i fd line (others s)")
        case (HelloRejected s1)
        then have "s' = s1" using assms(1) Some x True e by (simp add: handle_client_def)
        with hello_rejected_frame[OF HelloRejected] u rd reachable_step[OF F rejected[OF HelloRejected]]
        show ?thesis by (simp add: readers_of_def)
      next
        case (HelloAccepted s1)
        obtain c where c: "om_get (sv_clients s1) i = Some c" "cl_repo c = hello_repo env line"
          using hello_accepted_clients[OF HelloAccepted] by (auto simp: om_get_put)
        have v: "serve_client pace 1 i (hello_repo env line) r' ticks' s1 = Ended s'"
          using assms(1) Some x True e HelloAccepted by (simp add: handle_client_def)
        from serve_client_run[OF v assms(2) reachable_step[OF F accepted[OF u HelloAccepted]] c]
        obtain t where "reachable k solo s'" "om_get (sv_clients t) i = Some c" "s' = client_leave i t"
          by (elim exE conjE)
        with leave_frame(1,2)[OF this(2)] show ?thesis by simp
      next
        case HelloCrashed
        then show ?thesis using assms(1) Some x True e by (simp add: handle_client_def)
      qed
    qed
  qed
qed

section \<open>Line by line\<close>

text \<open>The reference: a connection as the lines it sends before it closes.\<close>

fun serve_lines ::
    "pace \<Rightarrow> nat \<Rightarrow> string \<Rightarrow> string \<Rightarrow> string list \<Rightarrow> server \<Rightarrow> conn_result" where
  "serve_lines pace n i repo [] s = Ended (client_leave i (snd (pace n) s))"
| "serve_lines pace n i repo (line # lines) s =
     (case client_message (fst (pace n)) i repo line (snd (pace n) s) of
        Handled s' \<Rightarrow> serve_lines pace (Suc n) i repo lines s'
      | Hangup s' \<Rightarrow> Ended (client_leave i s')
      | Crashed \<Rightarrow> Died)"

fun handle_lines :: "pace \<Rightarrow> string \<Rightarrow> int \<Rightarrow> string list \<Rightarrow> server \<Rightarrow> conn_result" where
  "handle_lines pace i fd [] s = Ended (snd (pace 0) s)"
| "handle_lines pace i fd (line # lines) s =
     (case client_hello (fst (pace 0)) i fd line (snd (pace 0) s) of
        HelloRejected s' \<Rightarrow> Ended s'
      | HelloCrashed \<Rightarrow> Died
      | HelloAccepted s' \<Rightarrow> serve_lines pace 1 i (hello_repo (fst (pace 0)) line) lines s')"

definition closing_stream :: "string list \<Rightarrow> tick list" where
  "closing_stream chunks = arrivals chunks @ [(False, RecvEof)]"

lemma next_line_closing:
  "next_line r (arrivals chunks) = Some (ReadOk, f, r', arrivals chunks') \<Longrightarrow>
   next_line r (closing_stream chunks) = Some (ReadOk, f, r', closing_stream chunks')"
proof (induction chunks arbitrary: r)
  case Nil
  then show ?case by (auto simp: arrivals_def closing_stream_def split: option.splits if_splits)
next
  case (Cons d ds)
  show ?case
  proof (cases "take_line r")
    case (Some x)
    then have "arrivals chunks' = arrivals (d # ds)" using Cons.prems by (cases x) (simp add: arrivals_def)
    then show ?thesis using Some Cons.prems by (cases x) (simp add: closing_stream_def, simp add: arrivals_def)
  next
    case None
    then show ?thesis
      using Cons by (auto simp: arrivals_def closing_stream_def Let_def split: if_splits)
  qed
qed

lemma next_line_eof:
  assumes "nl \<notin> set (unread r @ concat chunks)" "length (unread r @ concat chunks) \<le> kMaxFrameBytes"
    and "lr_max_wait_ms r = 0"
  shows "\<exists>r'. next_line r (closing_stream chunks) = Some (ReadEof, [], r', [])"
  using assms
proof (induction chunks arbitrary: r)
  case Nil
  have "take_line r = None" "\<not> too_long r"
    using Nil by (simp_all add: take_line_None too_long_def unread_def)
  then show ?case using Nil(3) by (simp add: closing_stream_def arrivals_def Let_def not_expired)
next
  case (Cons d ds)
  let ?r = "elapse (compact r)\<lparr>lr_buf := unread r @ d\<rparr>"
  have "take_line r = None" "\<not> too_long r"
    using Cons.prems by (simp_all add: take_line_None too_long_def unread_def)
  then have "next_line r (closing_stream (d # ds)) = next_line ?r (closing_stream ds)"
    using Cons.prems(3) by (simp add: closing_stream_def arrivals_def Let_def not_expired)
  moreover have "\<exists>r'. next_line ?r (closing_stream ds) = Some (ReadEof, [], r', [])"
    using Cons.prems by (intro Cons.IH) (simp_all add: refilled_unread)
  ultimately show ?case by simp
qed

text \<open>What is left of the stream: whole lines, then a rest without its newline, which is dropped.\<close>

definition streams :: "line_reader \<Rightarrow> string list \<Rightarrow> string list \<Rightarrow> string \<Rightarrow> bool" where
  "streams r chunks lines rest \<longleftrightarrow>
     unread r @ concat chunks = concat (map (\<lambda>l. l @ NL) lines) @ rest \<and> list_all frameable lines \<and>
     frameable rest \<and> lr_max_wait_ms r = 0"

lemma streams_Nil:
  assumes "streams r chunks [] rest"
  shows "\<exists>r'. next_line r (closing_stream chunks) = Some (ReadEof, [], r', [])"
proof -
  have "unread r @ concat chunks = rest" "frameable rest" "lr_max_wait_ms r = 0"
    using assms by (simp_all add: streams_def)
  then show ?thesis using next_line_eof[of r chunks] by (simp only: frameable_def simp_thms)
qed

lemma streams_Cons:
  assumes "streams r chunks (line # lines) rest"
  obtains r' chunks' where
    "next_line r (closing_stream chunks) = Some (ReadOk, line, r', closing_stream chunks')"
    "streams r' chunks' lines rest"
proof -
  have u: "unread r @ concat chunks = line @ nl # concat (map (\<lambda>l. l @ NL) lines) @ rest"
    "nl \<notin> set line" "length line \<le> kMaxFrameBytes" "lr_max_wait_ms r = 0"
    using assms by (simp_all add: streams_def frameable_def)
  from next_line_frame[OF u] obtain r' chunks' where
    n: "next_line r (arrivals chunks) = Some (ReadOk, line, r', arrivals chunks')"
      "unread r' @ concat chunks' = concat (map (\<lambda>l. l @ NL) lines) @ rest" "lr_max_wait_ms r' = 0"
    by blast
  have "streams r' chunks' lines rest" using n(2,3) assms by (simp add: streams_def)
  with that next_line_closing[OF n(1)] show ?thesis by blast
qed

lemma serve_client_lines:
  "streams r chunks lines rest \<Longrightarrow>
   serve_client pace n i repo r (closing_stream chunks) s = serve_lines pace n i repo lines s"
proof (induction lines arbitrary: n r chunks s)
  case Nil
  from streams_Nil[OF this] show ?case by (subst serve_client.simps) auto
next
  case (Cons line lines)
  obtain env others where e: "pace n = (env, others)" by fastforce
  from streams_Cons[OF Cons.prems] obtain r' chunks' where n:
    "next_line r (closing_stream chunks) = Some (ReadOk, line, r', closing_stream chunks')"
    "streams r' chunks' lines rest" .
  show ?case
    by (subst serve_client.simps) (simp add: n(1) e Cons.IH[OF n(2)] split: msg_result.split)
qed

lemma handle_client_lines:
  assumes "streams (new_reader 0) chunks lines rest"
  shows "handle_client pace i fd (closing_stream chunks) s = handle_lines pace i fd lines s"
proof (cases lines)
  case Nil
  with assms streams_Nil show ?thesis by (fastforce simp: handle_client_def)
next
  case (Cons line ls)
  obtain env others where e: "pace 0 = (env, others)" by fastforce
  from streams_Cons[OF assms[unfolded Cons]] obtain r' chunks' where n:
    "next_line (new_reader 0) (closing_stream chunks) = Some (ReadOk, line, r', closing_stream chunks')"
    "streams r' chunks' ls rest" .
  show ?thesis
    by (simp add: Cons handle_client_def n(1) e serve_client_lines[OF n(2)] split: hello_result.split)
qed

section \<open>Properties\<close>

text \<open>C15: What a connection does to the daemon depends on the bytes it sends and not on how they arrive: it
  is handled line by line in the order of the stream, whatever the other threads do in between, and a
  last line without its newline is dropped.\<close>

theorem connection_is_handled_by_lines:
  assumes "concat chunks = concat (map (\<lambda>l. l @ NL) lines) @ rest" "list_all frameable lines"
    and "frameable rest"
  shows "handle_client pace i fd (closing_stream chunks) s = handle_lines pace i fd lines s"
  using handle_client_lines[of chunks lines rest pace i fd s] assms by (simp add: streams_def)

theorem connection_is_handled_by_lines_witness:
  "handle_client (\<lambda>n. (sample_env, poll_tick sample_env)) ''a1'' 5
     (closing_stream [''h'', NL @ ''r'' @ NL @ ''b'', ''ad'']) (new_server [] True) =
   handle_lines (\<lambda>n. (sample_env, poll_tick sample_env)) ''a1'' 5 [''h'', ''r''] (new_server [] True)"
  by (rule connection_is_handled_by_lines[of _ _ "''bad''"]) (simp_all add: frameable_def kMaxFrameBytes_def)

text \<open>C14: A connection whose socket fails or is closed, or whose daemon stops, ends, unless an exception
  ends the daemon; whatever it sent and whatever the other threads did, nothing of it is left in the
  client, member and reader tables, and its agent stays only while a turn of it is running.\<close>

theorem connection_ends_without_trace:
  assumes "reachable k solo s" "fair_pace i pace" "unknown_id i (snd (pace 0) s)"
    and "t \<in> set ticks" "final_tick t"
  shows "handle_client pace i fd ticks s = Died \<or>
    (\<exists>s'. handle_client pace i fd ticks s = Ended s' \<and> reachable k solo s' \<and>
       om_get (sv_clients s') i = None \<and> (\<forall>p. om_get (readers_of p s') i = None) \<and>
       (\<forall>r. i \<notin> set (members_of r s')) \<and>
       (om_get (sv_agents s') i \<noteq> None \<longrightarrow> i \<in> fst ` set (sv_running s')))"
proof (cases "handle_client pace i fd ticks s")
  case (Waiting s')
  then show ?thesis using handle_client_waits assms(4,5) by blast
next
  case (Ended s')
  have R: "reachable k solo s'" "om_get (sv_clients s') i = None" "om_get (readers_of p s') i = None" for p
    using handle_client_run[OF Ended assms(2,1,3)] by simp_all
  have ok: "slots_ok s'" "members_ok s'" using reachable_ok[OF R(1)] by (simp_all add: server_ok_def)
  have a: "om_get (sv_agents s') i \<noteq> None \<longrightarrow> i \<in> fst ` set (sv_running s')"
    using ok(1) R(2) unfolding slots_ok_def by blast
  have m: "i \<notin> set (members_of r s')" for r using ok(2) R(2) unfolding members_ok_def by simp
  show ?thesis by (intro disjI2 exI[of _ s'] conjI allI) (rule Ended R a m)+
qed simp

theorem connection_ends_without_trace_witness:
  "\<exists>s'. handle_client (\<lambda>n. (sample_env, poll_tick sample_env)) ''a1'' 5
      (closing_stream [''h'', NL @ ''x'']) (new_server [] True) = Ended s' \<and>
    om_get (sv_clients s') ''a1'' = None \<and> ''a1'' \<notin> set (members_of ''/r'' s')"
proof -
  let ?pace = "\<lambda>n :: nat. (sample_env, poll_tick sample_env)"
  let ?s = "new_server [] True"
  let ?ticks = "closing_stream [''h'', NL @ ''x'']"
  have fair: "fair_pace ''a1'' ?pace"
    unfolding fair_pace_def by (simp add: r_into_rtranclp[of "other_thread ''a1''", OF a_poll])
  have p: "poll_tick sample_env ?s = ?s" by (simp add: poll_tick_def poll_states_def new_server_def)
  have u: "unknown_id ''a1'' (snd (?pace 0) ?s)"
    unfolding snd_conv p by (simp add: unknown_id_def new_server_def om_get_def)
  have r: "reachable [] True ?s" by (simp add: reachable_def)
  have f: "(False, RecvEof) \<in> set ?ticks" "final_tick (False, RecvEof)"
    by (simp_all add: closing_stream_def final_tick_def)
  have "streams (new_reader 0) [''h'', NL @ ''x''] [''h''] ''x''"
    by (simp add: streams_def frameable_def kMaxFrameBytes_def)
  from handle_client_lines[OF this] have l:
    "handle_client ?pace ''a1'' 5 ?ticks ?s = handle_lines ?pace ''a1'' 5 [''h''] ?s" .
  obtain s1 where "client_hello sample_env ''a1'' 5 ''h'' ?s = HelloAccepted s1"
    using hello_accepts[of ?s sample_env "''h''" "''/r''" "''ann''" "''a1''" 5]
    by (auto simp: new_server_def sample_env_def)
  then have "handle_client ?pace ''a1'' 5 ?ticks ?s \<noteq> Died" unfolding l by (simp add: p)
  with connection_ends_without_trace[OF r fair u f, of 5] show ?thesis by blast
qed

section \<open>Divergences\<close>

text \<open>The turn of a client that left goes on, and a file it reads then is entered for the client again: the
  entry is never removed.\<close>

theorem late_read_is_kept:
  assumes "om_get (sv_clients s) i = Some c" "disk_hash env p \<noteq> []"
  shows "om_get (sv_clients (snd (peer_register_read env i p (client_leave i s)))) i = None \<and>
    om_get (readers_of p (snd (peer_register_read env i p (client_leave i s)))) i = Some (disk_hash env p)"
proof -
  have "sv_clients (record_read env p i h t) = sv_clients t"
    "om_get (readers_of p (record_read env p i h t)) i = Some h" for h t
    using calm_record_read[of t env p i h]
    by (simp_all add: calm_def record_read_def readers_of_def server_simps om_get_put)
  then show ?thesis
    using leave_frame(1)[OF assms(1)] assms(2) by (simp add: peer_register_read_def)
qed

text \<open>A connection that sends nothing is waited for without a limit, also before its hello.\<close>

theorem silent_connection_is_kept: "handle_client pace i fd (replicate n (False, PollTimeout)) s = Waiting s"
proof -
  have "next_line r (replicate n (False, PollTimeout)) = None"
    if "unread r = []" "lr_max_wait_ms r = 0" for r
    using that
  proof (induction n arbitrary: r)
    case (Suc n)
    have "take_line r = None" "\<not> too_long r"
      using Suc.prems by (simp_all add: take_line_None too_long_def unread_def)
    then show ?case using Suc by (simp add: Let_def not_expired)
  next
    case 0
    then have "take_line r = None" "\<not> too_long r"
      by (simp_all add: take_line_None too_long_def unread_def)
    then show ?case by simp
  qed
  from this[of "new_reader 0"] show ?thesis by (simp add: handle_client_def)
qed

end
