(* ===== verification/Served_Turn.thy ===== *)
theory Served_Turn
  imports Remote_Client Swarm_Connection
begin

text \<open>
  A prompt on its way through client and daemon: \<open>RemoteAgent::run_turn\<close> (\<open>src/remote/remote_agent.cpp\<close>)
  sends it, the connection's thread schedules it, the prompt's thread runs the turn
  (\<open>src/server/server.cpp\<close>), and the frames of its callbacks come back to the client's reader thread.
\<close>

section \<open>The request\<close>

lemma start_turn_sent:
  assumes "start_turn ok t st = (True, st1)"
  shows "last (sc_sent st1) = prompt_req t"
  using assms
  by (auto simp: start_turn_def client_send_prompt_def send_frame_def Let_def split: if_splits prod.splits)

lemma prompt_handled:
  assumes "se_parse env line = Some (sanitize_json_strings (prompt_req t))"
  shows "client_message env i repo line s = Handled (schedule_prompt env i (utf8_sanitize t) s)"
proof -
  have f: "jfind (prompt_req t) ''type'' = Some (JStr ''prompt'')" "jfind (prompt_req t) ''text'' = Some (JStr t)"
    by (simp_all add: prompt_req_def frame_def jfind_jobj)
  obtain m where m: "sanitize_json_strings (prompt_req t) = JObj m"
    by (simp add: prompt_req_def frame_def jobj_def)
  have "utf8_valid ''prompt''" by code_simp
  then have p: "utf8_sanitize ''prompt'' = ''prompt''" by (rule utf8_sanitize_id)
  have g: "jfind (JObj m) ''type'' = Some (JStr ''prompt'')" "jfind (JObj m) ''text'' = Some (JStr (utf8_sanitize t))"
    using f p by (simp_all add: m[symmetric] sanitize_json_find)
  show ?thesis
    using g by (simp add: client_message_def assms m type_of_def value_of_def with_str_def Let_def)
qed

lemma idle_slot:
  assumes "server_ok s" "om_get (sv_clients s) i \<noteq> None" "i \<notin> fst ` set (sv_running s)"
  obtains sl where "om_get (sv_agents s) i = Some sl" "\<not> sl_busy sl"
proof -
  have so: "slots_ok s" using assms(1) by (simp add: server_ok_def)
  obtain sl where sl: "om_get (sv_agents s) i = Some sl" using so assms(2) by (auto simp: slots_ok_def)
  have "sl_busy sl \<longleftrightarrow> i \<in> fst ` set (sv_running s)" using so sl by (simp add: slots_ok_def)
  then show ?thesis using that sl assms(3) by simp
qed

lemma prompt_scheduled:
  assumes "server_ok s" "om_get (sv_clients s) i \<noteq> None" "i \<notin> fst ` set (sv_running s)" "t \<noteq> []"
  shows "(i, t) \<in> set (sv_running (schedule_prompt env i t s))"
    "sv_out (schedule_prompt env i t s) = sv_out s" "sv_clients (schedule_prompt env i t s) = sv_clients s"
proof -
  from idle_slot[OF assms(1-3)] obtain sl where "om_get (sv_agents s) i = Some sl" "\<not> sl_busy sl" .
  then show "(i, t) \<in> set (sv_running (schedule_prompt env i t s))"
    "sv_out (schedule_prompt env i t s) = sv_out s" "sv_clients (schedule_prompt env i t s) = sv_clients s"
    using assms(4) by (simp_all add: schedule_prompt_def)
qed

lemma sanitize_nonempty: "utf8_sanitize t \<noteq> [] \<Longrightarrow> t \<noteq> []"
proof -
  have "utf8_valid []" by code_simp
  then show "utf8_sanitize t \<noteq> [] \<Longrightarrow> t \<noteq> []" using utf8_sanitize_id by blast
qed

lemma prompt_ends:
  assumes "server_ok s" "run_prompt env outer i t x s = Inr (rc, s', x')"
  shows "i \<notin> fst ` set (sv_running s')"
proof -
  obtain s0 where "s' = end_turn i s0" using run_prompt_calm[OF assms] by (elim exE conjE)
  then show ?thesis by (auto simp: end_turn_def Let_def)
qed

section \<open>Properties\<close>

text \<open>C27: Running a turn through the client is running it in the daemon: the frame the client sends makes
  the daemon's connection schedule the prompt, the turn the daemon then runs on the client's agent is
  the one whose callbacks, in order, and whose result code \<open>run_turn\<close> of the client delivers, and
  afterwards the agent is idle again.\<close>

theorem remote_turn_is_hosted_turn:
  assumes "reachable k solo s" "om_get (sv_clients s) i = Some c" "0 \<le> cl_fd c" "se_fd_ok env' (cl_fd c)"
    and "i \<notin> fst ` set (sv_running s)" "utf8_sanitize t \<noteq> []"
    and "ra_connected st" "sc_running st" "ok (prompt_req t)"
    and "se_parse env line = Some (sanitize_json_strings (last (sc_sent (snd (start_turn ok t st)))))"
    and "run_prompt env' outer i (utf8_sanitize t) x (schedule_prompt env i (utf8_sanitize t) s) = Inr (rc, s', x')"
    and "parses dump parse (map snd (drop (length (sv_out s)) (sv_out s')))"
  shows "client_message env i (cl_repo c) line s = Handled (schedule_prompt env i (utf8_sanitize t) s) \<and>
    (i, utf8_sanitize t) \<in> set (sv_running (schedule_prompt env i (utf8_sanitize t) s)) \<and>
    (\<exists>calls st'.
      prompt_turn env' outer i (utf8_sanitize t) x (schedule_prompt env i (utf8_sanitize t) s) = (Inr rc, calls) \<and>
      remote_run_turn ok parse t (lines_of dump (map snd (drop (length (sv_out s)) (sv_out s')))) st =
        Inr (Some (to_int32 rc), st') \<and> ra_calls st' = map arrived_call calls) \<and>
    i \<notin> fst ` set (sv_running s')"
proof -
  let ?s1 = "schedule_prompt env i (utf8_sanitize t) s"
  have t: "t \<noteq> []" by (rule sanitize_nonempty[OF assms(6)])
  have ok: "server_ok s" "server_ok ?s1" using reachable_ok[OF assms(1)] schedule_prompt_ok by blast+
  have c: "om_get (sv_clients s) i \<noteq> None" using assms(2) by simp
  note S = prompt_scheduled[OF ok(1) c assms(5,6), of env]
  obtain st1 where st1: "start_turn ok t st = (True, st1)"
    using start_turn_ok[of st t ok] assms(7-9) t by blast
  have m: "client_message env i (cl_repo c) line s = Handled ?s1"
    using assms(10) by (intro prompt_handled) (simp add: st1 start_turn_sent[OF st1])
  have at: "reachable_at env' i (cl_fd c) ?s1" using assms(2-4) by (simp add: reachable_at_def S(3))
  obtain calls used whole where h: "prompt_turn env' outer i (utf8_sanitize t) x ?s1 = (Inr rc, calls)"
    and o: "sv_out s' = sv_out s @ map (\<lambda>c'. (cl_fd c, call_frame c')) calls @
      [(cl_fd c, ctx_packet used whole), (cl_fd c, turn_done_packet rc)]"
    using run_prompt_calls[OF ok(2) at assms(11)] unfolding S(2) by blast
  have d: "map snd (drop (length (sv_out s)) (sv_out s')) =
      map call_frame calls @ [ctx_packet used whole, turn_done_packet rc]" unfolding o by simp
  obtain st' where "remote_run_turn ok parse t
      (lines_of dump (map call_frame calls @ [ctx_packet used whole, turn_done_packet rc])) st =
      Inr (Some (to_int32 rc), st')" "ra_calls st' = map arrived_call calls"
    using mirrored_turn[of st t ok dump parse calls used whole rc] assms(7-9,12) t unfolding d by blast
  with m S(1) h prompt_ends[OF ok(2) assms(11)] show ?thesis unfolding d by blast
qed

lemma one_client:
  "\<exists>s. reachable [] True s \<and> sv_clients s = [(''a1'', ann ''a1'' 5)] \<and> sv_running s = [] \<and>
     provider_of ''a1'' s = None"
proof -
  let ?s0 = "new_server [] True"
  have p: "se_parse sample_env ''h'' = Some (hello_req ''/r'' ''ann'')" by (simp add: sample_env_def)
  obtain s1 where s1: "client_hello sample_env ''a1'' 5 ''h'' ?s0 = HelloAccepted s1"
      "sv_clients s1 = [(''a1'', ann ''a1'' 5)]" "provider_of ''a1'' s1 = None"
    using hello_accepts[OF _ p, of ?s0 "''a1''" 5 "''a1''"] by (auto simp: new_server_def)
  have "server_step ?s0 s1" by (rule accepted[OF _ _ s1(1)]) (simp_all add: new_server_def)
  then have "reachable [] True s1" unfolding reachable_def by (rule r_into_rtranclp)
  moreover have "sv_running s1 = []"
    using s1(1) by (auto simp: client_hello_def Let_def hello_register_def create_agent_slot_def
        bind_outcome_Inr send_state_def send_only_def send_to_def new_server_def
        split: option.splits if_splits sum.splits prod.splits)
  ultimately show ?thesis using s1(2,3) by blast
qed

theorem remote_turn_is_hosted_turn_witness:
  "\<exists>(s' :: server) dump parse out st'.
    remote_run_turn (\<lambda>_. True) parse ''go'' (lines_of dump (map snd (drop out (sv_out s')))) demo_remote =
      Inr (Some 1, st') \<and> ''a1'' \<notin> fst ` set (sv_running s')"
proof -
  obtain s where s: "reachable [] True s" "sv_clients s = [(''a1'', ann ''a1'' 5)]" "sv_running s = []"
      "provider_of ''a1'' s = None"
    using one_client by blast
  have c: "om_get (sv_clients s) ''a1'' = Some (ann ''a1'' 5)" "0 \<le> cl_fd (ann ''a1'' 5)"
    by (simp_all add: s(2) om_get_def)
  have "utf8_valid ''go''" by code_simp
  then have g: "utf8_sanitize ''go'' = ''go''" by (rule utf8_sanitize_id)
  let ?f = "sanitize_json_strings (last (sc_sent (snd (start_turn (\<lambda>_. True) ''go'' demo_remote))))"
  let ?env = "sample_env\<lparr>se_parse := (\<lambda>l. Some ?f)\<rparr>"
  have e: "se_parse ?env ''p'' = Some ?f" "se_fd_ok ?env (cl_fd (ann ''a1'' 5))"
    by (simp_all add: sample_env_def)
  let ?s1 = "schedule_prompt ?env ''a1'' ''go'' s"
  have n: "''a1'' \<notin> fst ` set (sv_running s)" "utf8_sanitize ''go'' \<noteq> []" by (simp_all add: s(3) g)
  have "om_get (sv_clients s) ''a1'' \<noteq> None" using c(1) by simp
  from idle_slot[OF reachable_ok[OF s(1)] this n(1)] obtain sl
    where sl: "om_get (sv_agents s) ''a1'' = Some sl" "\<not> sl_busy sl" .
  have "om_get (sv_agents ?s1) ''a1'' = Some (sl\<lparr>sl_busy := True\<rparr>)" "provider_of ''a1'' ?s1 = None"
    using sl s(4) by (simp_all add: schedule_prompt_def provider_of_def om_get_put)
  from run_prompt_no_provider[OF this, of ?env script_env "''go''" "[]"] obtain s' where
      r: "run_prompt ?env script_env ''a1'' ''go'' [] ?s1 = Inr (1, s', [])"
    by blast
  have r': "run_prompt ?env script_env ''a1'' (utf8_sanitize ''go'') []
      (schedule_prompt ?env ''a1'' (utf8_sanitize ''go'') s) = Inr (1, s', [])"
    using r by (simp only: g)
  have st: "ra_connected demo_remote" "sc_running demo_remote" by (simp_all add: demo_remote_def)
  have t1: "to_int32 1 = 1" by (simp add: to_int32_id)
  from remote_turn_is_hosted_turn[OF s(1) c(1,2) e(2) n st TrueI e(1) r' table_parses, unfolded t1]
  show ?thesis by blast
qed

end
