(* ===== verification/Served_Client.thy ===== *)
theory Served_Client
  imports Remote_Client Swarm_Connection
begin

text \<open>
  A whole session of a client: the operations of \<open>ServerClient\<close> (\<open>src/server/client.cpp\<close>) against the
  connection's thread in the daemon (\<open>src/server/server.cpp\<close>).
\<close>

section \<open>Frames that hold only strings\<close>











section \<open>The operations of a client\<close>







section \<open>Properties\<close>






end
