(* ===== verification/Prompt_Editor.thy ===== *)
theory Prompt_Editor
  imports Utf8
begin

text \<open>
  The multi-line editor of the prompt (\<open>src/tui/prompt_editor.h\<close>): glyph arithmetic on bytes, the
  hard wrap, the keys and the rows that are drawn. The component library's events and boxes are the
  arguments of the handlers; the callbacks may replace text and cursor, which the editor shares with
  its owner, but not the selection anchor.
\<close>

section \<open>Glyphs\<close>

definition lead_len :: "char \<Rightarrow> nat" where
  "lead_len c =
     (if byte c < 0x80 then 1
      else if byte c AND 0xE0 = 0xC0 then 2
      else if byte c AND 0xF0 = 0xE0 then 3
      else if byte c AND 0xF8 = 0xF0 then 4
      else 1)"

definition pe_glyph_len :: "string \<Rightarrow> nat \<Rightarrow> nat" where
  "pe_glyph_len s i = lead_len (s ! i)"

definition lead_width :: "char \<Rightarrow> nat" where
  "lead_width c = (if byte c < 0x80 then 1 else 2)"

definition pe_glyph_width :: "string \<Rightarrow> nat \<Rightarrow> nat" where
  "pe_glyph_width s i = lead_width (s ! i)"

lemma lead_len_pos: "0 < lead_len c"
  by (simp add: lead_len_def)

text \<open>The loops that go through a string glyph by glyph.\<close>

function string_width_from :: "string \<Rightarrow> nat \<Rightarrow> nat" where
  "string_width_from s i =
     (if i < length s then pe_glyph_width s i + string_width_from s (i + pe_glyph_len s i) else 0)"
  by pat_completeness auto
termination
  by (relation "measure (\<lambda>(s, i). length s - i)") (auto simp: pe_glyph_len_def diff_less_mono2 lead_len_pos)

definition pe_string_width :: "string \<Rightarrow> nat" where
  "pe_string_width s = string_width_from s 0"

definition bullet :: string where "bullet = [CHR 0xE2, CHR 0x80, CHR 0xA2]"

function mask_from :: "string \<Rightarrow> nat \<Rightarrow> string" where
  "mask_from s i = (if i < length s then bullet @ mask_from s (i + pe_glyph_len s i) else [])"
  by pat_completeness auto
termination
  by (relation "measure (\<lambda>(s, i). length s - i)") (auto simp: pe_glyph_len_def diff_less_mono2 lead_len_pos)

declare string_width_from.simps [simp del] mask_from.simps [simp del]

definition pe_mask :: "string \<Rightarrow> string" where
  "pe_mask s = mask_from s 0"

text \<open>The byte at \<open>s.size()\<close> reads as NUL.\<close>

definition peek :: "string \<Rightarrow> nat \<Rightarrow> char" where
  "peek s i = (if i < length s then s ! i else CHR 0x00)"

fun glyph_back_from :: "string \<Rightarrow> nat \<Rightarrow> nat" where
  "glyph_back_from s 0 = 0"
| "glyph_back_from s (Suc p) = (if is_cont (peek s (Suc p)) then glyph_back_from s p else Suc p)"

definition pe_glyph_back :: "string \<Rightarrow> nat \<Rightarrow> nat" where
  "pe_glyph_back s pos = (if pos = 0 then 0 else glyph_back_from s (pos - 1))"

abbreviation esc_char :: char where "esc_char \<equiv> CHR 0x1B"

definition pe_is_select_all :: "string \<Rightarrow> bool" where
  "pe_is_select_all input \<longleftrightarrow>
     input \<in> set [esc_char # ''[97;4u'', esc_char # ''[97;5u'', esc_char # ''[1;4u'', esc_char # ''[1;5u'',
       esc_char # ''[27;4;97~'', esc_char # ''[27;5;97~'']"

section \<open>The editor\<close>

record box =
  x_min :: int
  x_max :: int
  y_min :: int
  y_max :: int

record editor =
  ed_content :: string
  ed_cursor :: int
  ed_anchor :: int
  ed_box :: box
  ed_avail :: int

record row =
  rw_start :: nat
  rw_end :: nat
  rw_width :: nat

function wrap_from :: "nat \<Rightarrow> string \<Rightarrow> nat \<Rightarrow> nat \<Rightarrow> nat \<Rightarrow> row list" where
  "wrap_from limit s start i row_width =
     (if i < length s then
        (if s ! i = nl then
           \<lparr>rw_start = start, rw_end = i, rw_width = row_width\<rparr> # wrap_from limit s (Suc i) (Suc i) 0
         else (let glen = pe_glyph_len s i; gw = pe_glyph_width s i in
           if 0 < row_width \<and> limit < row_width + gw then
             \<lparr>rw_start = start, rw_end = i, rw_width = row_width\<rparr> # wrap_from limit s i (i + glen) gw
           else wrap_from limit s start (i + glen) (row_width + gw)))
      else [\<lparr>rw_start = start, rw_end = i, rw_width = row_width\<rparr>])"
  by pat_completeness auto
termination
  by (relation "measure (\<lambda>(l, s, st, i, w). length s - i)")
    (auto simp: pe_glyph_len_def diff_less_mono2 lead_len_pos)

declare wrap_from.simps [simp del]

definition wrap_limit :: "editor \<Rightarrow> nat" where
  "wrap_limit ed = (if 0 < ed_avail ed then nat (ed_avail ed) else 1)"

definition wrap :: "editor \<Rightarrow> row list" where
  "wrap ed =
     (if ed_content ed = [] then [\<lparr>rw_start = 0, rw_end = 0, rw_width = 0\<rparr>]
      else wrap_from (wrap_limit ed) (ed_content ed) 0 0 0)"

definition wrapped_rows :: "editor \<Rightarrow> nat" where
  "wrapped_rows ed = length (wrap ed)"

definition span :: "string \<Rightarrow> row \<Rightarrow> string" where
  "span s r = take (rw_end r - rw_start r) (drop (rw_start r) s)"

text \<open>The first row that holds the cursor, with the column; \<open>None\<close> when no row does.\<close>

fun find_row :: "nat \<Rightarrow> row list \<Rightarrow> int \<Rightarrow> nat option" where
  "find_row i [] cur = None"
| "find_row i (r # rs) cur =
     (if int (rw_start r) \<le> cur \<and> cur \<le> int (rw_end r) then Some i else find_row (Suc i) rs cur)"

definition cursor_position :: "editor \<Rightarrow> row list \<Rightarrow> bool \<times> nat \<times> nat" where
  "cursor_position ed rows =
     (case find_row 0 rows (ed_cursor ed) of
        Some i \<Rightarrow> (True, i, pe_string_width
          (take (nat (ed_cursor ed) - rw_start (rows ! i)) (drop (rw_start (rows ! i)) (ed_content ed))))
      | None \<Rightarrow> (False, length rows - 1, pe_string_width (span (ed_content ed) (last rows))))"

definition cursor_row :: "editor \<Rightarrow> row list \<Rightarrow> nat" where
  "cursor_row ed rows = fst (snd (cursor_position ed rows))"

definition clamp_cursor :: "editor \<Rightarrow> editor" where
  "clamp_cursor ed =
     (let ed1 = (if ed_cursor ed < 0 then ed\<lparr>ed_cursor := 0\<rparr> else ed) in
      if int (length (ed_content ed1)) < ed_cursor ed1
      then ed1\<lparr>ed_cursor := int (length (ed_content ed1))\<rparr> else ed1)"

definition sel_active :: "editor \<Rightarrow> bool" where
  "sel_active ed \<longleftrightarrow> 0 \<le> ed_anchor ed \<and> ed_anchor ed \<noteq> ed_cursor ed"

definition clear_selection :: "editor \<Rightarrow> editor" where
  "clear_selection ed = ed\<lparr>ed_anchor := -1\<rparr>"

text \<open>\<open>std::string::erase\<close> and \<open>insert\<close> throw \<open>out_of_range\<close> past the end.\<close>

definition out_of_range :: failure where "out_of_range = Thrown ''basic_string: out_of_range''"

definition erase_at :: "int \<Rightarrow> nat \<Rightarrow> string \<Rightarrow> string outcome" where
  "erase_at pos n s =
     (if pos < 0 \<or> int (length s) < pos then Inl out_of_range
      else Inr (take (nat pos) s @ drop (nat pos + n) s))"

definition insert_at :: "int \<Rightarrow> string \<Rightarrow> string \<Rightarrow> string outcome" where
  "insert_at pos t s =
     (if pos < 0 \<or> int (length s) < pos then Inl out_of_range
      else Inr (take (nat pos) s @ t @ drop (nat pos) s))"

text \<open>Whether a selection was erased, and the editor after that.\<close>

definition erase_selection :: "editor \<Rightarrow> (bool \<times> editor) outcome" where
  "erase_selection ed =
     (if \<not> sel_active ed then Inr (False, ed)
      else let lo = min (ed_anchor ed) (ed_cursor ed); hi = max (ed_anchor ed) (ed_cursor ed) in
        bind_outcome (erase_at lo (nat (hi - lo)) (ed_content ed)) (\<lambda>s.
          Inr (True, ed\<lparr>ed_content := s, ed_cursor := lo, ed_anchor := -1\<rparr>)))"

definition handle_backspace :: "editor \<Rightarrow> (bool \<times> editor) outcome" where
  "handle_backspace ed =
     bind_outcome (erase_selection ed) (\<lambda>(erased, ed).
       if erased then Inr (True, ed)
       else if ed_cursor ed \<le> 0 then Inr (True, ed)
       else if int (length (ed_content ed)) < ed_cursor ed - 1 then Inl Undefined
       else let prev = pe_glyph_back (ed_content ed) (nat (ed_cursor ed)) in
         bind_outcome (erase_at (int prev) (nat (ed_cursor ed) - prev) (ed_content ed)) (\<lambda>s.
           Inr (True, ed\<lparr>ed_content := s, ed_cursor := int prev\<rparr>)))"

definition handle_delete :: "editor \<Rightarrow> (bool \<times> editor) outcome" where
  "handle_delete ed =
     bind_outcome (erase_selection ed) (\<lambda>(erased, ed).
       if erased then Inr (True, ed)
       else if int (length (ed_content ed)) \<le> ed_cursor ed then Inr (False, ed)
       else if ed_cursor ed < 0 then Inl Undefined
       else bind_outcome (erase_at (ed_cursor ed) (pe_glyph_len (ed_content ed) (nat (ed_cursor ed))) (ed_content ed))
         (\<lambda>s. Inr (True, ed\<lparr>ed_content := s\<rparr>)))"

definition handle_arrow_horizontal :: "int \<Rightarrow> editor \<Rightarrow> bool \<times> editor" where
  "handle_arrow_horizontal delta ed0 =
     (let ed = clamp_cursor (clear_selection ed0) in
      if delta < 0 then
        (True, if 0 < ed_cursor ed
          then ed\<lparr>ed_cursor := int (pe_glyph_back (ed_content ed) (nat (ed_cursor ed)))\<rparr> else ed)
      else if ed_cursor ed < int (length (ed_content ed)) then
        (True, ed\<lparr>ed_cursor := ed_cursor ed + int (pe_glyph_len (ed_content ed) (nat (ed_cursor ed)))\<rparr>)
      else (True, ed))"

text \<open>The byte at which column \<open>col\<close> of a row is.\<close>

function column_pos :: "string \<Rightarrow> nat \<Rightarrow> nat \<Rightarrow> int \<Rightarrow> int \<Rightarrow> nat" where
  "column_pos s stop pos w col =
     (if pos < stop \<and> \<not> col < w + int (pe_glyph_width s pos)
      then column_pos s stop (pos + pe_glyph_len s pos) (w + int (pe_glyph_width s pos)) col
      else pos)"
  by pat_completeness auto
termination
  by (relation "measure (\<lambda>(s, e, pos, w, c). e - pos)") (auto simp: pe_glyph_len_def diff_less_mono2 lead_len_pos)

declare column_pos.simps [simp del]

type_synonym shared = "string \<times> int"

record callbacks =
  cb_submit :: "shared \<Rightarrow> shared"
  cb_prev :: "(shared \<Rightarrow> shared) option"
  cb_next :: "(shared \<Rightarrow> shared) option"

definition call_back :: "(shared \<Rightarrow> shared) \<Rightarrow> editor \<Rightarrow> editor" where
  "call_back f ed =
     (let (s, c) = f (ed_content ed, ed_cursor ed) in ed\<lparr>ed_content := s, ed_cursor := c\<rparr>)"

definition call_back_if :: "(shared \<Rightarrow> shared) option \<Rightarrow> editor \<Rightarrow> editor" where
  "call_back_if f ed = (case f of None \<Rightarrow> ed | Some g \<Rightarrow> call_back g ed)"

definition handle_vertical :: "callbacks \<Rightarrow> int \<Rightarrow> editor \<Rightarrow> bool \<times> editor" where
  "handle_vertical cb dir ed0 =
     (let ed = clamp_cursor (clear_selection ed0);
          rows = wrap ed;
          (found, rw, col) = cursor_position ed rows;
          target = int rw + dir
      in if target < 0 then (True, if dir < 0 then call_back_if (cb_prev cb) ed else ed)
         else if int (length rows) \<le> target then (True, if 0 < dir then call_back_if (cb_next cb) ed else ed)
         else let to = rows ! nat target in
           (True, ed\<lparr>ed_cursor := int (column_pos (ed_content ed) (rw_end to) (rw_start to) 0 (int col))\<rparr>))"

definition handle_home_end :: "bool \<Rightarrow> editor \<Rightarrow> editor" where
  "handle_home_end home ed0 =
     (let ed = clear_selection ed0; rows = wrap ed; r = rows ! cursor_row ed rows
      in ed\<lparr>ed_cursor := int (if home then rw_start r else rw_end r)\<rparr>)"

record mouse =
  ms_left :: bool
  ms_pressed :: bool
  ms_x :: int
  ms_y :: int

definition handle_mouse :: "mouse \<Rightarrow> editor \<Rightarrow> bool \<times> editor" where
  "handle_mouse m ed0 =
     (if \<not> ms_left m \<or> \<not> ms_pressed m then (False, ed0)
      else if ms_x m < x_min (ed_box ed0) \<or> x_max (ed_box ed0) < ms_x m \<or>
        ms_y m < y_min (ed_box ed0) \<or> y_max (ed_box ed0) < ms_y m then (False, ed0)
      else let ed = clear_selection ed0; rows = wrap ed; target = ms_y m - y_min (ed_box ed) in
        if target < 0 then (True, ed)
        else if int (length rows) \<le> target then (True, ed)
        else let r = rows ! nat target in
          (True, ed\<lparr>ed_cursor := int (column_pos (ed_content ed) (rw_end r) (rw_start r) 0
            (ms_x m - x_min (ed_box ed)))\<rparr>))"

section \<open>Events\<close>

datatype key =
    KReturn | KCtrlA | KCharacter string | KBackspace | KDelete | KArrowLeft | KArrowRight
  | KArrowUp | KArrowDown | KHome | KEnd | KMouse mouse | KOther

record event =
  ev_key :: key
  ev_input :: string

definition type_text :: "string \<Rightarrow> editor \<Rightarrow> (bool \<times> editor) outcome" where
  "type_text t ed0 =
     bind_outcome (erase_selection ed0) (\<lambda>(_, ed).
       bind_outcome (insert_at (ed_cursor ed) t (ed_content ed)) (\<lambda>s.
         Inr (True, ed\<lparr>ed_content := s, ed_cursor := ed_cursor ed + int (length t)\<rparr>)))"

definition on_event :: "callbacks \<Rightarrow> event \<Rightarrow> editor \<Rightarrow> (bool \<times> editor) outcome" where
  "on_event cb ev ed =
     (if ev_key ev = KReturn then Inr (True, call_back (cb_submit cb) ed)
      else if ev_key ev = KCtrlA \<or> pe_is_select_all (ev_input ev) then
        Inr (True, ed\<lparr>ed_anchor := 0, ed_cursor := int (length (ed_content ed))\<rparr>)
      else if ev_input ev = [esc_char, cr] then type_text NL ed
      else (case ev_key ev of
          KCharacter c \<Rightarrow> type_text c ed
        | KBackspace \<Rightarrow> handle_backspace ed
        | KDelete \<Rightarrow> handle_delete ed
        | KArrowLeft \<Rightarrow> Inr (handle_arrow_horizontal (-1) ed)
        | KArrowRight \<Rightarrow> Inr (handle_arrow_horizontal 1 ed)
        | KArrowUp \<Rightarrow> Inr (handle_vertical cb (-1) ed)
        | KArrowDown \<Rightarrow> Inr (handle_vertical cb 1 ed)
        | KHome \<Rightarrow> Inr (True, handle_home_end True ed)
        | KEnd \<Rightarrow> Inr (True, handle_home_end False ed)
        | KMouse m \<Rightarrow> Inr (handle_mouse m ed)
        | _ \<Rightarrow> Inr (False, ed)))"

section \<open>Drawing\<close>

datatype cell = Text string bool | Caret

definition part :: "int \<Rightarrow> int \<Rightarrow> string \<Rightarrow> string" where
  "part a b s = take (nat (b - a)) (drop (nat a) s)"

text \<open>One row: the cursor relative to the row when it is the cursor's, the selection's span in it.\<close>

definition render_row :: "bool \<Rightarrow> string \<Rightarrow> int option \<Rightarrow> int \<Rightarrow> int \<Rightarrow> cell list" where
  "render_row masked line cur lo hi =
     (let n = int (length line); t = (\<lambda>a b sel. Text (if masked then pe_mask (part a b line) else part a b line) sel) in
      case cur of
        None \<Rightarrow> if lo < hi then [t 0 lo False, t lo hi True, t hi n False] else [t 0 n False]
      | Some c \<Rightarrow>
          if \<not> lo < hi then [t 0 c False, Caret, t c n False]
          else if c < lo then [t 0 c False, Caret, t c lo False, t lo hi True, t hi n False]
          else if c < hi then [t 0 lo False, t lo c True, Caret, t c hi True, t hi n False]
          else [t 0 lo False, t lo hi True, t hi c False, Caret, t c n False])"

definition resize :: "editor \<Rightarrow> editor" where
  "resize ed =
     (if 0 \<le> x_min (ed_box ed) \<and> x_min (ed_box ed) \<le> x_max (ed_box ed)
      then ed\<lparr>ed_avail := x_max (ed_box ed) - x_min (ed_box ed) + 1\<rparr> else ed)"

definition on_render :: "bool \<Rightarrow> editor \<Rightarrow> cell list list outcome" where
  "on_render masked ed0 =
     (let ed = resize ed0; rows = wrap ed; s = ed_content ed;
          (found, crow, ccol) = cursor_position ed rows;
          lo = min (ed_anchor ed) (ed_cursor ed); hi = max (ed_anchor ed) (ed_cursor ed)
      in if s = [] then Inr [[Caret]]
         else if \<not> found then Inl out_of_range
         else Inr (map (\<lambda>(i, r).
           let rs = int (rw_start r); re = int (rw_end r);
               lo_r = (if sel_active ed then max rs lo - rs else re);
               hi_r = (if sel_active ed then min re hi - rs else re)
           in render_row masked (span s r) (if i = crow then Some (ed_cursor ed - rs) else None) lo_r hi_r)
             (zip [0 ..< length rows] rows)))"

section \<open>Text as a list of glyphs\<close>

text \<open>A lead byte with as many continuation bytes as it announces.\<close>

fun glyph :: "string \<Rightarrow> bool" where
  "glyph [] = False"
| "glyph (c # t) = (\<not> is_cont c \<and> list_all is_cont t \<and> Suc (length t) = lead_len c)"

definition glyph_width :: "string \<Rightarrow> nat" where
  "glyph_width g = lead_width (hd g)"

definition glyphs_width :: "string list \<Rightarrow> nat" where
  "glyphs_width gs = sum_list (map glyph_width gs)"

lemma glyph_nonempty: "glyph g \<Longrightarrow> g \<noteq> []"
  by (cases g) auto

lemma glyph_pos: "glyph g \<Longrightarrow> 0 < int n + int (length g)" "glyph g \<Longrightarrow> 0 < int (length g) + int n"
  using glyph_nonempty[of g] by (cases g; simp)+

lemma glyph_at:
  assumes "glyph g"
  shows "pe_glyph_len (pre @ g @ post) (length pre) = length g"
    and "pe_glyph_width (pre @ g @ post) (length pre) = glyph_width g"
    and "length pre < length (pre @ g @ post)"
    and "(pre @ g @ post) ! length pre = hd g"
  using assms by (cases g; simp add: pe_glyph_len_def pe_glyph_width_def glyph_width_def nth_append)+

lemma glyph_back_from_tail:
  "list_all is_cont t \<Longrightarrow> \<not> is_cont c \<Longrightarrow>
   glyph_back_from (pre @ c # t @ post) (length pre + length t) = length pre"
proof (induction t arbitrary: post rule: rev_induct)
  case Nil
  then show ?case by (cases "length pre") (simp_all add: peek_def nth_append)
next
  case (snoc x t)
  have "is_cont (peek (pre @ c # (t @ [x]) @ post) (Suc (length pre + length t)))"
    using snoc.prems(1) by (simp add: peek_def nth_append)
  moreover have "glyph_back_from (pre @ c # t @ (x # post)) (length pre + length t) = length pre"
    using snoc by simp
  ultimately show ?case by simp
qed

lemma glyph_back_glyph:
  assumes "glyph g"
  shows "pe_glyph_back (pre @ g @ post) (length pre + length g) = length pre"
proof -
  obtain c t where g: "g = c # t" "\<not> is_cont c" "list_all is_cont t" using assms by (cases g) auto
  show ?thesis using glyph_back_from_tail[OF g(3,2), of pre post] by (simp add: g(1) pe_glyph_back_def)
qed

lemma string_width_glyphs:
  "list_all glyph gs \<Longrightarrow> string_width_from (pre @ concat gs) (length pre) = glyphs_width gs"
proof (induction gs arbitrary: pre)
  case Nil
  then show ?case by (subst string_width_from.simps) (simp add: glyphs_width_def)
next
  case (Cons g gs)
  then have g: "glyph g" by simp
  have "string_width_from ((pre @ g) @ concat gs) (length (pre @ g)) = glyphs_width gs"
    using Cons by (intro Cons.IH) simp
  then show ?case
    using glyph_at[OF g, of pre "concat gs"]
    by (subst string_width_from.simps) (simp add: glyphs_width_def)
qed

lemma pe_string_width_glyphs: "list_all glyph gs \<Longrightarrow> pe_string_width (concat gs) = glyphs_width gs"
  using string_width_glyphs[of gs "[]"] by (simp add: pe_string_width_def)

lemma pe_mask_glyphs: "list_all glyph gs \<Longrightarrow> mask_from (pre @ concat gs) (length pre) = concat (map (\<lambda>_. bullet) gs)"
proof (induction gs arbitrary: pre)
  case Nil
  then show ?case by (subst mask_from.simps) simp
next
  case (Cons g gs)
  then have g: "glyph g" by simp
  have "mask_from ((pre @ g) @ concat gs) (length (pre @ g)) = concat (map (\<lambda>_. bullet) gs)"
    using Cons by (intro Cons.IH) simp
  then show ?case
    using glyph_at[OF g, of pre "concat gs"] by (subst mask_from.simps) simp
qed

text \<open>Valid UTF-8 is a list of glyphs.\<close>

lemma and_high: "(n::nat) < 256 \<Longrightarrow> n AND 0xE0 = 32 * (n div 32)" "n < 256 \<Longrightarrow> n AND 0xF0 = 16 * (n div 16)"
  "n < 256 \<Longrightarrow> n AND 0xF8 = 8 * (n div 8)"
proof -
  have m: "n AND (push_bit k (mask j)) = push_bit k (take_bit j (drop_bit k n))" for n k j :: nat
    by (rule bit_eqI) (auto simp: bit_simps)
  have c: "(0xE0::nat) = push_bit 5 (mask 3)" "(0xF0::nat) = push_bit 4 (mask 4)" "(0xF8::nat) = push_bit 3 (mask 5)"
    by (simp_all add: mask_eq_exp_minus_1 push_bit_eq_mult)
  show "n < 256 \<Longrightarrow> n AND 0xE0 = 32 * (n div 32)" "n < 256 \<Longrightarrow> n AND 0xF0 = 16 * (n div 16)"
    "n < 256 \<Longrightarrow> n AND 0xF8 = 8 * (n div 8)"
    unfolding c unfolding m unfolding push_bit_eq_mult drop_bit_eq_div take_bit_eq_mod
    by (simp_all add: less_mult_imp_div_less)
qed

lemma lead_len_ranges:
  "byte c < 0x80 \<Longrightarrow> lead_len c = 1"
  "0xC0 \<le> byte c \<Longrightarrow> byte c \<le> 0xDF \<Longrightarrow> lead_len c = 2"
  "0xE0 \<le> byte c \<Longrightarrow> byte c \<le> 0xEF \<Longrightarrow> lead_len c = 3"
  "0xF0 \<le> byte c \<Longrightarrow> byte c \<le> 0xF7 \<Longrightarrow> lead_len c = 4"
  unfolding lead_len_def and_high[OF byte_less] by (auto simp: le_div_geq)

lemma utf8_encode_glyph:
  assumes "scalar_value cp"
  shows "glyph (utf8_encode cp)"
proof -
  have cp: "cp < 0x110000" using assms by (simp add: scalar_value_def)
  consider "cp < 0x80" | "0x80 \<le> cp" "cp < 0x800" | "0x800 \<le> cp" "cp < 0x10000" | "0x10000 \<le> cp" by linarith
  then show ?thesis
  proof cases
    case 1
    then have "byte (char_of cp) = cp" by simp
    with 1 show ?thesis by (simp add: utf8_encode_def is_cont_range lead_len_ranges)
  next
    case 2
    then have b: "byte (char_of (0xC0 + cp div 64)) = 0xC0 + cp div 64" and d: "cp div 64 < 32"
      by (simp_all add: less_mult_imp_div_less)
    from 2 b d show ?thesis
      by (simp add: utf8_encode_def is_cont_char_of) (simp add: is_cont_range lead_len_ranges)
  next
    case 3
    then have d: "cp div 4096 < 16" by (simp add: less_mult_imp_div_less)
    then have b: "byte (char_of (0xE0 + cp div 4096)) = 0xE0 + cp div 4096" by simp
    from 3 b d show ?thesis
      by (simp add: utf8_encode_def is_cont_char_of) (simp add: is_cont_range lead_len_ranges)
  next
    case 4
    then have d: "cp div 262144 < 5" using cp by (simp add: less_mult_imp_div_less)
    then have b: "byte (char_of (0xF0 + cp div 262144)) = 0xF0 + cp div 262144" by simp
    from 4 b d show ?thesis
      by (simp add: utf8_encode_def is_cont_char_of) (simp add: is_cont_range lead_len_ranges)
  qed
qed

lemma utf8_glyphs: "utf8_valid s \<Longrightarrow> \<exists>gs. list_all glyph gs \<and> concat gs = s"
proof -
  assume "utf8_valid s"
  then obtain cps where c: "list_all scalar_value cps" "s = concat (map utf8_encode cps)"
    unfolding utf8_valid_iff_text utf8_text_def by blast
  then have "list_all glyph (map utf8_encode cps)" by (auto simp: list_all_iff utf8_encode_glyph)
  with c(2) show ?thesis by blast
qed

section \<open>The editor's abstraction\<close>

text \<open>
  The glyphs before and behind the cursor, and whether everything before the cursor was marked by
  select-all: the selection anchor is the start of the text or absent.
\<close>

type_synonym text_view = "string list \<times> string list \<times> bool"

definition shows_view :: "editor \<Rightarrow> text_view \<Rightarrow> bool" where
  "shows_view ed = (\<lambda>(b, a, m). list_all glyph b \<and> list_all glyph a \<and>
     ed_content ed = concat b @ concat a \<and> ed_cursor ed = int (length (concat b)) \<and>
     ed_anchor ed = (if m then 0 else -1))"

definition marked_view :: "text_view \<Rightarrow> bool" where
  "marked_view = (\<lambda>(b, a, m). m \<and> b \<noteq> [])"

definition type_view :: "string list \<Rightarrow> text_view \<Rightarrow> text_view" where
  "type_view gs v = (case v of (b, a, m) \<Rightarrow> if m \<and> b \<noteq> [] then (gs, a, False) else (b @ gs, a, m))"

definition backspace_view :: "text_view \<Rightarrow> text_view" where
  "backspace_view v = (case v of (b, a, m) \<Rightarrow> if m \<and> b \<noteq> [] then ([], a, False) else (butlast b, a, m))"

definition delete_view :: "text_view \<Rightarrow> text_view" where
  "delete_view v = (case v of (b, a, m) \<Rightarrow> if m \<and> b \<noteq> [] then ([], a, False) else (b, tl a, m))"

definition left_view :: "text_view \<Rightarrow> text_view" where
  "left_view v = (case v of (b, a, m) \<Rightarrow> if b = [] then ([], a, False) else (butlast b, last b # a, False))"

definition right_view :: "text_view \<Rightarrow> text_view" where
  "right_view v = (case v of (b, a, m) \<Rightarrow> if a = [] then (b, [], False) else (b @ [hd a], tl a, False))"

definition select_all_view :: "text_view \<Rightarrow> text_view" where
  "select_all_view v = (case v of (b, a, m) \<Rightarrow> (b @ a, [], True))"

lemma concat_nonempty: "list_all glyph gs \<Longrightarrow> concat gs = [] \<longleftrightarrow> gs = []"
  using glyph_nonempty by (cases gs) auto

lemma sel_active_view:
  "shows_view ed v \<Longrightarrow> sel_active ed \<longleftrightarrow> marked_view v"
  using concat_nonempty[of "fst v"]
  by (cases v) (auto simp: shows_view_def sel_active_def marked_view_def)

lemma erase_selection_view:
  assumes "shows_view ed (b, a, m)"
  shows "\<exists>ed'. erase_selection ed = Inr (m \<and> b \<noteq> [], ed') \<and>
    shows_view ed' (if m \<and> b \<noteq> [] then ([], a, False) else (b, a, m))"
proof (cases "m \<and> b \<noteq> []")
  case True
  then have "sel_active ed" using sel_active_view[OF assms] by (simp add: marked_view_def)
  then show ?thesis
    using True assms by (auto simp: erase_selection_def Let_def erase_at_def shows_view_def)
next
  case False
  then have "\<not> sel_active ed" using sel_active_view[OF assms] by (simp add: marked_view_def)
  then show ?thesis using False assms by (auto simp: erase_selection_def)
qed

lemma type_text_view:
  assumes "shows_view ed v" "list_all glyph gs"
  shows "\<exists>ed'. type_text (concat gs) ed = Inr (True, ed') \<and> shows_view ed' (type_view gs v)"
proof -
  obtain b a m where v: "v = (b, a, m)" by (cases v)
  obtain ed1 where e: "erase_selection ed = Inr (m \<and> b \<noteq> [], ed1)"
    "shows_view ed1 (if m \<and> b \<noteq> [] then ([], a, False) else (b, a, m))"
    using erase_selection_view assms(1) v by blast
  then show ?thesis
    using assms(2) v
    by (auto simp: type_text_def insert_at_def shows_view_def type_view_def split: if_splits)
qed

lemma backspace_refines:
  assumes "shows_view ed v"
  shows "\<exists>ed'. handle_backspace ed = Inr (True, ed') \<and> shows_view ed' (backspace_view v)"
proof -
  obtain b a m where v: "v = (b, a, m)" by (cases v)
  obtain ed1 where e: "erase_selection ed = Inr (m \<and> b \<noteq> [], ed1)"
    "shows_view ed1 (if m \<and> b \<noteq> [] then ([], a, False) else (b, a, m))"
    using erase_selection_view assms v by blast
  consider "m \<and> b \<noteq> []" | "b = []" | b' g where "\<not> m" "b = b' @ [g]"
    by (metis append_butlast_last_id)
  then show ?thesis
  proof cases
    case 3
    then have r: "shows_view ed1 (b, a, m)" using e(2) by simp
    then have g: "glyph g" and c: "ed_content ed1 = concat b' @ g @ concat a"
      "ed_cursor ed1 = int (length (concat b') + length g)"
      using 3 by (auto simp: shows_view_def)
    note pos = glyph_pos(1)[OF g, of "length (concat b')"]
    have "pe_glyph_back (ed_content ed1) (nat (ed_cursor ed1)) = length (concat b')"
      using glyph_back_glyph[OF g, of "concat b'" "concat a"] c by (simp add: nat_int_add)
    then show ?thesis
      using 3 e(1) r c pos v
      by (auto simp: handle_backspace_def Let_def erase_at_def shows_view_def backspace_view_def nat_int_add)
  qed (use e v in \<open>auto simp: handle_backspace_def backspace_view_def shows_view_def\<close>)
qed

lemma delete_refines:
  assumes "shows_view ed v"
  shows "\<exists>r ed'. handle_delete ed = Inr (r, ed') \<and> shows_view ed' (delete_view v)"
proof -
  obtain b a m where v: "v = (b, a, m)" by (cases v)
  obtain ed1 where e: "erase_selection ed = Inr (m \<and> b \<noteq> [], ed1)"
    "shows_view ed1 (if m \<and> b \<noteq> [] then ([], a, False) else (b, a, m))"
    using erase_selection_view assms v by blast
  consider "m \<and> b \<noteq> []" | "\<not> (m \<and> b \<noteq> [])" "a = []" | g a' where "\<not> (m \<and> b \<noteq> [])" "a = g # a'"
    by (cases a) auto
  then show ?thesis
  proof cases
    case 3
    then have r: "shows_view ed1 (b, g # a', m)" using e(2)[unfolded if_not_P[OF 3(1)]] by simp
    then have g: "glyph g" and c: "ed_content ed1 = concat b @ g @ concat a'"
      "ed_cursor ed1 = int (length (concat b))"
      by (auto simp: shows_view_def)
    note len = glyph_at(1,3)[OF g, of "concat b" "concat a'"] glyph_pos(2)[OF g, of "length (concat a')"]
    show ?thesis
      using 3 e(1) r c len glyph_nonempty[OF g] v
      by (auto simp: handle_delete_def erase_at_def shows_view_def delete_view_def)
  qed (use e v in \<open>auto simp: handle_delete_def delete_view_def shows_view_def\<close>)
qed

lemma clear_clamp_view:
  "shows_view ed (b, a, m) \<Longrightarrow> shows_view (clamp_cursor (clear_selection ed)) (b, a, False)"
  by (auto simp: shows_view_def clear_selection_def clamp_cursor_def Let_def)

lemma horizontal_refines:
  assumes "shows_view ed v"
  shows "shows_view (snd (handle_arrow_horizontal (-1) ed)) (left_view v)"
    and "shows_view (snd (handle_arrow_horizontal 1 ed)) (right_view v)"
proof -
  obtain b a m where v: "v = (b, a, m)" by (cases v)
  let ?ed = "clamp_cursor (clear_selection ed)"
  have c: "shows_view ?ed (b, a, False)" using clear_clamp_view assms v by blast
  show "shows_view (snd (handle_arrow_horizontal (-1) ed)) (left_view v)"
  proof (cases b rule: rev_cases)
    case Nil
    then show ?thesis using c v by (auto simp: handle_arrow_horizontal_def left_view_def shows_view_def Let_def)
  next
    case (snoc b' g)
    then have g: "glyph g" and e: "ed_content ?ed = concat b' @ g @ concat a"
      "ed_cursor ?ed = int (length (concat b') + length g)"
      using c by (auto simp: shows_view_def)
    note pos = glyph_pos(1)[OF g, of "length (concat b')"]
    have "pe_glyph_back (ed_content ?ed) (nat (ed_cursor ?ed)) = length (concat b')"
      using glyph_back_glyph[OF g, of "concat b'" "concat a"] e by (simp add: nat_int_add)
    then show ?thesis
      using snoc c e pos v
      by (auto simp: handle_arrow_horizontal_def left_view_def shows_view_def Let_def)
  qed
  show "shows_view (snd (handle_arrow_horizontal 1 ed)) (right_view v)"
  proof (cases a)
    case Nil
    then show ?thesis using c v by (auto simp: handle_arrow_horizontal_def right_view_def shows_view_def Let_def)
  next
    case (Cons g a')
    then have g: "glyph g" using c by (simp add: shows_view_def)
    note len = glyph_at(1,3)[OF g, of "concat b" "concat a'"] glyph_pos(2)[OF g, of "length (concat a')"]
    show ?thesis
      using Cons c len glyph_nonempty[OF g] v
      by (auto simp: handle_arrow_horizontal_def right_view_def shows_view_def Let_def)
  qed
qed

section \<open>The wrap\<close>

text \<open>The wrap by glyphs: the row under construction starts at byte \<open>p\<close> and holds \<open>cur\<close>.\<close>

fun wrap_glyphs :: "nat \<Rightarrow> nat \<Rightarrow> string list \<Rightarrow> string list \<Rightarrow> row list" where
  "wrap_glyphs limit p cur [] =
     [\<lparr>rw_start = p, rw_end = p + length (concat cur), rw_width = glyphs_width cur\<rparr>]"
| "wrap_glyphs limit p cur (g # gs) =
     (let r = \<lparr>rw_start = p, rw_end = p + length (concat cur), rw_width = glyphs_width cur\<rparr>;
          q = p + length (concat cur) in
      if g = NL then r # wrap_glyphs limit (Suc q) [] gs
      else if 0 < glyphs_width cur \<and> limit < glyphs_width cur + glyph_width g
      then r # wrap_glyphs limit q [g] gs
      else wrap_glyphs limit p (cur @ [g]) gs)"

lemma glyph_newline: "glyph g \<Longrightarrow> hd g = nl \<longleftrightarrow> g = NL"
  by (cases g) (auto simp: lead_len_def)

lemma glyphs_width_append [simp]: "glyphs_width (xs @ ys) = glyphs_width xs + glyphs_width ys"
  by (simp add: glyphs_width_def)

lemma glyphs_width_simps [simp]: "glyphs_width [] = 0" "glyphs_width (g # gs) = glyph_width g + glyphs_width gs"
  by (simp_all add: glyphs_width_def)

lemma wrap_from_glyphs:
  "list_all glyph gs \<Longrightarrow>
   wrap_from limit (pre @ concat cur @ concat gs) (length pre) (length pre + length (concat cur)) (glyphs_width cur) =
   wrap_glyphs limit (length pre) cur gs"
proof (induction gs arbitrary: pre "cur")
  case Nil
  show ?case by (subst wrap_from.simps) simp
next
  case (Cons g gs)
  then have g: "glyph g" and gs: "list_all glyph gs" by simp_all
  let ?s = "pre @ concat cur @ concat (g # gs)"
  let ?i = "length pre + length (concat cur)"
  note at = glyph_at[OF g, of "pre @ concat cur" "concat gs"]
  have i: "?i < length ?s" "?s ! ?i = hd g" "pe_glyph_len ?s ?i = length g" "pe_glyph_width ?s ?i = glyph_width g"
    using at by simp_all
  show ?case
  proof (cases "g = NL")
    case True
    have "wrap_from limit ((pre @ concat cur @ NL) @ concat [] @ concat gs) (length (pre @ concat cur @ NL))
        (length (pre @ concat cur @ NL) + length (concat ([] :: string list))) (glyphs_width []) =
        wrap_glyphs limit (length (pre @ concat cur @ NL)) [] gs"
      by (rule Cons.IH[OF gs])
    then show ?thesis using True i(1,2) by (subst wrap_from.simps) (simp add: Let_def)
  next
    case nn: False
    then have hd: "?s ! ?i \<noteq> nl" using i(2) glyph_newline[OF g] by simp
    show ?thesis
    proof (cases "0 < glyphs_width cur \<and> limit < glyphs_width cur + glyph_width g")
      case True
      have "wrap_from limit ((pre @ concat cur) @ concat [g] @ concat gs) (length (pre @ concat cur))
          (length (pre @ concat cur) + length (concat [g])) (glyphs_width [g]) =
          wrap_glyphs limit (length (pre @ concat cur)) [g] gs"
        by (rule Cons.IH[OF gs])
      then show ?thesis using True i hd nn by (subst wrap_from.simps) (simp add: Let_def)
    next
      case False
      have "wrap_from limit (pre @ concat (cur @ [g]) @ concat gs) (length pre)
          (length pre + length (concat (cur @ [g]))) (glyphs_width (cur @ [g])) =
          wrap_glyphs limit (length pre) (cur @ [g]) gs"
        by (rule Cons.IH[OF gs])
      then show ?thesis using False i hd nn by (subst wrap_from.simps) (auto simp add: Let_def add.assoc)
    qed
  qed
qed

text \<open>The rows of a text: each starts where its predecessor ended, or behind the newline there, and
  the last ends with the text.\<close>

fun rows_cover :: "string \<Rightarrow> nat \<Rightarrow> row list \<Rightarrow> bool" where
  "rows_cover s p [] = False"
| "rows_cover s p [r] = (rw_start r = p \<and> p \<le> rw_end r \<and> rw_end r = length s)"
| "rows_cover s p (r # q # rs) = (rw_start r = p \<and> p \<le> rw_end r \<and>
     (rw_end r < length s \<and> s ! rw_end r = nl \<and> rows_cover s (Suc (rw_end r)) (q # rs) \<or>
      rows_cover s (rw_end r) (q # rs)))"

lemma rows_cover_Cons:
  "rows_cover s p (r # rs) \<longleftrightarrow> rw_start r = p \<and> p \<le> rw_end r \<and>
     (if rs = [] then rw_end r = length s
      else rw_end r < length s \<and> s ! rw_end r = nl \<and> rows_cover s (Suc (rw_end r)) rs \<or>
        rows_cover s (rw_end r) rs)"
  by (cases rs) auto

lemma wrap_glyphs_ne: "wrap_glyphs limit p cur gs \<noteq> []"
  by (induction limit p "cur" gs rule: wrap_glyphs.induct) (auto simp: Let_def)

lemma wrap_glyphs_cover:
  "list_all glyph gs \<Longrightarrow>
   rows_cover (pre @ concat cur @ concat gs) (length pre) (wrap_glyphs limit (length pre) cur gs)"
proof (induction gs arbitrary: pre "cur")
  case (Cons g gs)
  then have g: "glyph g" and gs: "list_all glyph gs" by simp_all
  have at: "(pre @ concat cur @ concat (g # gs)) ! (length pre + length (concat cur)) = hd g"
    using glyph_at(4)[OF g, of "pre @ concat cur" "concat gs"] by simp
  consider "g = NL" | "g \<noteq> NL" "0 < glyphs_width cur \<and> limit < glyphs_width cur + glyph_width g"
    | "g \<noteq> NL" "\<not> (0 < glyphs_width cur \<and> limit < glyphs_width cur + glyph_width g)" by blast
  then show ?case
  proof cases
    case 1
    have "rows_cover ((pre @ concat cur @ NL) @ concat [] @ concat gs) (length (pre @ concat cur @ NL))
        (wrap_glyphs limit (length (pre @ concat cur @ NL)) [] gs)" by (rule Cons.IH[OF gs])
    with 1 at show ?thesis by (simp add: Let_def rows_cover_Cons wrap_glyphs_ne)
  next
    case 2
    have "rows_cover ((pre @ concat cur) @ concat [g] @ concat gs) (length (pre @ concat cur))
        (wrap_glyphs limit (length (pre @ concat cur)) [g] gs)" by (rule Cons.IH[OF gs])
    with 2 show ?thesis by (simp add: Let_def rows_cover_Cons wrap_glyphs_ne)
  next
    case 3
    have "rows_cover (pre @ concat (cur @ [g]) @ concat gs) (length pre)
        (wrap_glyphs limit (length pre) (cur @ [g]) gs)" by (rule Cons.IH[OF gs])
    with 3 show ?thesis by (auto simp add: Let_def)
  qed
qed simp

text \<open>What one row holds: glyphs without a newline, their width, and no more than the limit unless it is
  a single glyph.\<close>

definition row_holds :: "nat \<Rightarrow> string \<Rightarrow> row \<Rightarrow> bool" where
  "row_holds limit s r \<longleftrightarrow> (\<exists>bs gs as. list_all glyph bs \<and> list_all glyph gs \<and> list_all glyph as \<and>
     s = concat bs @ concat gs @ concat as \<and> rw_start r = length (concat bs) \<and>
     rw_end r = length (concat bs) + length (concat gs) \<and> NL \<notin> set gs \<and>
     rw_width r = glyphs_width gs \<and> (rw_width r \<le> limit \<or> length gs = 1))"

lemma wrap_glyphs_hold:
  assumes "list_all glyph bs" "list_all glyph cur" "NL \<notin> set cur"
    "glyphs_width cur \<le> limit \<or> length cur = 1" "list_all glyph gs"
  shows "\<forall>r \<in> set (wrap_glyphs limit (length (concat bs)) cur gs).
    row_holds limit (concat bs @ concat cur @ concat gs) r"
  using assms
proof (induction gs arbitrary: bs "cur")
  case Nil
  have "row_holds limit (concat bs @ concat cur @ concat []) \<lparr>rw_start = length (concat bs),
      rw_end = length (concat bs) + length (concat cur), rw_width = glyphs_width cur\<rparr>"
    unfolding row_holds_def using Nil by (intro exI[of _ bs] exI[of _ "cur"] exI[of _ "[]"]) simp
  then show ?case by simp
next
  case (Cons g gs)
  then have g: "glyph g" and gs: "list_all glyph gs" by simp_all
  let ?s = "concat bs @ concat cur @ concat (g # gs)"
  have r: "row_holds limit ?s \<lparr>rw_start = length (concat bs),
      rw_end = length (concat bs) + length (concat cur), rw_width = glyphs_width cur\<rparr>"
    unfolding row_holds_def using Cons.prems
    by (intro exI[of _ bs] exI[of _ "cur"] exI[of _ "g # gs"]) simp
  consider "g = NL" | "g \<noteq> NL" "0 < glyphs_width cur \<and> limit < glyphs_width cur + glyph_width g"
    | "g \<noteq> NL" "\<not> (0 < glyphs_width cur \<and> limit < glyphs_width cur + glyph_width g)" by blast
  then show ?case
  proof cases
    case 1
    have "\<forall>r \<in> set (wrap_glyphs limit (length (concat (bs @ cur @ [NL]))) [] gs).
        row_holds limit (concat (bs @ cur @ [NL]) @ concat [] @ concat gs) r"
      using Cons.prems 1 by (intro Cons.IH) simp_all
    with 1 r show ?thesis by (simp add: Let_def)
  next
    case 2
    have "\<forall>r \<in> set (wrap_glyphs limit (length (concat (bs @ cur))) [g] gs).
        row_holds limit (concat (bs @ cur) @ concat [g] @ concat gs) r"
      using Cons.prems 2 by (intro Cons.IH) simp_all
    with 2 r show ?thesis by (simp add: Let_def)
  next
    case 3
    have w: "glyph_width x \<noteq> 0" for x by (simp add: glyph_width_def lead_width_def)
    have "glyphs_width cur = 0 \<Longrightarrow> cur = []" by (cases "cur") (auto simp: w)
    then have "glyphs_width (cur @ [g]) \<le> limit \<or> length (cur @ [g]) = 1" using 3(2) by auto
    then have "\<forall>r \<in> set (wrap_glyphs limit (length (concat bs)) (cur @ [g]) gs).
        row_holds limit (concat bs @ concat (cur @ [g]) @ concat gs) r"
      using Cons.prems 3 by (intro Cons.IH) simp_all
    with 3 show ?thesis by (auto simp add: Let_def)
  qed
qed

lemma wrap_ok:
  assumes "ed_content ed = concat gs" "list_all glyph gs"
  shows "rows_cover (ed_content ed) 0 (wrap ed)"
    and "\<And>r. r \<in> set (wrap ed) \<Longrightarrow> row_holds (wrap_limit ed) (ed_content ed) r"
proof -
  have w: "wrap ed = wrap_glyphs (wrap_limit ed) 0 [] gs" if "ed_content ed \<noteq> []"
  proof -
    have "wrap ed = wrap_from (wrap_limit ed) (ed_content ed) 0 0 0" using that by (simp add: wrap_def)
    then show ?thesis using wrap_from_glyphs[OF assms(2), of "wrap_limit ed" "[]" "[]"] assms(1) by simp
  qed
  show "rows_cover (ed_content ed) 0 (wrap ed)"
    using w wrap_glyphs_cover[OF assms(2), of "[]" "[]"] assms(1)
    by (cases "ed_content ed = []") (simp_all add: wrap_def)
  show "row_holds (wrap_limit ed) (ed_content ed) r" if r: "r \<in> set (wrap ed)" for r
  proof (cases "ed_content ed = []")
    case True
    with r have "r = \<lparr>rw_start = 0, rw_end = 0, rw_width = 0\<rparr>" by (simp add: wrap_def)
    with True show ?thesis unfolding row_holds_def by (intro exI[of _ "[]"]) simp
  next
    case False
    with r w wrap_glyphs_hold[of "[]" "[]" "wrap_limit ed" gs] assms show ?thesis by simp
  qed
qed

lemma find_row_cover:
  "rows_cover s p rows \<Longrightarrow> int p \<le> cur \<Longrightarrow> cur \<le> int (length s) \<Longrightarrow>
   \<exists>i < length rows. find_row k rows cur = Some (k + i) \<and>
     int (rw_start (rows ! i)) \<le> cur \<and> cur \<le> int (rw_end (rows ! i))"
proof (induction rows arbitrary: p k)
  case (Cons r rows)
  show ?case
  proof (cases "int (rw_start r) \<le> cur \<and> cur \<le> int (rw_end r)")
    case True
    then show ?thesis by (intro exI[of _ 0]) simp
  next
    case False
    then have beyond: "int (rw_end r) < cur" and ne: "rows \<noteq> []"
      using Cons.prems by (auto simp: rows_cover_Cons split: if_splits)
    then obtain q where "rows_cover s q rows" "q = rw_end r \<or> q = Suc (rw_end r)"
      using Cons.prems(1) by (auto simp: rows_cover_Cons)
    moreover have "int q \<le> cur" using beyond \<open>q = rw_end r \<or> q = Suc (rw_end r)\<close> by auto
    ultimately obtain i where "i < length rows" "find_row (Suc k) rows cur = Some (Suc k + i)"
      "int (rw_start (rows ! i)) \<le> cur" "cur \<le> int (rw_end (rows ! i))"
      using Cons.IH[of q "Suc k"] Cons.prems(3) by blast
    with False show ?thesis by (intro exI[of _ "Suc i"]) simp
  qed
qed simp

lemma cursor_position_view:
  assumes "shows_view ed (b, a, m)"
  shows "\<exists>i < length (wrap ed). \<exists>col. cursor_position ed (wrap ed) = (True, i, col) \<and>
    int (rw_start (wrap ed ! i)) \<le> ed_cursor ed \<and> ed_cursor ed \<le> int (rw_end (wrap ed ! i))"
proof -
  have c: "ed_content ed = concat (b @ a)" "list_all glyph (b @ a)" using assms by (auto simp: shows_view_def)
  have "int 0 \<le> ed_cursor ed" "ed_cursor ed \<le> int (length (ed_content ed))"
    using assms by (auto simp: shows_view_def)
  from find_row_cover[OF wrap_ok(1)[OF c] this, of 0] show ?thesis
    by (auto simp: cursor_position_def)
qed

lemma column_pos_glyphs:
  "list_all glyph gs \<Longrightarrow> \<exists>k \<le> length gs.
   column_pos (pre @ concat gs @ post) (length pre + length (concat gs)) (length pre) w col =
     length pre + length (concat (take k gs))"
proof (induction gs arbitrary: pre w)
  case Nil
  show ?case by (subst column_pos.simps) simp
next
  case (Cons g gs)
  then have g: "glyph g" by simp
  let ?s = "pre @ concat (g # gs) @ post"
  have at: "pe_glyph_len ?s (length pre) = length g" "pe_glyph_width ?s (length pre) = glyph_width g"
    using glyph_at(1,2)[OF g, of pre "concat gs @ post"] by simp_all
  show ?case
  proof (cases "col < w + int (glyph_width g)")
    case True
    then show ?thesis using at by (intro exI[of _ 0]) (subst column_pos.simps, simp)
  next
    case False
    from Cons.IH[of "pre @ g" "w + int (glyph_width g)"] Cons.prems obtain k where k: "k \<le> length gs"
      "column_pos ((pre @ g) @ concat gs @ post) (length (pre @ g) + length (concat gs)) (length (pre @ g))
         (w + int (glyph_width g)) col = length (pre @ g) + length (concat (take k gs))" by auto
    then show ?thesis using False at glyph_nonempty[OF g]
      by (intro exI[of _ "Suc k"]) (subst column_pos.simps, simp add: add.assoc)
  qed
qed

text \<open>A text has one division into glyphs.\<close>

lemma glyphs_unique:
  "list_all glyph xs \<Longrightarrow> list_all glyph ys \<Longrightarrow> concat xs = concat ys \<Longrightarrow> xs = ys"
proof (induction xs arbitrary: ys)
  case Nil
  then show ?case using concat_nonempty[of ys] by simp
next
  case (Cons g xs)
  then obtain h zs where ys: "ys = h # zs" using concat_nonempty[of "g # xs"] by (cases ys) auto
  have g: "glyph g" "glyph h" using Cons.prems ys by simp_all
  then have "hd g = hd (concat (g # xs))" "hd h = hd (concat (h # zs))"
    using glyph_nonempty by (simp_all add: hd_append)
  then have "hd g = hd h" using Cons.prems(3) ys by simp
  then have "length g = length h" using g by (cases g; cases h) auto
  then have "g = h" "concat xs = concat zs" using Cons.prems(3) ys by simp_all
  with Cons.IH Cons.prems ys show ?case by simp
qed

text \<open>A cursor put into a row is between two glyphs.\<close>

lemma cursor_in_row:
  assumes "shows_view ed (b, a, False)" "r \<in> set (wrap ed)"
    "n = column_pos (ed_content ed) (rw_end r) (rw_start r) w col \<or> n = rw_start r \<or> n = rw_end r"
  shows "\<exists>b' a'. b' @ a' = b @ a \<and> shows_view (ed\<lparr>ed_cursor := int n\<rparr>) (b', a', False)"
proof -
  have c: "ed_content ed = concat (b @ a)" "list_all glyph (b @ a)" using assms(1) by (auto simp: shows_view_def)
  from wrap_ok(2)[OF c assms(2)] obtain bs gs as where h:
    "list_all glyph bs" "list_all glyph gs" "list_all glyph as"
    "ed_content ed = concat bs @ concat gs @ concat as" "rw_start r = length (concat bs)"
    "rw_end r = length (concat bs) + length (concat gs)" by (auto simp: row_holds_def)
  have same: "bs @ gs @ as = b @ a"
    using h(1-4) c by (intro glyphs_unique) auto
  have "\<exists>k \<le> length gs. n = length (concat (bs @ take k gs))"
    using assms(3)
  proof (elim disjE)
    assume "n = column_pos (ed_content ed) (rw_end r) (rw_start r) w col"
    then show ?thesis using column_pos_glyphs[OF h(2), of "concat bs" "concat as" w col] h(4-6) by auto
  next
    assume "n = rw_start r"
    then show ?thesis using h(5) by (intro exI[of _ 0]) simp
  next
    assume "n = rw_end r"
    then show ?thesis using h(6) by (intro exI[of _ "length gs"]) simp
  qed
  then obtain k where k: "n = length (concat (bs @ take k gs))" by blast
  have "list_all glyph (take k gs)" "list_all glyph (drop k gs)"
    using h(2) by (auto simp: list_all_iff dest: in_set_takeD in_set_dropD)
  moreover have "concat gs = concat (take k gs) @ concat (drop k gs)"
    by (metis append_take_drop_id concat_append)
  ultimately have "shows_view (ed\<lparr>ed_cursor := int n\<rparr>) (bs @ take k gs, drop k gs @ as, False)"
    using h(1,3,4) k assms(1) by (simp add: shows_view_def)
  moreover have "(bs @ take k gs) @ (drop k gs @ as) = b @ a" using same by (metis append_assoc append_take_drop_id)
  ultimately show ?thesis by blast
qed

section \<open>Every event\<close>

definition editor_ok :: "editor \<Rightarrow> bool" where
  "editor_ok ed \<longleftrightarrow> (\<exists>v. shows_view ed v)"

text \<open>What the owner puts into the editor: text with the cursor between two glyphs.\<close>

definition shared_ok :: "shared \<Rightarrow> bool" where
  "shared_ok = (\<lambda>(s, c). \<exists>b a. list_all glyph b \<and> list_all glyph a \<and> s = concat b @ concat a \<and>
     c = int (length (concat b)))"

definition callbacks_ok :: "callbacks \<Rightarrow> bool" where
  "callbacks_ok cb \<longleftrightarrow>
     (\<forall>x. shared_ok x \<longrightarrow> shared_ok (cb_submit cb x) \<and>
       (\<forall>f. cb_prev cb = Some f \<or> cb_next cb = Some f \<longrightarrow> shared_ok (f x)))"

lemma call_back_ok:
  assumes "editor_ok ed" "\<And>x. shared_ok x \<Longrightarrow> shared_ok (f x)"
  shows "editor_ok (call_back f ed)"
proof -
  obtain b a m where v: "shows_view ed (b, a, m)" using assms(1) by (auto simp: editor_ok_def)
  then have "shared_ok (f (ed_content ed, ed_cursor ed))"
    by (intro assms(2)) (auto simp: shared_ok_def shows_view_def)
  then obtain s c b' a' where r: "f (ed_content ed, ed_cursor ed) = (s, c)" "list_all glyph b'" "list_all glyph a'"
    "s = concat b' @ concat a'" "c = int (length (concat b'))" by (auto simp: shared_ok_def split: prod.splits)
  then have "shows_view (call_back f ed) (b', a', m)" using v by (simp add: call_back_def shows_view_def)
  then show ?thesis by (auto simp: editor_ok_def)
qed

lemma call_back_if_ok:
  "editor_ok ed \<Longrightarrow> (\<And>g x. f = Some g \<Longrightarrow> shared_ok x \<Longrightarrow> shared_ok (g x)) \<Longrightarrow> editor_ok (call_back_if f ed)"
  using call_back_ok by (cases f) (auto simp: call_back_if_def)

lemma vertical_ok:
  assumes "editor_ok ed" "callbacks_ok cb"
  shows "editor_ok (snd (handle_vertical cb dir ed))"
proof -
  let ?ed = "clamp_cursor (clear_selection ed)"
  obtain b a m where "shows_view ed (b, a, m)" using assms(1) by (auto simp: editor_ok_def)
  then have v: "shows_view ?ed (b, a, False)" by (rule clear_clamp_view)
  then have ok: "editor_ok ?ed" by (auto simp: editor_ok_def)
  obtain i col where p: "cursor_position ?ed (wrap ?ed) = (True, i, col)"
    using cursor_position_view[OF v] by blast
  have at: "editor_ok (?ed\<lparr>ed_cursor := int (column_pos (ed_content ?ed) (rw_end (wrap ?ed ! n)) (rw_start (wrap ?ed ! n)) w c)\<rparr>)"
    if "n < length (wrap ?ed)" for n w c
    using cursor_in_row[OF v nth_mem[OF that] disjI1[OF refl]] unfolding editor_ok_def by blast
  have cbs: "editor_ok (call_back_if (cb_prev cb) ?ed)" "editor_ok (call_back_if (cb_next cb) ?ed)"
    using assms(2) by (auto intro!: call_back_if_ok[OF ok] simp: callbacks_ok_def)
  show ?thesis
    using p ok cbs at[of "nat (int i + dir)" 0 "int col"] by (simp add: handle_vertical_def Let_def)
qed

lemma home_end_ok:
  assumes "editor_ok ed"
  shows "editor_ok (handle_home_end home ed)"
proof -
  let ?ed = "clear_selection ed"
  obtain b a m where "shows_view ed (b, a, m)" using assms(1) by (auto simp: editor_ok_def)
  then have v: "shows_view ?ed (b, a, False)" by (simp add: shows_view_def clear_selection_def)
  obtain i col where p: "i < length (wrap ?ed)" "cursor_position ?ed (wrap ?ed) = (True, i, col)"
    using cursor_position_view[OF v] by blast
  let ?n = "if home then rw_start (wrap ?ed ! i) else rw_end (wrap ?ed ! i)"
  have "?n = column_pos (ed_content ?ed) (rw_end (wrap ?ed ! i)) (rw_start (wrap ?ed ! i)) 0 0 \<or>
      ?n = rw_start (wrap ?ed ! i) \<or> ?n = rw_end (wrap ?ed ! i)" by simp
  from cursor_in_row[OF v nth_mem[OF p(1)] this] have "editor_ok (?ed\<lparr>ed_cursor := int ?n\<rparr>)"
    unfolding editor_ok_def by blast
  then show ?thesis using p by (cases home) (simp_all add: handle_home_end_def Let_def cursor_row_def)
qed

lemma mouse_ok:
  assumes "editor_ok ed"
  shows "editor_ok (snd (handle_mouse m ed))"
proof -
  let ?ed = "clear_selection ed"
  obtain b a m' where "shows_view ed (b, a, m')" using assms(1) by (auto simp: editor_ok_def)
  then have v: "shows_view ?ed (b, a, False)" by (simp add: shows_view_def clear_selection_def)
  then have ok: "editor_ok ?ed" by (auto simp: editor_ok_def)
  have at: "editor_ok (?ed\<lparr>ed_cursor := int (column_pos (ed_content ?ed) (rw_end (wrap ?ed ! n)) (rw_start (wrap ?ed ! n)) w c)\<rparr>)"
    if "n < length (wrap ?ed)" for n w c
    using cursor_in_row[OF v nth_mem[OF that] disjI1[OF refl]] unfolding editor_ok_def by blast
  have bx: "ed_box ?ed = ed_box ed" by (simp add: clear_selection_def)
  show ?thesis
    using ok assms at[of "nat (ms_y m - y_min (ed_box ed))" 0 "ms_x m - x_min (ed_box ed)"] bx
    by (auto simp: handle_mouse_def Let_def nat_less_iff not_less)
qed

section \<open>What the editing keys do\<close>

text \<open>The specification of the keys that edit or step by a glyph; \<open>gs\<close> are the glyphs typed.\<close>

definition edit_view :: "event \<Rightarrow> string list \<Rightarrow> text_view \<Rightarrow> text_view option" where
  "edit_view ev gs v =
     (if ev_key ev = KReturn then None
      else if ev_key ev = KCtrlA \<or> pe_is_select_all (ev_input ev) then Some (select_all_view v)
      else if ev_input ev = [esc_char, cr] then Some (type_view [NL] v)
      else (case ev_key ev of
          KCharacter c \<Rightarrow> Some (type_view gs v)
        | KBackspace \<Rightarrow> Some (backspace_view v)
        | KDelete \<Rightarrow> Some (delete_view v)
        | KArrowLeft \<Rightarrow> Some (left_view v)
        | KArrowRight \<Rightarrow> Some (right_view v)
        | KOther \<Rightarrow> Some v
        | _ \<Rightarrow> None))"

lemma glyph_NL [simp]: "glyph NL"
  by (simp add: is_cont_range lead_len_def)

lemma select_all_refines:
  "shows_view ed v \<Longrightarrow> shows_view (ed\<lparr>ed_anchor := 0, ed_cursor := int (length (ed_content ed))\<rparr>) (select_all_view v)"
  by (cases v) (auto simp: shows_view_def select_all_view_def)

lemma edit_refines:
  assumes "shows_view ed v" "edit_view ev gs v = Some v'"
    "\<And>c. ev_key ev = KCharacter c \<Longrightarrow> list_all glyph gs \<and> c = concat gs"
  shows "\<exists>r ed'. on_event cb ev ed = Inr (r, ed') \<and> shows_view ed' v'"
proof -
  have nr: "ev_key ev \<noteq> KReturn" using assms(2) by (auto simp: edit_view_def)
  consider (all) "ev_key ev = KCtrlA \<or> pe_is_select_all (ev_input ev)"
    | (nl) "\<not> (ev_key ev = KCtrlA \<or> pe_is_select_all (ev_input ev))" "ev_input ev = [esc_char, cr]"
    | (key) "\<not> (ev_key ev = KCtrlA \<or> pe_is_select_all (ev_input ev))" "ev_input ev \<noteq> [esc_char, cr]" by blast
  then show ?thesis
  proof cases
    case all
    then show ?thesis
      using select_all_refines[OF assms(1)] nr assms(2) by (auto simp: on_event_def edit_view_def)
  next
    case nl
    then show ?thesis
      using type_text_view[OF assms(1), of "[NL]"] glyph_NL nr assms(2) by (auto simp: on_event_def edit_view_def)
  next
    case key
    have e: "edit_view ev gs v = (case ev_key ev of KCharacter c \<Rightarrow> Some (type_view gs v)
        | KBackspace \<Rightarrow> Some (backspace_view v) | KDelete \<Rightarrow> Some (delete_view v)
        | KArrowLeft \<Rightarrow> Some (left_view v) | KArrowRight \<Rightarrow> Some (right_view v)
        | KOther \<Rightarrow> Some v | _ \<Rightarrow> None)"
      using key nr by (simp add: edit_view_def)
    have o: "on_event cb ev ed = (case ev_key ev of KCharacter c \<Rightarrow> type_text c ed
        | KBackspace \<Rightarrow> handle_backspace ed | KDelete \<Rightarrow> handle_delete ed
        | KArrowLeft \<Rightarrow> Inr (handle_arrow_horizontal (-1) ed)
        | KArrowRight \<Rightarrow> Inr (handle_arrow_horizontal 1 ed)
        | KArrowUp \<Rightarrow> Inr (handle_vertical cb (-1) ed)
        | KArrowDown \<Rightarrow> Inr (handle_vertical cb 1 ed)
        | KHome \<Rightarrow> Inr (True, handle_home_end True ed)
        | KEnd \<Rightarrow> Inr (True, handle_home_end False ed)
        | KMouse m \<Rightarrow> Inr (handle_mouse m ed) | _ \<Rightarrow> Inr (False, ed))"
      using key nr by (simp add: on_event_def)
    show ?thesis
    proof (cases "ev_key ev")
      case (KCharacter c)
      with assms(3) have "list_all glyph gs" "c = concat gs" by auto
      then show ?thesis
        using type_text_view[OF assms(1), of gs] KCharacter e o assms(2) by auto
    next
      case KArrowLeft
      then show ?thesis using horizontal_refines(1)[OF assms(1)] e o assms(2)
        by (cases "handle_arrow_horizontal (-1) ed") auto
    next
      case KArrowRight
      then show ?thesis using horizontal_refines(2)[OF assms(1)] e o assms(2)
        by (cases "handle_arrow_horizontal 1 ed") auto
    qed (use backspace_refines[OF assms(1)] delete_refines[OF assms(1)] e o assms in auto)
  qed
qed

lemma event_keeps_ok:
  assumes "editor_ok ed" "callbacks_ok cb" "\<And>c. ev_key ev = KCharacter c \<Longrightarrow> utf8_valid c"
  shows "\<exists>r ed'. on_event cb ev ed = Inr (r, ed') \<and> editor_ok ed'"
proof -
  obtain v where v: "shows_view ed v" using assms(1) by (auto simp: editor_ok_def)
  have "\<exists>gs. \<forall>c. ev_key ev = KCharacter c \<longrightarrow> list_all glyph gs \<and> c = concat gs"
    using utf8_glyphs assms(3) by (cases "ev_key ev") force+
  then obtain gs where gs: "\<And>c. ev_key ev = KCharacter c \<Longrightarrow> list_all glyph gs \<and> c = concat gs" by blast
  show ?thesis
  proof (cases "edit_view ev gs v")
    case (Some v')
    from edit_refines[OF v Some gs] show ?thesis unfolding editor_ok_def by blast
  next
    case None
    have sub: "editor_ok (call_back (cb_submit cb) ed)"
      using assms(2) by (intro call_back_ok[OF assms(1)]) (auto simp: callbacks_ok_def)
    have arrows: "\<exists>r ed'. handle_vertical cb d ed = (r, ed') \<and> editor_ok ed'" for d
      using vertical_ok[OF assms(1,2), of d] by (cases "handle_vertical cb d ed") simp
    have ms: "\<exists>r ed'. handle_mouse m ed = (r, ed') \<and> editor_ok ed'" for m
      using mouse_ok[OF assms(1), of m] by (cases "handle_mouse m ed") simp
    show ?thesis
    proof (cases "ev_key ev = KReturn")
      case True
      then have "on_event cb ev ed = Inr (True, call_back (cb_submit cb) ed)" by (simp add: on_event_def)
      with sub show ?thesis by blast
    next
      case False
      then have "\<not> (ev_key ev = KCtrlA \<or> pe_is_select_all (ev_input ev))" "ev_input ev \<noteq> [esc_char, cr]"
        using None by (auto simp: edit_view_def split: if_splits)
      then show ?thesis
        using False None home_end_ok[OF assms(1)] arrows ms
        by (cases "ev_key ev") (auto simp: on_event_def edit_view_def)
    qed
  qed
qed

section \<open>What is drawn\<close>

text \<open>The text of a row's cells.\<close>

fun cells_text :: "cell list \<Rightarrow> string" where
  "cells_text [] = []"
| "cells_text (Caret # cs) = cells_text cs"
| "cells_text (Text t sel # cs) = t @ cells_text cs"

lemma part_split: "0 \<le> a \<Longrightarrow> a \<le> b \<Longrightarrow> b \<le> c \<Longrightarrow> part a b s @ part b c s = part a c s"
proof -
  assume h: "0 \<le> a" "a \<le> b" "b \<le> c"
  have "nat (c - a) = nat (b - a) + nat (c - b)" "nat b = nat (b - a) + nat a" using h by simp_all
  then show ?thesis by (simp add: part_def take_add)
qed

lemma part_all: "part 0 (int (length s)) s = s"
  by (simp add: part_def)

lemma part_split_rest: "0 \<le> a \<Longrightarrow> a \<le> b \<Longrightarrow> b \<le> c \<Longrightarrow> part a b s @ part b c s @ r = part a c s @ r"
  using part_split[of a b c s] by (metis append_assoc)

text \<open>A row's cells carry the row's text, with the caret where the cursor is.\<close>

lemma render_row_plain:
  assumes "lo < hi \<longrightarrow> 0 \<le> lo \<and> hi \<le> int (length line)"
  shows "cells_text (render_row False line None lo hi) = line \<and> Caret \<notin> set (render_row False line None lo hi)"
  using assms part_all[of line]
  by (auto simp: render_row_def Let_def part_split part_split_rest)

lemma render_row_caret:
  assumes "0 \<le> c" "c \<le> int (length line)" "lo < hi \<longrightarrow> 0 \<le> lo \<and> hi \<le> int (length line)"
  shows "\<exists>xs ys. render_row False line (Some c) lo hi = xs @ Caret # ys \<and> Caret \<notin> set (xs @ ys) \<and>
    cells_text xs = take (nat c) line \<and> cells_text ys = drop (nat c) line"
proof -
  have t: "take (nat c) line = part 0 c line" by (simp add: part_def)
  have d: "drop (nat c) line = part c (int (length line)) line" by (simp add: part_def)
  note ps = part_split part_split_rest
  consider "\<not> lo < hi" | "lo < hi" "c < lo" | "lo < hi" "\<not> c < lo" "c < hi" | "lo < hi" "\<not> c < lo" "\<not> c < hi" by blast
  then show ?thesis
  proof cases
    case 1
    then show ?thesis
      by (intro exI[of _ "[Text (part 0 c line) False]"] exI[of _ "[Text (part c (int (length line)) line) False]"])
        (simp add: render_row_def Let_def t d)
  next
    case 2
    then show ?thesis using assms
      by (intro exI[of _ "[Text (part 0 c line) False]"]
          exI[of _ "[Text (part c lo line) False, Text (part lo hi line) True, Text (part hi (int (length line)) line) False]"])
        (simp add: render_row_def Let_def t d ps)
  next
    case 3
    then show ?thesis using assms
      by (intro exI[of _ "[Text (part 0 lo line) False, Text (part lo c line) True]"]
          exI[of _ "[Text (part c hi line) True, Text (part hi (int (length line)) line) False]"])
        (simp add: render_row_def Let_def t d ps)
  next
    case 4
    then show ?thesis using assms
      by (intro exI[of _ "[Text (part 0 lo line) False, Text (part lo hi line) True, Text (part hi c line) False]"]
          exI[of _ "[Text (part c (int (length line)) line) False]"])
        (simp add: render_row_def Let_def t d ps)
  qed
qed

lemma rows_cover_start: "rows_cover s p rows \<Longrightarrow> p \<le> length s"
  by (induction rows arbitrary: p) (fastforce simp: rows_cover_Cons split: if_splits)+

lemma rows_cover_bounds:
  "rows_cover s p rows \<Longrightarrow> r \<in> set rows \<Longrightarrow> rw_start r \<le> rw_end r \<and> rw_end r \<le> length s"
proof (induction rows arbitrary: p)
  case (Cons q rows)
  have "rw_end q \<le> length s"
    using Cons.prems(1) rows_cover_start by (auto simp: rows_cover_Cons split: if_splits)
  with Cons show ?case by (auto simp: rows_cover_Cons split: if_splits)
qed simp

lemma span_length:
  "rw_start r \<le> rw_end r \<Longrightarrow> rw_end r \<le> length s \<Longrightarrow> length (span s r) = rw_end r - rw_start r"
  by (simp add: span_def)

lemma resize_view: "shows_view ed v \<Longrightarrow> shows_view (resize ed) v"
  by (cases v) (simp add: shows_view_def resize_def)

lemma render_rows:
  assumes "shows_view ed v" "ed_content ed \<noteq> []"
    "cursor_position ed (wrap ed) = (True, i, col)" "i < length (wrap ed)"
    "int (rw_start (wrap ed ! i)) \<le> ed_cursor ed" "ed_cursor ed \<le> int (rw_end (wrap ed ! i))"
    "k < length (wrap ed)" "r = wrap ed ! k"
    "lo = (if sel_active ed then max (int (rw_start r)) (min (ed_anchor ed) (ed_cursor ed)) - int (rw_start r)
       else int (rw_end r))"
    "hi = (if sel_active ed then min (int (rw_end r)) (max (ed_anchor ed) (ed_cursor ed)) - int (rw_start r)
       else int (rw_end r))"
  shows "let cs = render_row False (span (ed_content ed) r) (if k = i then Some (ed_cursor ed - int (rw_start r)) else None) lo hi
    in cells_text cs = span (ed_content ed) r \<and>
      (if k = i then \<exists>xs ys. cs = xs @ Caret # ys \<and> Caret \<notin> set (xs @ ys) \<and>
          cells_text xs = take (nat (ed_cursor ed) - rw_start r) (span (ed_content ed) r)
       else Caret \<notin> set cs)"
proof -
  obtain b a m where v: "v = (b, a, m)" by (cases v)
  have c: "ed_content ed = concat (b @ a)" "list_all glyph (b @ a)"
    using assms(1) v by (auto simp: shows_view_def)
  have rb: "rw_start r \<le> rw_end r" "rw_end r \<le> length (ed_content ed)"
    using rows_cover_bounds[OF wrap_ok(1)[OF c]] assms(7,8) by auto
  note len = span_length[OF rb]
  have lh: "lo < hi \<longrightarrow> 0 \<le> lo \<and> hi \<le> int (length (span (ed_content ed) r))"
    using rb by (auto simp: assms(9,10) len)
  show ?thesis
  proof (cases "k = i")
    case True
    then have "int (rw_start r) \<le> ed_cursor ed" "ed_cursor ed \<le> int (rw_end r)"
      using assms(5,6,8) by simp_all
    then have cc: "0 \<le> ed_cursor ed - int (rw_start r)"
      "ed_cursor ed - int (rw_start r) \<le> int (length (span (ed_content ed) r))"
      unfolding len using rb by simp_all
    obtain xs ys where x: "render_row False (span (ed_content ed) r) (Some (ed_cursor ed - int (rw_start r))) lo hi = xs @ Caret # ys"
      "Caret \<notin> set (xs @ ys)" "cells_text xs = take (nat (ed_cursor ed - int (rw_start r))) (span (ed_content ed) r)"
      "cells_text ys = drop (nat (ed_cursor ed - int (rw_start r))) (span (ed_content ed) r)"
      using render_row_caret[OF cc lh] by blast
    have app: "cells_text (us @ ws) = cells_text us @ cells_text ws" for us ws
      by (induction us rule: cells_text.induct) auto
    have "cells_text (xs @ Caret # ys) = span (ed_content ed) r" unfolding app using x(3,4) by simp
    moreover have "nat (ed_cursor ed - int (rw_start r)) = nat (ed_cursor ed) - rw_start r" by simp
    ultimately show ?thesis using True x(1-3) by auto
  next
    case False
    then show ?thesis using render_row_plain[OF lh] by simp
  qed
qed

section \<open>Properties\<close>

text \<open>C25: the editor implements the glyph-wise editor: on a text with the cursor between two glyphs,
  typing, newline, backspace, delete, the horizontal arrows and select-all do to content, cursor
  and anchor what their specification does to the glyphs before and behind the cursor, and none of
  them throws.\<close>

theorem editor_refines_glyph_editor:
  assumes "shows_view ed v" "edit_view ev gs v = Some v'"
    "\<forall>c. ev_key ev = KCharacter c \<longrightarrow> list_all glyph gs \<and> c = concat gs"
  shows "\<exists>r ed'. on_event cb ev ed = Inr (r, ed') \<and> shows_view ed' v'"
  using edit_refines[OF assms(1,2)] assms(3) by blast

text \<open>C26: no event makes the editor throw or leaves its cursor inside a glyph: content that is a
  sequence of glyphs with the cursor between two of them stays so under every key and click, when
  characters typed are valid UTF-8 and the owner's callbacks keep to it.\<close>

theorem editor_stays_well_formed:
  assumes "editor_ok ed" "callbacks_ok cb" "\<forall>c. ev_key ev = KCharacter c \<longrightarrow> utf8_valid c"
  shows "\<exists>r ed'. on_event cb ev ed = Inr (r, ed') \<and> editor_ok ed'"
  using event_keeps_ok[OF assms(1,2)] assms(3) by blast

text \<open>the rows of the wrap are contiguous spans that cover the whole text, separated by nothing
  or one newline; each holds whole glyphs without a newline, has their width, and is no wider than
  the space available unless it is a single glyph.\<close>

theorem wrap_covers_text:
  assumes "utf8_valid (ed_content ed)"
  shows "rows_cover (ed_content ed) 0 (wrap ed) \<and>
    (\<forall>r \<in> set (wrap ed). row_holds (wrap_limit ed) (ed_content ed) r)"
proof -
  obtain gs where "list_all glyph gs" "ed_content ed = concat gs" using utf8_glyphs[OF assms] by auto
  with wrap_ok[of ed gs] show ?thesis by blast
qed

text \<open>drawing a well-formed, unmasked, non-empty editor succeeds and draws each row's text
  unchanged whatever is selected, with one caret in all, in the cursor's row behind the text before
  the cursor.\<close>

theorem render_shows_text:
  assumes "editor_ok ed" "ed_content ed \<noteq> []"
  shows "\<exists>rows i. on_render False ed = Inr rows \<and> length rows = wrapped_rows (resize ed) \<and> i < length rows \<and>
    (\<forall>k < length rows. cells_text (rows ! k) = span (ed_content ed) (wrap (resize ed) ! k) \<and>
      (if k = i then \<exists>xs ys. rows ! k = xs @ Caret # ys \<and> Caret \<notin> set (xs @ ys) \<and>
          cells_text xs = take (nat (ed_cursor ed) - rw_start (wrap (resize ed) ! k)) (span (ed_content ed) (wrap (resize ed) ! k))
       else Caret \<notin> set (rows ! k)))"
proof -
  let ?ed = "resize ed"
  obtain v where v: "shows_view ?ed v" using assms(1) resize_view unfolding editor_ok_def by blast
  have same: "ed_content ?ed = ed_content ed" "ed_cursor ?ed = ed_cursor ed" by (simp_all add: resize_def)
  obtain i col where p: "i < length (wrap ?ed)" "cursor_position ?ed (wrap ?ed) = (True, i, col)"
    "int (rw_start (wrap ?ed ! i)) \<le> ed_cursor ?ed" "ed_cursor ?ed \<le> int (rw_end (wrap ?ed ! i))"
    using cursor_position_view v by (cases v) blast
  define rows where "rows = map (\<lambda>(k, r). render_row False (span (ed_content ?ed) r)
      (if k = i then Some (ed_cursor ?ed - int (rw_start r)) else None)
      (if sel_active ?ed then max (int (rw_start r)) (min (ed_anchor ?ed) (ed_cursor ?ed)) - int (rw_start r) else int (rw_end r))
      (if sel_active ?ed then min (int (rw_end r)) (max (ed_anchor ?ed) (ed_cursor ?ed)) - int (rw_start r) else int (rw_end r)))
    (zip [0 ..< length (wrap ?ed)] (wrap ?ed))"
  have "on_render False ed = Inr rows"
    using assms(2) p(2) same(1) by (simp add: on_render_def Let_def rows_def)
  moreover have l: "length rows = wrapped_rows ?ed" by (simp add: rows_def wrapped_rows_def)
  moreover have "i < length rows" using l p(1) by (simp add: wrapped_rows_def)
  moreover have "cells_text (rows ! k) = span (ed_content ed) (wrap ?ed ! k) \<and>
      (if k = i then \<exists>xs ys. rows ! k = xs @ Caret # ys \<and> Caret \<notin> set (xs @ ys) \<and>
          cells_text xs = take (nat (ed_cursor ed) - rw_start (wrap ?ed ! k)) (span (ed_content ed) (wrap ?ed ! k))
       else Caret \<notin> set (rows ! k))" if k: "k < length rows" for k
  proof -
    have k': "k < length (wrap ?ed)" using k l by (simp add: wrapped_rows_def)
    have ne: "ed_content ?ed \<noteq> []" using assms(2) same by simp
    let ?r = "wrap ?ed ! k"
    have nk: "rows ! k = render_row False (span (ed_content ?ed) ?r)
      (if k = i then Some (ed_cursor ?ed - int (rw_start ?r)) else None)
      (if sel_active ?ed then max (int (rw_start ?r)) (min (ed_anchor ?ed) (ed_cursor ?ed)) - int (rw_start ?r) else int (rw_end ?r))
      (if sel_active ?ed then min (int (rw_end ?r)) (max (ed_anchor ?ed) (ed_cursor ?ed)) - int (rw_start ?r) else int (rw_end ?r))"
      using k' by (simp add: rows_def)
    show ?thesis
      using render_rows[OF v ne p(2,1,3,4) k' refl refl refl, folded nk] unfolding Let_def same .
  qed
  ultimately show ?thesis by blast
qed

section \<open>Witnesses\<close>

definition demo_editor :: editor where
  "demo_editor = \<lparr>ed_content = ''ab'' @ NL @ [CHR 0xC3, CHR 0xA9] @ ''cd'', ed_cursor = 5, ed_anchor = -1,
     ed_box = \<lparr>x_min = 0, x_max = 2, y_min = 0, y_max = 4\<rparr>, ed_avail = 3\<rparr>"

definition demo_view :: text_view where
  "demo_view = ([''a'', ''b'', NL, [CHR 0xC3, CHR 0xA9]], [''c'', ''d''], False)"

definition idle_callbacks :: callbacks where
  "idle_callbacks = \<lparr>cb_submit = (\<lambda>_. ([], 0)), cb_prev = None, cb_next = Some id\<rparr>"

lemma demo_shows: "shows_view demo_editor demo_view"
  by code_simp

lemma editor_refines_glyph_editor_witness:
  "\<exists>r ed'. on_event idle_callbacks \<lparr>ev_key = KBackspace, ev_input = [CHR 0x7F]\<rparr> demo_editor = Inr (r, ed') \<and>
    shows_view ed' ([''a'', ''b'', NL], [''c'', ''d''], False)"
proof -
  have "edit_view \<lparr>ev_key = KBackspace, ev_input = [CHR 0x7F]\<rparr> [] demo_view =
      Some ([''a'', ''b'', NL], [''c'', ''d''], False)" by code_simp
  from editor_refines_glyph_editor[OF demo_shows this] show ?thesis by simp
qed

lemma editor_stays_well_formed_witness:
  "\<exists>r ed'. on_event idle_callbacks \<lparr>ev_key = KArrowUp, ev_input = []\<rparr> demo_editor = Inr (r, ed') \<and> editor_ok ed'"
proof -
  have ok: "editor_ok demo_editor" using demo_shows unfolding editor_ok_def by blast
  have cb: "callbacks_ok idle_callbacks"
    by (auto simp: callbacks_ok_def idle_callbacks_def shared_ok_def intro!: exI[of _ "[]"])
  show ?thesis by (rule editor_stays_well_formed[OF ok cb]) simp
qed

lemma wrap_covers_text_witness:
  "rows_cover (ed_content demo_editor) 0 (wrap demo_editor) \<and>
   row_holds (wrap_limit demo_editor) (ed_content demo_editor) (wrap demo_editor ! 2) \<and>
   length (wrap demo_editor) = 3"
proof -
  have "utf8_valid (ed_content demo_editor)" by code_simp
  note w = wrap_covers_text[OF this]
  have n: "length (wrap demo_editor) = 3" by code_simp
  then have "wrap demo_editor ! 2 \<in> set (wrap demo_editor)" by (intro nth_mem) simp
  with w n show ?thesis by blast
qed

lemma render_shows_text_witness: "\<exists>rows. on_render False demo_editor = Inr rows \<and> cells_text (rows ! 0) = ''ab''"
proof -
  have ok: "editor_ok demo_editor" using demo_shows unfolding editor_ok_def by blast
  have ne: "ed_content demo_editor \<noteq> []" by (simp add: demo_editor_def)
  have n: "wrapped_rows (resize demo_editor) = 3" by code_simp
  have s: "span (ed_content demo_editor) (wrap (resize demo_editor) ! 0) = ''ab''" by code_simp
  from render_shows_text[OF ok ne] n s show ?thesis by force
qed

section \<open>Divergences\<close>

text \<open>Select-all on an empty prompt leaves its anchor behind: the second character typed erases the
  first. The same happens after a submit while everything is selected.\<close>

lemma select_all_on_empty_loses_a_glyph:
  "bind_outcome (on_event idle_callbacks \<lparr>ev_key = KCtrlA, ev_input = [CHR 0x01]\<rparr>
       (demo_editor\<lparr>ed_content := [], ed_cursor := 0\<rparr>)) (\<lambda>(_, e1).
     bind_outcome (on_event idle_callbacks \<lparr>ev_key = KCharacter ''a'', ev_input = ''a''\<rparr> e1) (\<lambda>(_, e2).
     bind_outcome (on_event idle_callbacks \<lparr>ev_key = KCharacter ''b'', ev_input = ''b''\<rparr> e2) (\<lambda>(_, e3).
       Inr (ed_content e3)))) = Inr ''b''"
  by code_simp

text \<open>A row that the wrap begins without a newline cannot be reached at its first column: the cursor
  there counts as behind the row above.\<close>

lemma home_of_wrapped_row_is_the_row_above:
  "let ed = demo_editor\<lparr>ed_content := ''abcdef'', ed_cursor := 5\<rparr>;
       home = handle_home_end True ed
   in cursor_row ed (wrap ed) = 1 \<and> cursor_row home (wrap home) = 0"
  by code_simp

end
