(* ===== verification/Markdown.thy ===== *)
theory Markdown
  imports Tool_Edit
begin

text \<open>
  The Markdown renderer of the transcript (\<open>src/tui/markdown.h\<close>): inline markup into styled spans, pipe
  tables into boxes, and the line-by-line block renderer with its fence and table states. Colours are
  the ones the renderer uses; widths are the approximate column widths it computes.
\<close>

section \<open>Spans and lines\<close>

datatype md_color = ColDefault | ColCyan | ColWhite | ColCyanLight | ColBlue | ColMagenta | ColGrayLight
  | ColYellow | ColYellowLight | ColRedLight | ColGreen

record md_span =
  sp_text :: string
  sp_color :: md_color
  sp_bold :: bool
  sp_dim :: bool
  sp_italic :: bool

record md_line =
  ln_spans :: "md_span list"
  ln_gutter :: bool

definition mk_span :: "string \<Rightarrow> md_color \<Rightarrow> bool \<Rightarrow> bool \<Rightarrow> bool \<Rightarrow> md_span" where
  "mk_span t c b d i = \<lparr>sp_text = t, sp_color = c, sp_bold = b, sp_dim = d, sp_italic = i\<rparr>"

definition line_of :: "md_span list \<Rightarrow> md_line" where
  "line_of spans = \<lparr>ln_spans = spans, ln_gutter = False\<rparr>"

definition md_plain_line :: "string \<Rightarrow> md_color \<Rightarrow> bool \<Rightarrow> bool \<Rightarrow> md_line" where
  "md_plain_line t c b d = line_of [mk_span t c b d False]"

definition is_blank :: "char \<Rightarrow> bool" where "is_blank c \<longleftrightarrow> c = CHR '' '' \<or> c = tab"

definition trim_left_ws :: "string \<Rightarrow> string" where "trim_left_ws s = dropWhile is_blank s"
definition indent_ws :: "string \<Rightarrow> nat" where "indent_ws s = length (takeWhile is_blank s)"
definition trim_right_ws :: "string \<Rightarrow> string" where "trim_right_ws s = rev (dropWhile is_blank (rev s))"

section \<open>Inline markup\<close>

record md_attr =
  at_bold :: bool
  at_italic :: bool
  at_strike :: bool
  at_code :: bool

definition no_attr :: md_attr where
  "no_attr = \<lparr>at_bold = False, at_italic = False, at_strike = False, at_code = False\<rparr>"

definition attr_color :: "md_attr \<Rightarrow> md_color" where
  "attr_color a = (if at_code a then ColCyan else if at_bold a then ColWhite else ColDefault)"

definition attr_span :: "string \<Rightarrow> md_attr \<Rightarrow> md_span" where
  "attr_span t a = mk_span t (attr_color a) (at_bold a) (at_strike a \<and> \<not> at_code a) (at_italic a)"

definition same_style :: "md_span \<Rightarrow> md_span \<Rightarrow> bool" where
  "same_style x y \<longleftrightarrow> sp_color x = sp_color y \<and> sp_bold x = sp_bold y \<and> sp_dim x = sp_dim y \<and> sp_italic x = sp_italic y"

definition flush_span :: "md_span list \<Rightarrow> string \<Rightarrow> md_attr \<Rightarrow> md_span list" where
  "flush_span out cur a =
     (if cur = [] then out
      else if out \<noteq> [] \<and> same_style (last out) (attr_span cur a) then
        butlast out @ [(last out)\<lparr>sp_text := sp_text (last out) @ cur\<rparr>]
      else out @ [attr_span cur a])"

text \<open>What stands behind an opening bracket: label and rest, when it is \<open>label](url)rest\<close>.\<close>

definition link_parts :: "string \<Rightarrow> (string \<times> string) option" where
  "link_parts s =
     (case split_at (CHR '']'') s of
        Some (label, CHR ''('' # after) \<Rightarrow> map_option (\<lambda>(url, rest). (label, rest)) (split_at (CHR '')'') after)
      | _ \<Rightarrow> None)"

lemma link_parts_length: "link_parts s = Some (label, rest) \<Longrightarrow> length rest < length s"
  by (auto simp: link_parts_def dest!: split_at_length split: option.splits list.splits char.splits bool.splits if_splits)

definition link_span :: "string \<Rightarrow> md_span" where
  "link_span label = mk_span label ColCyan True False False"

function inline_loop :: "string \<Rightarrow> md_span list \<Rightarrow> string \<Rightarrow> md_attr \<Rightarrow> md_span list" where
  "inline_loop [] out cur a = flush_span out cur a"
| "inline_loop (c # cs) out cur a =
     (if c = CHR 0x5C \<and> cs \<noteq> [] then inline_loop (tl cs) out (cur @ [hd cs]) a
      else if c = CHR ''`'' then inline_loop cs (flush_span out cur a) [] (a\<lparr>at_code := \<not> at_code a\<rparr>)
      else if c = CHR ''*'' \<and> cs \<noteq> [] \<and> hd cs = CHR ''*'' then
        inline_loop (tl cs) (flush_span out cur a) [] (a\<lparr>at_bold := \<not> at_bold a\<rparr>)
      else if c = CHR ''*'' then inline_loop cs (flush_span out cur a) [] (a\<lparr>at_italic := \<not> at_italic a\<rparr>)
      else if c = CHR ''~'' \<and> cs \<noteq> [] \<and> hd cs = CHR ''~'' then
        inline_loop (tl cs) (flush_span out cur a) [] (a\<lparr>at_strike := \<not> at_strike a\<rparr>)
      else case (if c = CHR ''['' then link_parts cs else None) of
          Some (label, rest) \<Rightarrow> inline_loop rest (flush_span out cur a @ [link_span label]) [] a
        | None \<Rightarrow> inline_loop cs out (cur @ [c]) a)"
  by pat_completeness auto
termination
  by (relation "measure (\<lambda>(s, out, cur, a). length s)")
    (auto dest!: link_parts_length split: if_splits)

declare inline_loop.simps(2) [simp del]

definition inline_spans :: "string \<Rightarrow> md_span list" where
  "inline_spans s = inline_loop s [] [] no_attr"

section \<open>Widths\<close>

text \<open>One column for ASCII, two for anything else with the continuation bytes behind it.\<close>

function md_width :: "string \<Rightarrow> nat" where
  "md_width [] = 0"
| "md_width (c # cs) = (if byte c < 0x80 then 1 + md_width cs else 2 + md_width (dropWhile is_cont cs))"
  by pat_completeness auto
termination
  by (relation "measure length") (auto simp: le_imp_less_Suc length_dropWhile_le)

definition spans_width :: "md_span list \<Rightarrow> nat" where
  "spans_width spans = sum_list (map (\<lambda>s. md_width (sp_text s)) spans)"

section \<open>Tables\<close>

datatype md_align = AlignLeft | AlignCenter | AlignRight

record md_cell =
  ce_spans :: "md_span list"
  ce_text :: string
  ce_width :: nat

text \<open>The pieces between unescaped pipes, and whether there was one.\<close>

fun pipe_split :: "string \<Rightarrow> string \<Rightarrow> string list \<times> bool" where
  "pipe_split [] cur = ([cur], False)"
| "pipe_split (c # cs) cur =
     (if c = CHR 0x5C \<and> cs \<noteq> [] \<and> (hd cs = CHR ''|'' \<or> hd cs = CHR 0x5C) then
        (case cs of [] \<Rightarrow> ([cur], False) | d # ds \<Rightarrow> pipe_split ds (cur @ [d]))
      else if c = CHR ''|'' then (let (cells, p) = pipe_split cs [] in (cur # cells, True))
      else pipe_split cs (cur @ [c]))"

definition pipe_cells :: "string \<Rightarrow> string list \<times> bool" where
  "pipe_cells body =
     (let (cells0, has_pipe) = pipe_split body [];
          cells1 = (if body \<noteq> [] \<and> hd body = CHR ''|'' then tl cells0 else cells0);
          cells2 = (if cells1 \<noteq> [] \<and> body \<noteq> [] \<and> last body = CHR ''|'' then butlast cells1 else cells1)
      in (cells2, has_pipe))"

definition trim_cell :: "string \<Rightarrow> string" where "trim_cell raw = trim_right_ws (trim_left_ws raw)"

definition is_delimiter_cell :: "string \<Rightarrow> bool" where
  "is_delimiter_cell raw \<longleftrightarrow>
     (let c = trim_cell raw in
      c \<noteq> [] \<and>
      (let r = (if hd c = CHR '':'' then tl c else c); d = dropWhile (\<lambda>x. x = CHR ''-'') r in
       takeWhile (\<lambda>x. x = CHR ''-'') r \<noteq> [] \<and>
       (if d \<noteq> [] \<and> hd d = CHR '':'' then tl d else d) = []))"

definition is_delimiter_row :: "string list \<Rightarrow> bool" where
  "is_delimiter_row cells \<longleftrightarrow> 2 \<le> length cells \<and> list_all is_delimiter_cell cells"

definition delimiter_align :: "string \<Rightarrow> md_align" where
  "delimiter_align raw =
     (let c = trim_cell raw; left = (c \<noteq> [] \<and> hd c = CHR '':''); right = (1 < length c \<and> last c = CHR '':'')
      in if left \<and> right then AlignCenter else if right then AlignRight else AlignLeft)"

definition make_cell :: "string \<Rightarrow> md_cell" where
  "make_cell raw =
     (let spans = inline_spans (trim_cell raw); t = concat (map sp_text spans)
      in \<lparr>ce_spans = spans, ce_text = t, ce_width = md_width t\<rparr>)"

definition make_table_row :: "string list \<Rightarrow> md_cell list" where
  "make_table_row cells = map make_cell cells"

definition table_glyph_len :: "char \<Rightarrow> nat" where
  "table_glyph_len c =
     (if byte c < 0x80 then 1 else if byte c AND 0xE0 = 0xC0 then 2
      else if byte c AND 0xF0 = 0xE0 then 3 else if byte c AND 0xF8 = 0xF0 then 4 else 1)"

lemma table_glyph_len_pos: "0 < table_glyph_len c"
  by (simp add: table_glyph_len_def)

function clip_text :: "nat \<Rightarrow> nat \<Rightarrow> string \<Rightarrow> string" where
  "clip_text room tw [] = []"
| "clip_text room tw (c # cs) =
     (let gw = (if byte c < 0x80 then 1 else 2) in
      if room < tw + gw then []
      else take (table_glyph_len c) (c # cs) @ clip_text room (tw + gw) (drop (table_glyph_len c) (c # cs)))"
  by pat_completeness auto
termination
  by (relation "measure (\<lambda>(room, tw, s). length s)") (auto simp: table_glyph_len_pos diff_less)

declare clip_text.simps(2) [simp del]

fun truncate_spans :: "nat \<Rightarrow> nat \<Rightarrow> md_span list \<Rightarrow> md_span list" where
  "truncate_spans budget used [] = []"
| "truncate_spans budget used (s # ss) =
     (let w = md_width (sp_text s) in
      if used + w \<le> budget then s # truncate_spans budget (used + w) ss
      else [s\<lparr>sp_text := clip_text (budget - used) 0 (sp_text s) @ ellipsis\<rparr>])"

definition table_alignment :: "string list \<Rightarrow> nat \<Rightarrow> md_align list" where
  "table_alignment delim cols =
     map (\<lambda>i. if i < length delim then delimiter_align (delim ! i) else AlignLeft) [0..<cols]"

text \<open>The box glyphs.\<close>

definition box_glyph :: "nat \<Rightarrow> string" where
  "box_glyph b = [CHR 0xE2, CHR 0x94, char_of b]"

definition hbar :: string where "hbar = box_glyph 0x80"
definition vbar :: string where "vbar = box_glyph 0x82"

definition repeat_utf8 :: "string \<Rightarrow> nat \<Rightarrow> string" where
  "repeat_utf8 glyph n = concat (replicate n glyph)"

definition border_line :: "nat list \<Rightarrow> string \<Rightarrow> string \<Rightarrow> string \<Rightarrow> md_line" where
  "border_line widths left cross right =
     md_plain_line (left @ join_with cross (map (\<lambda>w. repeat_utf8 hbar (w + 2)) widths) @ right) ColDefault False True"

definition pipe_span :: md_span where "pipe_span = mk_span vbar ColDefault False True False"
definition space_span :: "nat \<Rightarrow> md_span" where
  "space_span n = mk_span (replicate n (CHR '' '')) ColDefault False False False"

definition pad_spans :: "nat \<Rightarrow> md_span list" where
  "pad_spans n = (if 0 < n then [space_span n] else [])"

text \<open>One cell of a row: bar, space, padding, content, padding, space.\<close>

definition cell_spans :: "md_cell option \<Rightarrow> nat \<Rightarrow> md_align \<Rightarrow> bool \<Rightarrow> md_span list" where
  "cell_spans cell width al header =
     (let content_w = (case cell of None \<Rightarrow> 0 | Some c \<Rightarrow> if width < ce_width c then width else ce_width c);
          cut = (case cell of None \<Rightarrow> [] | Some c \<Rightarrow>
            if width < ce_width c then truncate_spans width 0 (ce_spans c) else []);
          content = (case cell of None \<Rightarrow> [] | Some c \<Rightarrow> if cut = [] then ce_spans c else cut);
          pad = width - content_w;
          pad_left = (case al of AlignLeft \<Rightarrow> 0 | AlignRight \<Rightarrow> pad | AlignCenter \<Rightarrow> pad div 2)
      in [pipe_span, space_span 1] @ pad_spans pad_left @
         map (\<lambda>s. if header then s\<lparr>sp_bold := True\<rparr> else s) content @
         pad_spans (pad - pad_left) @ [space_span 1])"

definition table_row_line :: "md_cell list \<Rightarrow> nat list \<Rightarrow> md_align list \<Rightarrow> bool \<Rightarrow> md_line" where
  "table_row_line row widths align header =
     line_of (concat (map (\<lambda>c. cell_spans (if c < length row then Some (row ! c) else None) (widths ! c)
         (if c < length align then align ! c else AlignLeft) header) [0..<length widths]) @ [pipe_span])"

definition kMaxColWidth :: nat where "kMaxColWidth = 40"

definition column_widths :: "md_cell list list \<Rightarrow> nat \<Rightarrow> nat list" where
  "column_widths rows ncols =
     map (\<lambda>c. min kMaxColWidth (fold (\<lambda>row w. if c < length row then max w (ce_width (row ! c)) else w) rows 0))
       [0..<ncols]"

definition table_lines :: "md_cell list list \<Rightarrow> md_align list \<Rightarrow> md_line list" where
  "table_lines rows align =
     (case rows of
        [] \<Rightarrow> []
      | h # body \<Rightarrow>
          if align = [] then []
          else let widths = column_widths rows (length align) in
            [border_line widths (box_glyph 0x8C) (box_glyph 0xAC) (box_glyph 0x90), table_row_line h widths align True,
             border_line widths (box_glyph 0x9C) (box_glyph 0xBC) (box_glyph 0xA4)] @
            map (\<lambda>r. table_row_line r widths align False) body @
            [border_line widths (box_glyph 0x94) (box_glyph 0xB4) (box_glyph 0x98)])"

section \<open>Block rendering\<close>

text \<open>A carriage return ends a line, together with a line feed behind it.\<close>

fun unify_newlines :: "string \<Rightarrow> string" where
  "unify_newlines [] = []"
| "unify_newlines (c # cs) =
     (if c = cr then (if cs \<noteq> [] \<and> hd cs = nl then unify_newlines cs else nl # unify_newlines cs)
      else c # unify_newlines cs)"

definition md_bullet :: string where "md_bullet = [CHR 0xE2, CHR 0x80, CHR 0xA2]"

definition is_digit :: "char \<Rightarrow> bool" where "is_digit c \<longleftrightarrow> 48 \<le> byte c \<and> byte c \<le> 57"

definition heading_level :: "string \<Rightarrow> nat option" where
  "heading_level body =
     (let h = length (takeWhile (\<lambda>c. c = CHR ''#'') body) in
      if 0 < h \<and> h \<le> 6 \<and> (h = length body \<or> is_blank (body ! h)) then Some h else None)"

definition heading_line :: "nat \<Rightarrow> string \<Rightarrow> md_line" where
  "heading_line h body =
     (let c = (if h \<le> 2 then ColCyanLight else ColDefault);
          spans = map (\<lambda>s. s\<lparr>sp_color := c, sp_bold := True\<rparr>)
            (inline_spans (trim_right_ws (drop (h + (if h < length body then 1 else 0)) body)))
      in line_of (if spans = [] then [mk_span [] c True False False] else spans))"

definition is_rule :: "string \<Rightarrow> bool" where
  "is_rule body \<longleftrightarrow>
     3 \<le> length body \<and> list_all (\<lambda>c. c = CHR ''-'' \<or> c = CHR ''*'' \<or> c = CHR ''_'') body"

definition quote_line :: "string \<Rightarrow> md_line" where
  "quote_line body =
     (let rest = tl body; content = (if rest \<noteq> [] \<and> is_blank (hd rest) then tl rest else rest)
      in line_of (mk_span (vbar @ '' '') ColBlue False False False #
           map (\<lambda>s. s\<lparr>sp_color := ColBlue\<rparr>) (inline_spans content)))"

text \<open>Where the marker of a list item starts and ends.\<close>

definition list_marker :: "string \<Rightarrow> (nat \<times> nat) option" where
  "list_marker body =
     (let li = length (takeWhile is_blank body);
          digits = li + length (takeWhile is_digit (drop li body));
          marker_end =
            (if li < length body \<and> (body ! li = CHR ''-'' \<or> body ! li = CHR ''+'' \<or> body ! li = CHR ''*'') then li + 1
             else if li < digits \<and> digits < length body \<and> body ! digits = CHR ''.'' then digits + 1
             else li)
      in if li < marker_end \<and> marker_end < length body \<and> is_blank (body ! marker_end)
         then Some (li, marker_end) else None)"

definition item_line :: "nat \<Rightarrow> nat \<times> nat \<Rightarrow> string \<Rightarrow> md_line" where
  "item_line indent m body =
     (let (li, marker_end) = m;
          marker = (if is_digit (body ! li) then take (marker_end - li) (drop li body) else md_bullet)
      in line_of ([mk_span (replicate indent (CHR '' '') @ ''  '') ColDefault False False False,
           mk_span (marker @ '' '') ColDefault True False False] @ inline_spans (drop marker_end body)))"

text \<open>A line that is neither in a fence nor in a table.\<close>

definition block_line :: "string \<Rightarrow> nat \<Rightarrow> md_line list" where
  "block_line body indent =
     (if body = [] then []
      else case heading_level body of
        Some h \<Rightarrow> [heading_line h body]
      | None \<Rightarrow>
          if is_rule body then [md_plain_line (hbar @ hbar @ hbar) ColBlue False False]
          else if hd body = CHR ''>'' then [quote_line body]
          else (case list_marker body of
              Some m \<Rightarrow> [item_line indent m body]
            | None \<Rightarrow> if inline_spans body \<noteq> [] then [line_of (inline_spans body)] else []))"

text \<open>A candidate is a pipe line that becomes a table header when a delimiter row follows.\<close>

record md_state =
  st_out :: "md_line list"
  st_fence :: bool
  st_fence_char :: char
  st_fence_len :: nat
  st_table :: bool
  st_header :: "string list"
  st_rows :: "md_cell list list"
  st_align :: "md_align list"
  st_candidate :: string
  st_cand_indent :: nat

definition new_state :: md_state where
  "new_state = \<lparr>st_out = [], st_fence = False, st_fence_char = CHR ''`'', st_fence_len = 3, st_table = False,
     st_header = [], st_rows = [], st_align = [], st_candidate = [], st_cand_indent = 0\<rparr>"

definition put_lines :: "md_line list \<Rightarrow> md_state \<Rightarrow> md_state" where
  "put_lines ls st = st\<lparr>st_out := st_out st @ ls\<rparr>"

definition opens_fence :: "string \<Rightarrow> bool" where
  "opens_fence body \<longleftrightarrow>
     3 \<le> length body \<and> (hd body = CHR ''`'' \<or> hd body = CHR ''~'') \<and> hd body = body ! 1 \<and> hd body = body ! 2"

definition closes_fence :: "md_state \<Rightarrow> string \<Rightarrow> bool" where
  "closes_fence st body \<longleftrightarrow>
     st_fence_len st \<le> length body \<and> body \<noteq> [] \<and> hd body = st_fence_char st \<and>
     list_all (\<lambda>c. c = st_fence_char st) (take (st_fence_len st) body)"

definition block_start :: "string \<Rightarrow> bool" where
  "block_start body \<longleftrightarrow>
     body = [] \<or> hd body \<in> {CHR ''#'', CHR ''>'', CHR ''-'', CHR ''*'', CHR ''+''} \<or>
     (let d = length (takeWhile is_digit body) in 0 < d \<and> d < length body \<and> body ! d = CHR ''.'')"

text \<open>The end of a line outside fences and tables: a fence opens, a candidate is kept, or the line is
  rendered.\<close>

definition start_block :: "string \<Rightarrow> nat \<Rightarrow> string list \<Rightarrow> bool \<Rightarrow> md_state \<Rightarrow> md_state" where
  "start_block body indent pipe has_pipe st =
     (if opens_fence body then
        st\<lparr>st_fence := True, st_fence_char := hd body,
           st_fence_len := length (takeWhile (\<lambda>c. c = hd body) body)\<rparr>
      else if has_pipe \<and> \<not> block_start body \<and> 2 \<le> length pipe then
        st\<lparr>st_header := pipe, st_candidate := body, st_cand_indent := indent\<rparr>
      else put_lines (block_line body indent) st)"

definition after_candidate :: "string \<Rightarrow> nat \<Rightarrow> string list \<Rightarrow> bool \<Rightarrow> md_state \<Rightarrow> md_state" where
  "after_candidate body indent pipe has_pipe st =
     (if st_candidate st \<noteq> [] then
        (if is_delimiter_row pipe then
           st\<lparr>st_rows := [make_table_row (st_header st)], st_align := table_alignment pipe (length (st_header st)),
              st_table := True, st_header := [], st_candidate := []\<rparr>
         else start_block body indent pipe has_pipe
           ((put_lines (block_line (st_candidate st) (st_cand_indent st)) st)\<lparr>st_candidate := [], st_header := []\<rparr>))
      else start_block body indent pipe has_pipe st)"

definition valid_row :: "string list \<Rightarrow> bool \<Rightarrow> md_state \<Rightarrow> bool" where
  "valid_row pipe has_pipe st \<longleftrightarrow>
     has_pipe \<and> \<not> is_delimiter_row pipe \<and> pipe \<noteq> [] \<and> length pipe \<le> length (st_align st)"

definition handle_line :: "string \<Rightarrow> md_state \<Rightarrow> md_state" where
  "handle_line line st =
     (let indent = indent_ws line; body = trim_right_ws (trim_left_ws line) in
      if st_fence st then
        (if closes_fence st body then st\<lparr>st_fence := False\<rparr>
         else put_lines [md_plain_line (''  '' @ line) ColBlue False False] st)
      else let (pipe, has_pipe) = pipe_cells body in
        if st_table st then
          (if valid_row pipe has_pipe st then st\<lparr>st_rows := st_rows st @ [make_table_row pipe]\<rparr>
           else let st1 = (put_lines (table_lines (st_rows st) (st_align st)) st)\<lparr>st_table := False\<rparr> in
             if has_pipe \<and> is_delimiter_row pipe then st1
             else after_candidate body indent pipe has_pipe st1)
        else after_candidate body indent pipe has_pipe st)"

definition finish_render :: "md_state \<Rightarrow> md_line list" where
  "finish_render st =
     st_out st @ (if st_table st then table_lines (st_rows st) (st_align st) else []) @
     (if st_candidate st \<noteq> [] then block_line (st_candidate st) (st_cand_indent st) else [])"

definition render_markdown :: "string \<Rightarrow> md_line list" where
  "render_markdown s = finish_render (fold handle_line (segments nl (unify_newlines s)) new_state)"

section \<open>Widths of cells\<close>


















section \<open>Tables are boxes\<close>






















section \<open>A written table\<close>













lemma unify_plain: "cr \<notin> set s \<Longrightarrow> unify_newlines s = s"
  by (induction s) auto

lemma segments_line: "nl \<notin> set l \<Longrightarrow> segments nl (l @ nl # s) = l # segments nl s"
  by (induction l) auto

lemma segments_last: "nl \<notin> set l \<Longrightarrow> segments nl l = [l]"
  by (induction l) auto

lemma segments_join:
  "ls \<noteq> [] \<Longrightarrow> list_all (\<lambda>l. nl \<notin> set l) ls \<Longrightarrow> segments nl (join_with NL ls) = ls"
proof (induction ls)
  case (Cons l ls)
  then show ?case by (cases "ls = []") (simp_all add: join_with_Cons segments_last segments_line)
qed simp

lemma render_lines:
  assumes "ls \<noteq> []" "list_all (\<lambda>l. nl \<notin> set l \<and> cr \<notin> set l) ls"
  shows "render_markdown (join_with NL ls) = finish_render (fold handle_line ls new_state)"
proof -
  have "cr \<notin> set (join_with NL ls)"
    using assms(2) by (induction ls) (auto simp: join_with_Cons)
  moreover have "list_all (\<lambda>l. nl \<notin> set l) ls" using assms(2) by (simp add: list_all_iff)
  ultimately show ?thesis
    using segments_join[OF assms(1)] by (simp add: render_markdown_def unify_plain)
qed






section \<open>Properties\<close>



definition fence :: string where "fence = ''```''"

lemma fence_line:
  assumes "st_fence st" "st_fence_char st = CHR ''`''" "st_fence_len st = 3"
  shows "handle_line fence st = st\<lparr>st_fence := False\<rparr>"
proof -
  have "trim_right_ws (trim_left_ws fence) = fence" by code_simp
  then show ?thesis using assms by (simp add: handle_line_def closes_fence_def fence_def Let_def)
qed

lemma fenced_lines:
  assumes "list_all (\<lambda>l. \<not> starts_with (trim_cell l) fence) ls"
    and "st_fence st" "st_fence_char st = CHR ''`''" "st_fence_len st = 3"
  shows "fold handle_line ls st = put_lines (map (\<lambda>l. md_plain_line (''  '' @ l) ColBlue False False) ls) st"
  using assms
proof (induction ls arbitrary: st)
  case (Cons l ls)
  have "\<not> closes_fence st (trim_cell l)"
  proof
    assume c: "closes_fence st (trim_cell l)"
    then have "take 3 (trim_cell l) = ''```''"
      using Cons.prems(3,4)
      by (cases "trim_cell l"; cases "tl (trim_cell l)"; cases "tl (tl (trim_cell l))")
        (auto simp: closes_fence_def numeral_3_eq_3)
    then show False using Cons.prems(1) take_is_prefix[of 3 "trim_cell l"] by (simp add: starts_with_def fence_def)
  qed
  then have "handle_line l st = put_lines [md_plain_line (''  '' @ l) ColBlue False False] st"
    using Cons.prems(2) by (simp add: handle_line_def Let_def trim_cell_def)
  then show ?case using Cons by (simp add: put_lines_def)
qed (simp add: put_lines_def)

text \<open>the lines of a fenced block are shown as they are, indented by two spaces; nothing in them is
  read as markup.\<close>

theorem fenced_code_is_verbatim:
  assumes "list_all (\<lambda>l. nl \<notin> set l \<and> cr \<notin> set l \<and> \<not> starts_with (trim_cell l) fence) ls"
  shows "render_markdown (join_with NL (fence # ls @ [fence])) =
    map (\<lambda>l. md_plain_line (''  '' @ l) ColBlue False False) ls"
proof -
  have l: "list_all (\<lambda>l. nl \<notin> set l \<and> cr \<notin> set l) (fence # ls @ [fence])"
    using assms by (simp add: list_all_iff fence_def)
  have o: "handle_line fence new_state = new_state\<lparr>st_fence := True\<rparr>" by code_simp
  have f: "fold handle_line ls (new_state\<lparr>st_fence := True\<rparr>) =
      put_lines (map (\<lambda>l. md_plain_line (''  '' @ l) ColBlue False False) ls) (new_state\<lparr>st_fence := True\<rparr>)"
    using assms by (intro fenced_lines) (simp_all add: list_all_iff new_state_def)
  let ?st = "put_lines (map (\<lambda>l. md_plain_line (''  '' @ l) ColBlue False False) ls) (new_state\<lparr>st_fence := True\<rparr>)"
  have c: "handle_line fence ?st = ?st\<lparr>st_fence := False\<rparr>"
    by (rule fence_line) (simp_all add: put_lines_def new_state_def)
  have "fold handle_line (fence # ls @ [fence]) new_state = ?st\<lparr>st_fence := False\<rparr>"
    by (simp only: fold_simps fold_append comp_def o f c)
  then show ?thesis
    unfolding render_lines[OF list.distinct(2) l] by (simp add: put_lines_def new_state_def finish_render_def)
qed

theorem fenced_code_is_verbatim_witness:
  "render_markdown (join_with NL [fence, ''# a|b'', ''*x*'', fence]) =
     [md_plain_line ''  # a|b'' ColBlue False False, md_plain_line ''  *x*'' ColBlue False False]"
proof -
  have "list_all (\<lambda>l. nl \<notin> set l \<and> cr \<notin> set l \<and> \<not> starts_with (trim_cell l) fence) [''# a|b'', ''*x*'']"
    by code_simp
  from fenced_code_is_verbatim[OF this] show ?thesis by simp
qed

text \<open>Line ends: carriage return and line feed are one.\<close>

lemma unify_crlf: "cr \<notin> set s \<Longrightarrow> unify_newlines (expand_nl s) = s"
  by (induction s) (auto simp: expand_nl_def)

lemma crlf_renders_alike: "cr \<notin> set s \<Longrightarrow> render_markdown (expand_nl s) = render_markdown s"
  by (simp add: render_markdown_def unify_crlf unify_plain)

section \<open>Divergences\<close>

text \<open>A cut cell is one column wider than its column: the ellipsis is added on top of the budget.\<close>

lemma cut_cell_is_too_wide:
  "spans_width (truncate_spans 3 0 [mk_span ''abcdef'' ColDefault False False False]) = 5"
  by code_simp

text \<open>An escaped pipe at the end of a row is taken for the closing one, and the last cell is lost.\<close>

lemma escaped_pipe_at_end_drops_cell: "fst (pipe_cells (''|a|b'' @ [CHR 0x5C] @ ''|'')) = [''a'']"
  by code_simp

text \<open>Markup inside backticks is still interpreted.\<close>

lemma code_spans_are_parsed: "map sp_text (inline_spans ''`a*b*`'') = [''a'', ''b'']"
  by code_simp

text \<open>A rule may mix its characters.\<close>

lemma mixed_rule: "is_rule ''-*_''"
  by code_simp

end
