(* ===== verification/Tool_Patch.thy ===== *)
theory Tool_Patch
  imports Tool_Edit
begin

text \<open>
  The \<open>apply_patch\<close> tool (\<open>src/tool/apply_patch.h\<close>): splitting and parsing a patch, the rewriting of
  one file, the preparation of every operation against an overlay, and the writing of what was
  prepared. A path names a file; two paths may name the same one.
\<close>

section \<open>Lines\<close>

definition drop_cr :: "string \<Rightarrow> string" where
  "drop_cr s = (if s \<noteq> [] \<and> last s = cr then butlast s else s)"

fun split_lines_from :: "string \<Rightarrow> string \<Rightarrow> string list" where
  "split_lines_from cur [] = (if cur = [] then [] else [drop_cr cur])"
| "split_lines_from cur (c # cs) =
     (if c = nl then drop_cr cur # split_lines_from [] cs else split_lines_from (cur @ [c]) cs)"

definition split_lines :: "string \<Rightarrow> string list" where
  "split_lines s = split_lines_from [] s"

abbreviation trim :: "string \<Rightarrow> string" where
  "trim \<equiv> trim_of [CHR '' '', tab, cr, nl]"

section \<open>The patch\<close>

datatype hunk_type = Add | Update | Delete

record hunk =
  hk_type :: hunk_type
  hk_path :: string
  hk_lines :: "string list"

record prepared =
  pr_type :: hunk_type
  pr_path :: string
  pr_content :: string

definition add_header :: string where "add_header = ''*** Add File: ''"
definition update_header :: string where "update_header = ''*** Update File: ''"
definition delete_header :: string where "delete_header = ''*** Delete File: ''"

definition parse_section_header :: "string \<Rightarrow> (hunk_type \<times> string) option" where
  "parse_section_header line =
     (if starts_with line add_header then Some (Add, drop (length add_header) line)
      else if starts_with line update_header then Some (Update, drop (length update_header) line)
      else if starts_with line delete_header then Some (Delete, drop (length delete_header) line)
      else None)"

text \<open>The loop's variables; the type is \<open>None\<close> outside a section.\<close>

record parse_state =
  ps_type :: "hunk_type option"
  ps_path :: string
  ps_lines :: "string list"
  ps_hunks :: "hunk list"

definition parse_start :: parse_state where
  "parse_start = \<lparr>ps_type = None, ps_path = [], ps_lines = [], ps_hunks = []\<rparr>"

definition type_name :: "hunk_type \<Rightarrow> string" where
  "type_name t = (case t of Add \<Rightarrow> ''add'' | Update \<Rightarrow> ''update'' | Delete \<Rightarrow> ''delete'')"

definition flush_section :: "parse_state \<Rightarrow> string + parse_state" where
  "flush_section st =
     (case ps_type st of
        None \<Rightarrow> Inr st
      | Some t \<Rightarrow>
          (case (if t = Add then find (\<lambda>l. l \<noteq> [] \<and> hd l \<noteq> CHR ''+'') (ps_lines st) else None) of
             Some l \<Rightarrow> Inl (''add section for '' @ ps_path st @ '' contains a line without '' @
                 [squote] @ ''+'' @ [squote] @ '' prefix: '' @ l)
           | None \<Rightarrow> Inr \<lparr>ps_type = None, ps_path = [], ps_lines = [],
               ps_hunks = ps_hunks st @ [\<lparr>hk_type = t, hk_path = ps_path st, hk_lines = ps_lines st\<rparr>]\<rparr>))"

definition parse_line :: "string \<Rightarrow> parse_state \<Rightarrow> string + parse_state" where
  "parse_line line st =
     (let trimmed = trim line in
      if trimmed = [] then
        Inr (if ps_type st \<noteq> None then st\<lparr>ps_lines := ps_lines st @ [line]\<rparr> else st)
      else if starts_with trimmed ''*** Begin Patch'' \<or> starts_with trimmed ''*** End Patch'' then
        flush_section st
      else if starts_with trimmed ''*** '' then
        (case parse_section_header trimmed of
           None \<Rightarrow> Inl (''unknown directive: '' @ trimmed)
         | Some (t, path) \<Rightarrow>
             (case flush_section st of
                Inl e \<Rightarrow> Inl e
              | Inr st' \<Rightarrow>
                  if path = [] then Inl (type_name t @ '' section with an empty path'')
                  else Inr (st'\<lparr>ps_type := Some t, ps_path := path\<rparr>)))
      else if ps_type st = None then Inl (''line outside of a patch section: '' @ trimmed)
      else Inr (st\<lparr>ps_lines := ps_lines st @ [line]\<rparr>))"

fun parse_lines :: "string list \<Rightarrow> parse_state \<Rightarrow> string + parse_state" where
  "parse_lines [] st = flush_section st"
| "parse_lines (l # ls) st =
     (case parse_line l st of Inl e \<Rightarrow> Inl e | Inr st' \<Rightarrow> parse_lines ls st')"

definition parse_patch :: "string \<Rightarrow> string + hunk list" where
  "parse_patch patch_text =
     (case parse_lines (split_lines patch_text) parse_start of
        Inl e \<Rightarrow> Inl e | Inr st \<Rightarrow> Inr (ps_hunks st))"

section \<open>One file\<close>

definition add_content :: "string list \<Rightarrow> string" where
  "add_content ls =
     (let c = join_with NL (map (\<lambda>l. if l = [] then [] else drop 1 l) ls)
      in if c \<noteq> [] \<and> last c \<noteq> nl then c @ NL else c)"

text \<open>Every index at which the block occurs, in order.\<close>

definition occurrences :: "string list \<Rightarrow> string list \<Rightarrow> nat list" where
  "occurrences ls block =
     (if length block > length ls then []
      else filter (\<lambda>i. take (length block) (drop i ls) = block) [0 ..< Suc (length ls - length block)])"

type_synonym group = "(char \<times> string) list"

fun update_groups :: "string \<Rightarrow> string list \<Rightarrow> group list \<Rightarrow> group \<Rightarrow> string + group list" where
  "update_groups path [] groups g =
     (let all = (if g = [] then groups else groups @ [g]) in
      if all = [] then Inl (''empty update section in '' @ path) else Inr all)"
| "update_groups path (raw # rest) groups g =
     (if raw = ''@@'' then
        (if g = [] then update_groups path rest groups []
         else update_groups path rest (groups @ [g]) [])
      else if raw = [] then update_groups path rest groups (g @ [(CHR '' '', [])])
      else if hd raw \<in> {CHR '' '', CHR ''-'', CHR ''+''} then
        update_groups path rest groups (g @ [(hd raw, tl raw)])
      else Inl (''malformed update line in '' @ path @ '': '' @ raw))"

definition old_lines :: "group \<Rightarrow> string list" where
  "old_lines g = map snd (filter (\<lambda>(m, t). m = CHR '' '' \<or> m = CHR ''-'') g)"

definition new_lines :: "group \<Rightarrow> string list" where
  "new_lines g = map snd (filter (\<lambda>(m, t). m = CHR '' '' \<or> m = CHR ''+'') g)"

definition apply_group :: "string \<Rightarrow> group \<Rightarrow> string list \<Rightarrow> string + string list" where
  "apply_group path g cur =
     (if old_lines g = [] then Inl (''update hunk in '' @ path @ '' has nothing to match'')
      else case occurrences cur (old_lines g) of
        [] \<Rightarrow> Inl (''update hunk in '' @ path @ '' does not match the file'')
      | [i] \<Rightarrow> Inr (take i cur @ new_lines g @ drop (i + length (old_lines g)) cur)
      | i # j # r \<Rightarrow> Inl (''update hunk in '' @ path @ '' matches multiple locations''))"

fun apply_groups :: "string \<Rightarrow> group list \<Rightarrow> string list \<Rightarrow> string + string list" where
  "apply_groups path [] cur = Inr cur"
| "apply_groups path (g # gs) cur =
     (case apply_group path g cur of Inl e \<Rightarrow> Inl e | Inr nxt \<Rightarrow> apply_groups path gs nxt)"

definition apply_updates :: "string \<Rightarrow> string list \<Rightarrow> string \<Rightarrow> string + string" where
  "apply_updates content raw_lines path =
     (case update_groups path raw_lines [] [] of
        Inl e \<Rightarrow> Inl e
      | Inr groups \<Rightarrow>
          (case apply_groups path groups (split_lines content) of
             Inl e \<Rightarrow> Inl e
           | Inr cur \<Rightarrow>
               Inr (join_with NL cur @ (if content \<noteq> [] \<and> last content = nl then NL else []))))"

section \<open>The file system\<close>

text \<open>
  \<open>pe_file\<close> is the file a path names, \<open>pe_readable\<close> and \<open>pe_open_ok\<close> whether it opens, \<open>pe_fails\<close> how
  many bytes a failing write leaves and whether the stream notices before it is closed,
  \<open>pe_remove_ok\<close> whether removing an existing file is allowed (\<open>std::filesystem::remove\<close> throws when
  it is not).
\<close>

record patch_env =
  pe_file :: "string \<Rightarrow> string"
  pe_readable :: "string \<Rightarrow> bool"
  pe_open_ok :: "string \<Rightarrow> bool"
  pe_fails :: "string \<Rightarrow> (nat \<times> bool) option"
  pe_remove_ok :: "string \<Rightarrow> bool"

definition read_file :: "patch_env \<Rightarrow> files \<Rightarrow> string \<Rightarrow> string option" where
  "read_file env fs path = (if pe_readable env path then fs (pe_file env path) else None)"

definition write_file :: "patch_env \<Rightarrow> string \<Rightarrow> string \<Rightarrow> files \<Rightarrow> bool \<times> files" where
  "write_file env path content fs =
     (if \<not> pe_open_ok env path then (False, fs)
      else (case pe_fails env path of
          None \<Rightarrow> (True, fs(pe_file env path \<mapsto> content))
        | Some (n, noticed) \<Rightarrow> (\<not> noticed, fs(pe_file env path \<mapsto> take n content))))"

definition remove_file :: "patch_env \<Rightarrow> string \<Rightarrow> files \<Rightarrow> bool outcome \<times> files" where
  "remove_file env path fs =
     (if fs (pe_file env path) = None then (Inr False, fs)
      else if pe_remove_ok env path then (Inr True, fs(pe_file env path := None))
      else (Inl (Thrown ''filesystem error: cannot remove''), fs))"

section \<open>Preparing and writing\<close>

text \<open>The overlay: what the prepared operations will have written and deleted.\<close>

record overlay =
  ov_content :: "(string, string) omap"
  ov_deleted :: "string set"

definition current_content :: "patch_env \<Rightarrow> files \<Rightarrow> overlay \<Rightarrow> string \<Rightarrow> string option" where
  "current_content env fs ov path =
     (case om_get (ov_content ov) path of
        Some c \<Rightarrow> Some c
      | None \<Rightarrow> if path \<in> ov_deleted ov then None else read_file env fs path)"

definition prepare_error :: "string \<Rightarrow> string \<Rightarrow> string" where
  "prepare_error path what = ''Error: Unable to apply patch at '' @ path @ '': '' @ what"

definition prepare_hunk :: "patch_env \<Rightarrow> files \<Rightarrow> hunk \<Rightarrow> overlay \<Rightarrow> string + (prepared \<times> overlay)" where
  "prepare_hunk env fs h ov =
     (let path = hk_path h; cur = current_content env fs ov path in
      case hk_type h of
        Add \<Rightarrow>
          (if cur \<noteq> None then Inl (prepare_error path ''file already exists'')
           else let c = add_content (hk_lines h) in
             Inr (\<lparr>pr_type = Add, pr_path = path, pr_content = c\<rparr>,
               ov\<lparr>ov_content := om_put path c (ov_content ov)\<rparr>))
      | Delete \<Rightarrow>
          (if cur = None then Inl (prepare_error path ''file not found'')
           else Inr (\<lparr>pr_type = Delete, pr_path = path, pr_content = []\<rparr>,
             ov\<lparr>ov_content := om_del path (ov_content ov), ov_deleted := insert path (ov_deleted ov)\<rparr>))
      | Update \<Rightarrow>
          (case cur of
             None \<Rightarrow> Inl (prepare_error path ''file not found'')
           | Some c \<Rightarrow>
               (case apply_updates c (hk_lines h) path of
                  Inl e \<Rightarrow> Inl (prepare_error path e)
                | Inr nxt \<Rightarrow> Inr (\<lparr>pr_type = Update, pr_path = path, pr_content = nxt\<rparr>,
                    ov\<lparr>ov_content := om_put path nxt (ov_content ov)\<rparr>))))"

fun prepare_all :: "patch_env \<Rightarrow> files \<Rightarrow> hunk list \<Rightarrow> overlay \<Rightarrow> string + prepared list" where
  "prepare_all env fs [] ov = Inr []"
| "prepare_all env fs (h # hs) ov =
     (case prepare_hunk env fs h ov of
        Inl e \<Rightarrow> Inl e
      | Inr (p, ov') \<Rightarrow>
          (case prepare_all env fs hs ov' of Inl e \<Rightarrow> Inl e | Inr ps \<Rightarrow> Inr (p # ps)))"

definition applied_line :: "prepared \<Rightarrow> string" where
  "applied_line p =
     (case pr_type p of Add \<Rightarrow> ''A '' | Update \<Rightarrow> ''M '' | Delete \<Rightarrow> ''D '') @ pr_path p"

definition write_prepared :: "patch_env \<Rightarrow> prepared \<Rightarrow> files \<Rightarrow> bool outcome \<times> files" where
  "write_prepared env p fs =
     (if pr_type p = Delete then remove_file env (pr_path p) fs
      else (let (ok, fs') = write_file env (pr_path p) (pr_content p) fs in (Inr ok, fs')))"

fun write_all :: "patch_env \<Rightarrow> prepared list \<Rightarrow> string list \<Rightarrow> files \<Rightarrow> string outcome \<times> files" where
  "write_all env [] applied fs =
     (Inr (''Applied patch sequentially:'' @ NL @ join_with NL applied), fs)"
| "write_all env (p # ps) applied fs =
     (case write_prepared env p fs of
        (Inl e, fs') \<Rightarrow> (Inl e, fs')
      | (Inr False, fs') \<Rightarrow>
          (Inr (''Error: Patch partially applied before failing at '' @ pr_path p @
             (if applied = [] then [] else ''. Applied: '' @ join_with '', '' applied)), fs')
      | (Inr True, fs') \<Rightarrow> write_all env ps (applied @ [applied_line p]) fs')"

definition apply_patch :: "patch_env \<Rightarrow> string \<Rightarrow> files \<Rightarrow> string outcome \<times> files" where
  "apply_patch env patch_text fs =
     (if patch_text = [] then (Inr ''Error: patch_text is required'', fs)
      else case parse_patch patch_text of
        Inl e \<Rightarrow> (Inr (''Error: apply_patch verification failed: '' @ e), fs)
      | Inr [] \<Rightarrow> (Inr ''Error: patch rejected: empty patch'', fs)
      | Inr (h # hs) \<Rightarrow>
          (case prepare_all env fs (h # hs) \<lparr>ov_content = [], ov_deleted = {}\<rparr> of
             Inl e \<Rightarrow> (Inr e, fs)
           | Inr ps \<Rightarrow> write_all env ps [] fs))"

definition apply_patch_execute :: "patch_env \<Rightarrow> json \<Rightarrow> files \<Rightarrow> string outcome \<times> files" where
  "apply_patch_execute env input fs =
     (case value_str input ''patch_text'' [] of
        Inl e \<Rightarrow> (Inl e, fs)
      | Inr patch_text \<Rightarrow> apply_patch env patch_text fs)"

section \<open>Splitting and printing lines\<close>

text \<open>A line as \<open>split_lines\<close> yields it: no newline, no carriage return at its end.\<close>

definition plain_line :: "string \<Rightarrow> bool" where
  "plain_line l \<longleftrightarrow> nl \<notin> set l \<and> drop_cr l = l"

definition print_lines :: "string list \<Rightarrow> string" where
  "print_lines ls = concat (map (\<lambda>l. l @ NL) ls)"

lemma print_lines_simps [simp]:
  "print_lines [] = []" "print_lines (l # ls) = l @ NL @ print_lines ls"
  "print_lines (xs @ ys) = print_lines xs @ print_lines ys"
  by (simp_all add: print_lines_def)

lemma split_lines_from_line:
  "nl \<notin> set l \<Longrightarrow> split_lines_from cur (l @ nl # r) = drop_cr (cur @ l) # split_lines_from [] r"
  by (induction l arbitrary: cur) auto

lemma split_print: "list_all plain_line ls \<Longrightarrow> split_lines (print_lines ls) = ls"
  unfolding split_lines_def
  by (induction ls) (auto simp: split_lines_from_line plain_line_def)

lemma split_lines_plain: "\<forall>l \<in> set (split_lines_from cur s). nl \<in> set l \<longrightarrow> nl \<in> set cur"
proof (induction cur s rule: split_lines_from.induct)
  case (1 cur)
  then show ?case by (auto simp: drop_cr_def dest: in_set_butlastD)
next
  case (2 cur c cs)
  then show ?case by (auto simp: drop_cr_def dest: in_set_butlastD)
qed

section \<open>Updates\<close>

lemma occurrences_iff:
  "i \<in> set (occurrences ls block) \<longleftrightarrow> (\<exists>pre post. ls = pre @ block @ post \<and> length pre = i)"
proof
  assume "i \<in> set (occurrences ls block)"
  then have i: "length block \<le> length ls" "i \<le> length ls - length block"
    and t: "take (length block) (drop i ls) = block"
    by (auto simp: occurrences_def split: if_splits)
  have "ls = take i ls @ block @ drop (length block) (drop i ls)"
    using t by (metis append_take_drop_id)
  moreover have "length (take i ls) = i" using i by simp
  ultimately show "\<exists>pre post. ls = pre @ block @ post \<and> length pre = i" by blast
next
  assume "\<exists>pre post. ls = pre @ block @ post \<and> length pre = i"
  then show "i \<in> set (occurrences ls block)" by (auto simp: occurrences_def)
qed

text \<open>One group rewrites the only place at which its old lines stand.\<close>

definition rewrites_at :: "group \<Rightarrow> string list \<Rightarrow> string list \<Rightarrow> bool" where
  "rewrites_at g cur nxt \<longleftrightarrow>
     (\<exists>pre post. cur = pre @ old_lines g @ post \<and> nxt = pre @ new_lines g @ post \<and>
        (\<forall>pre' post'. cur = pre' @ old_lines g @ post' \<longrightarrow> pre' = pre \<and> post' = post))"

lemma apply_group_rewrites:
  assumes "apply_group path g cur = Inr nxt"
  shows "rewrites_at g cur nxt"
proof -
  obtain i where o: "occurrences cur (old_lines g) = [i]"
    and n: "nxt = take i cur @ new_lines g @ drop (i + length (old_lines g)) cur"
    using assms by (auto simp: apply_group_def split: if_splits list.splits)
  from o have "i \<in> set (occurrences cur (old_lines g))" by simp
  then obtain pre post where c: "cur = pre @ old_lines g @ post" "length pre = i"
    using occurrences_iff by blast
  have only: "length pre' = i" if "cur = pre' @ old_lines g @ post'" for pre' post'
    using that occurrences_iff[of "length pre'" cur "old_lines g"] o by auto
  have "pre' = pre \<and> post' = post" if e: "cur = pre' @ old_lines g @ post'" for pre' post'
  proof -
    have "length pre' = length pre" using only[OF e] c(2) by simp
    with e c(1) show ?thesis by simp
  qed
  moreover have "nxt = pre @ new_lines g @ post" using n c by simp
  ultimately show ?thesis using c(1) unfolding rewrites_at_def by blast
qed

text \<open>The groups of an update in turn.\<close>

fun rewrites_all :: "group list \<Rightarrow> string list \<Rightarrow> string list \<Rightarrow> bool" where
  "rewrites_all [] cur nxt = (nxt = cur)"
| "rewrites_all (g # gs) cur nxt = (\<exists>mid. rewrites_at g cur mid \<and> rewrites_all gs mid nxt)"

lemma apply_groups_rewrites: "apply_groups path gs cur = Inr nxt \<Longrightarrow> rewrites_all gs cur nxt"
proof (induction gs arbitrary: cur)
  case (Cons g gs)
  then obtain mid where m: "apply_group path g cur = Inr mid" "apply_groups path gs mid = Inr nxt"
    by (auto split: sum.splits)
  then show ?case using Cons.IH apply_group_rewrites[OF m(1)] by auto
qed simp

section \<open>Preparation simulates the operations\<close>

text \<open>The specification: each operation at once on the files, stopping at the first error.\<close>

definition seq_hunk :: "patch_env \<Rightarrow> hunk \<Rightarrow> files \<Rightarrow> string + files" where
  "seq_hunk env h fs =
     (let path = hk_path h; file = pe_file env path in
      case hk_type h of
        Add \<Rightarrow> (if fs file \<noteq> None then Inl (prepare_error path ''file already exists'')
          else Inr (fs(file \<mapsto> add_content (hk_lines h))))
      | Delete \<Rightarrow> (if fs file = None then Inl (prepare_error path ''file not found'')
          else Inr (fs(file := None)))
      | Update \<Rightarrow>
          (case fs file of None \<Rightarrow> Inl (prepare_error path ''file not found'')
           | Some c \<Rightarrow>
               (case apply_updates c (hk_lines h) path of
                  Inl e \<Rightarrow> Inl (prepare_error path e) | Inr nxt \<Rightarrow> Inr (fs(file \<mapsto> nxt)))))"

fun seq_apply :: "patch_env \<Rightarrow> hunk list \<Rightarrow> files \<Rightarrow> string + files" where
  "seq_apply env [] fs = Inr fs"
| "seq_apply env (h # hs) fs =
     (case seq_hunk env h fs of Inl e \<Rightarrow> Inl e | Inr fs' \<Rightarrow> seq_apply env hs fs')"

text \<open>The environment raises no failure on the paths, which name different files.\<close>

definition smooth :: "patch_env \<Rightarrow> string set \<Rightarrow> bool" where
  "smooth env P \<longleftrightarrow> inj_on (pe_file env) P \<and>
     (\<forall>p \<in> P. pe_readable env p \<and> pe_open_ok env p \<and> pe_fails env p = None \<and> pe_remove_ok env p)"

definition overlay_view :: "patch_env \<Rightarrow> string set \<Rightarrow> files \<Rightarrow> overlay \<Rightarrow> files \<Rightarrow> bool" where
  "overlay_view env P fs0 ov fs \<longleftrightarrow>
     (\<forall>p \<in> P. fs (pe_file env p) = current_content env fs0 ov p)"

definition hunk_line :: "hunk \<Rightarrow> string" where
  "hunk_line h =
     (case hk_type h of Add \<Rightarrow> ''A '' | Update \<Rightarrow> ''M '' | Delete \<Rightarrow> ''D '') @ hk_path h"

lemma smooth_file_eq:
  "smooth env P \<Longrightarrow> p \<in> P \<Longrightarrow> q \<in> P \<Longrightarrow> pe_file env p = pe_file env q \<longleftrightarrow> p = q"
  by (auto simp: smooth_def dest: inj_onD)

text \<open>One operation: prepared against the overlay and written, it does what it does at once.\<close>

lemma prepare_step:
  assumes "smooth env P" "overlay_view env P fs0 ov fs" "hk_path h \<in> P"
  shows "case prepare_hunk env fs0 h ov of
      Inl e \<Rightarrow> seq_hunk env h fs = Inl e
    | Inr (p, ov') \<Rightarrow> (\<exists>fs'. seq_hunk env h fs = Inr fs' \<and> write_prepared env p fs = (Inr True, fs') \<and>
        overlay_view env P fs0 ov' fs' \<and> applied_line p = hunk_line h)"
proof -
  let ?p = "hk_path h"
  have cur: "fs (pe_file env ?p) = current_content env fs0 ov ?p"
    using assms(2,3) by (simp add: overlay_view_def)
  have ok: "pe_open_ok env ?p" "pe_fails env ?p = None" "pe_remove_ok env ?p"
    using assms(1,3) by (auto simp: smooth_def)
  have put: "overlay_view env P fs0 (ov\<lparr>ov_content := om_put ?p c (ov_content ov)\<rparr>) (fs(pe_file env ?p \<mapsto> c))" for c
    using assms smooth_file_eq[OF assms(1) _ assms(3)]
    by (auto simp: overlay_view_def current_content_def om_get_put)
  have del: "overlay_view env P fs0
      (ov\<lparr>ov_content := om_del ?p (ov_content ov), ov_deleted := insert ?p (ov_deleted ov)\<rparr>) (fs(pe_file env ?p := None))"
    using assms smooth_file_eq[OF assms(1) _ assms(3)]
    by (auto simp: overlay_view_def current_content_def om_get_del)
  note defs = prepare_hunk_def seq_hunk_def Let_def write_prepared_def write_file_def remove_file_def
    applied_line_def hunk_line_def
  show ?thesis
  proof (cases "hk_type h")
    case Add
    then show ?thesis using cur ok put by (simp add: defs)
  next
    case Update
    show ?thesis
    proof (cases "current_content env fs0 ov ?p")
      case None
      then show ?thesis using Update cur by (simp add: defs)
    next
      case (Some c)
      then show ?thesis using Update cur ok put by (cases "apply_updates c (hk_lines h) ?p") (simp_all add: defs)
    qed
  next
    case Delete
    then show ?thesis using cur ok del by (simp add: defs)
  qed
qed

lemma prepare_all_simulates:
  assumes "smooth env P"
  shows "overlay_view env P fs0 ov fs \<Longrightarrow> hk_path ` set hs \<subseteq> P \<Longrightarrow>
    (case prepare_all env fs0 hs ov of
       Inl e \<Rightarrow> seq_apply env hs fs = Inl e
     | Inr ps \<Rightarrow> (\<exists>fs'. seq_apply env hs fs = Inr fs' \<and>
         write_all env ps applied fs =
           (Inr (''Applied patch sequentially:'' @ NL @ join_with NL (applied @ map hunk_line hs)), fs')))"
proof (induction hs arbitrary: ov fs applied)
  case (Cons h hs)
  from Cons.prems have hp: "hk_path h \<in> P" "hk_path ` set hs \<subseteq> P" by auto
  show ?case
  proof (cases "prepare_hunk env fs0 h ov")
    case (Inl e)
    then show ?thesis using prepare_step[OF assms Cons.prems(1) hp(1)] by simp
  next
    case (Inr r)
    obtain p ov' where r: "r = (p, ov')" by (cases r)
    from prepare_step[OF assms Cons.prems(1) hp(1)] Inr r obtain fs1 where
      s: "seq_hunk env h fs = Inr fs1" "write_prepared env p fs = (Inr True, fs1)"
        "overlay_view env P fs0 ov' fs1" "applied_line p = hunk_line h" by auto
    show ?thesis
      using Cons.IH[OF s(3) hp(2), of "applied @ [hunk_line h]"] s(1,2,4) Inr r
      by (auto split: sum.splits)
  qed
qed simp

lemma prepare_start: "smooth env P \<Longrightarrow> overlay_view env P fs \<lparr>ov_content = [], ov_deleted = {}\<rparr> fs"
  by (simp add: overlay_view_def current_content_def read_file_def smooth_def)

section \<open>Printing a patch\<close>

definition header_of :: "hunk_type \<Rightarrow> string" where
  "header_of t = (case t of Add \<Rightarrow> add_header | Update \<Rightarrow> update_header | Delete \<Rightarrow> delete_header)"

definition print_patch :: "hunk list \<Rightarrow> string" where
  "print_patch hs =
     print_lines (concat (map (\<lambda>h. (header_of (hk_type h) @ hk_path h) # hk_lines h) hs))"

text \<open>A line that stands for itself: nothing that reads as a directive.\<close>

definition body_line :: "string \<Rightarrow> bool" where
  "body_line l \<longleftrightarrow> plain_line l \<and> \<not> starts_with (trim l) ''*** ''"

definition printable :: "hunk \<Rightarrow> bool" where
  "printable h \<longleftrightarrow> hk_path h \<noteq> [] \<and> nl \<notin> set (hk_path h) \<and> last (hk_path h) \<notin> {CHR '' '', tab, cr} \<and>
     list_all body_line (hk_lines h) \<and>
     (hk_type h = Add \<longrightarrow> list_all (\<lambda>l. l = [] \<or> hd l = CHR ''+'') (hk_lines h))"

lemma marker_prefix: "starts_with l ''*** Begin Patch'' \<or> starts_with l ''*** End Patch'' \<Longrightarrow> starts_with l ''*** ''"
  by (auto simp: starts_with_def prefix_def)

lemma parse_body_line:
  "body_line l \<Longrightarrow> ps_type st \<noteq> None \<Longrightarrow> parse_line l st = Inr (st\<lparr>ps_lines := ps_lines st @ [l]\<rparr>)"
  using marker_prefix[of "trim l"] by (auto simp: parse_line_def Let_def body_line_def)

lemma parse_body:
  "list_all body_line ls \<Longrightarrow> ps_type st \<noteq> None \<Longrightarrow>
   parse_lines (ls @ rest) st = parse_lines rest (st\<lparr>ps_lines := ps_lines st @ ls\<rparr>)"
  by (induction ls arbitrary: st) (auto simp: parse_body_line)

lemma header_line:
  assumes "printable h"
  shows "trim (header_of (hk_type h) @ hk_path h) = header_of (hk_type h) @ hk_path h"
    and "parse_section_header (header_of (hk_type h) @ hk_path h) = Some (hk_type h, hk_path h)"
    and "starts_with (header_of (hk_type h) @ hk_path h) ''*** ''"
    and "\<not> starts_with (header_of (hk_type h) @ hk_path h) ''*** Begin Patch''"
    and "\<not> starts_with (header_of (hk_type h) @ hk_path h) ''*** End Patch''"
    and "plain_line (header_of (hk_type h) @ hk_path h)"
proof -
  let ?l = "header_of (hk_type h) @ hk_path h"
  note hs = header_of_def add_header_def update_header_def delete_header_def
  have p: "hk_path h \<noteq> []" "nl \<notin> set (hk_path h)" "last (hk_path h) \<notin> {CHR '' '', tab, cr}"
    using assms by (auto simp: printable_def)
  then have l: "last ?l \<notin> set [CHR '' '', tab, cr, nl]" using last_in_set[OF p(1)]
    by (metis empty_iff insert_iff last_appendR list.set(1) list.simps(15))
  have h: "hd ?l = CHR ''*''" by (simp add: hs split: hunk_type.splits)
  show "trim ?l = ?l" using p(1) h l by (intro trim_of_id) auto
  show "parse_section_header ?l = Some (hk_type h, hk_path h)" "starts_with ?l ''*** ''"
    "\<not> starts_with ?l ''*** Begin Patch''" "\<not> starts_with ?l ''*** End Patch''"
    by (auto simp: parse_section_header_def starts_with_def hs prefix_def split: hunk_type.splits)
  show "plain_line ?l" using p l by (auto simp: plain_line_def drop_cr_def hs split: hunk_type.splits)
qed

text \<open>Flushing closes an open section whose lines suit its type.\<close>

definition section_ok :: "parse_state \<Rightarrow> bool" where
  "section_ok st \<longleftrightarrow> ps_type st = Some Add \<longrightarrow> list_all (\<lambda>l. l = [] \<or> hd l = CHR ''+'') (ps_lines st)"

definition open_hunk :: "parse_state \<Rightarrow> hunk list" where
  "open_hunk st = (case ps_type st of None \<Rightarrow> []
     | Some t \<Rightarrow> [\<lparr>hk_type = t, hk_path = ps_path st, hk_lines = ps_lines st\<rparr>])"

lemma flush_ok:
  assumes "section_ok st" "ps_type st = None \<longrightarrow> ps_path st = [] \<and> ps_lines st = []"
  shows "flush_section st =
    Inr \<lparr>ps_type = None, ps_path = [], ps_lines = [], ps_hunks = ps_hunks st @ open_hunk st\<rparr>"
proof (cases "ps_type st")
  case None
  with assms(2) show ?thesis by (cases st) (simp add: flush_section_def open_hunk_def)
next
  case (Some t)
  have "t = Add \<Longrightarrow> find (\<lambda>l. l \<noteq> [] \<and> hd l \<noteq> CHR ''+'') (ps_lines st) = None"
    using assms(1) Some by (auto simp: section_ok_def find_None_iff list_all_iff)
  with Some show ?thesis by (simp add: flush_section_def open_hunk_def)
qed

lemma parse_hunk_lines:
  assumes "printable h" "section_ok st" "ps_type st = None \<longrightarrow> ps_path st = [] \<and> ps_lines st = []"
  shows "parse_lines (((header_of (hk_type h) @ hk_path h) # hk_lines h) @ rest) st =
    parse_lines rest \<lparr>ps_type = Some (hk_type h), ps_path = hk_path h, ps_lines = hk_lines h,
      ps_hunks = ps_hunks st @ open_hunk st\<rparr>"
proof -
  let ?l = "header_of (hk_type h) @ hk_path h"
  have ne: "?l \<noteq> []" "hk_path h \<noteq> []" using assms(1) by (auto simp: printable_def)
  have "parse_line ?l st = Inr \<lparr>ps_type = Some (hk_type h), ps_path = hk_path h, ps_lines = [],
      ps_hunks = ps_hunks st @ open_hunk st\<rparr>"
    unfolding parse_line_def header_line(1)[OF assms(1)] Let_def header_line(2)[OF assms(1)]
      flush_ok[OF assms(2,3)]
    using ne header_line(3-5)[OF assms(1)] by simp
  moreover have "list_all body_line (hk_lines h)" using assms(1) by (simp add: printable_def)
  ultimately show ?thesis by (simp add: parse_body)
qed

lemma parse_printed:
  assumes "list_all printable hs" "section_ok st"
    "ps_type st = None \<longrightarrow> ps_path st = [] \<and> ps_lines st = []"
  shows "\<exists>st'. parse_lines (concat (map (\<lambda>h. (header_of (hk_type h) @ hk_path h) # hk_lines h) hs)) st = Inr st' \<and>
    ps_hunks st' = ps_hunks st @ open_hunk st @ hs"
  using assms
proof (induction hs arbitrary: st)
  case Nil
  then show ?case by (simp add: flush_ok)
next
  case (Cons h hs)
  let ?st = "\<lparr>ps_type = Some (hk_type h), ps_path = hk_path h, ps_lines = hk_lines h,
      ps_hunks = ps_hunks st @ open_hunk st\<rparr>"
  have h: "printable h" and ok: "section_ok ?st"
    using Cons.prems(1) by (auto simp: section_ok_def printable_def)
  have "open_hunk ?st = [h]" by (simp add: open_hunk_def)
  with Cons.IH[OF _ ok] Cons.prems(1) show ?case
    using parse_hunk_lines[OF h Cons.prems(2,3)] by simp
qed

section \<open>Footprint\<close>

lemma write_prepared_footprint:
  "write_prepared env p fs = (r, fs') \<Longrightarrow> f \<noteq> pe_file env (pr_path p) \<Longrightarrow> fs' f = fs f"
  by (auto simp: write_prepared_def remove_file_def write_file_def split: if_splits option.splits)

lemma write_all_footprint:
  "write_all env ps applied fs = (r, fs') \<Longrightarrow> fs' f \<noteq> fs f \<Longrightarrow> \<exists>p \<in> set ps. pe_file env (pr_path p) = f"
proof (induction ps arbitrary: applied fs)
  case (Cons p ps)
  obtain q fs1 where w: "write_prepared env p fs = (q, fs1)" by (cases "write_prepared env p fs")
  show ?case
  proof (cases "pe_file env (pr_path p) = f")
    case False
    then have same: "fs1 f = fs f" using write_prepared_footprint[OF w] by auto
    with Cons.prems w have "write_all env ps (applied @ [applied_line p]) fs1 = (r, fs')"
      by (auto split: sum.splits bool.splits)
    from Cons.IH[OF this] same Cons.prems(2) show ?thesis by auto
  qed auto
qed simp

lemma prepare_all_paths:
  "prepare_all env fs hs ov = Inr ps \<Longrightarrow> map pr_path ps = map hk_path hs"
proof (induction hs arbitrary: ov ps)
  case (Cons h hs)
  obtain p ov' qs where p: "prepare_hunk env fs h ov = Inr (p, ov')" "prepare_all env fs hs ov' = Inr qs" "ps = p # qs"
    using Cons.prems by (auto split: sum.splits)
  have "pr_path p = hk_path h"
    using p(1) by (auto simp: prepare_hunk_def Let_def split: hunk_type.splits option.splits sum.splits if_splits)
  with Cons.IH[OF p(2)] p(3) show ?case by simp
qed simp

section \<open>Properties\<close>

text \<open>C19: when nothing fails outside and the paths of a patch name different files, applying it is
  all or nothing and has the effect of its operations one after the other: if every operation
  succeeds where it stands, the files are what they leave and each is listed; otherwise the
  first error is reported and no file is changed.\<close>

theorem patch_is_sequential:
  assumes "parse_patch patch_text = Inr hs" "hs \<noteq> []" "smooth env (hk_path ` set hs)"
  shows "apply_patch env patch_text fs =
    (case seq_apply env hs fs of
       Inl e \<Rightarrow> (Inr e, fs)
     | Inr fs' \<Rightarrow> (Inr (''Applied patch sequentially:'' @ NL @ join_with NL (map hunk_line hs)), fs'))"
proof -
  have "patch_text \<noteq> []"
    using assms(1,2) by (auto simp: parse_patch_def split_lines_def parse_start_def flush_section_def)
  moreover obtain h t where ht: "hs = h # t" using assms(2) by (cases hs) auto
  ultimately have a: "apply_patch env patch_text fs =
      (case prepare_all env fs hs \<lparr>ov_content = [], ov_deleted = {}\<rparr> of
         Inl e \<Rightarrow> (Inr e, fs) | Inr ps \<Rightarrow> write_all env ps [] fs)"
    using assms(1) by (simp only: apply_patch_def if_False sum.case list.case)
  show ?thesis
    using prepare_all_simulates[OF assms(3) prepare_start[OF assms(3)] subset_refl, of fs "[]"]
    unfolding a by (cases "prepare_all env fs hs \<lparr>ov_content = [], ov_deleted = {}\<rparr>")
      (auto simp del: write_all.simps)
qed

text \<open>C22: whatever fails outside, a file that \<open>apply_patch\<close> changes is named by an operation of a
  patch that parsed and whose operations were all prepared without error; a patch that is
  rejected changes nothing.\<close>

theorem patch_footprint:
  assumes "apply_patch env patch_text fs = (r, fs')" "fs' f \<noteq> fs f"
  shows "\<exists>hs ps. parse_patch patch_text = Inr hs \<and>
    prepare_all env fs hs \<lparr>ov_content = [], ov_deleted = {}\<rparr> = Inr ps \<and>
    (\<exists>h \<in> set hs. pe_file env (hk_path h) = f)"
proof -
  obtain h t ps where p: "parse_patch patch_text = Inr (h # t)"
    and q: "prepare_all env fs (h # t) \<lparr>ov_content = [], ov_deleted = {}\<rparr> = Inr ps"
    and w: "write_all env ps [] fs = (r, fs')"
    using assms by (auto simp del: prepare_all.simps simp: apply_patch_def split: if_splits sum.splits list.splits)
  from write_all_footprint[OF w assms(2)] obtain x where x: "x \<in> set ps" "pe_file env (pr_path x) = f" by blast
  then have "pr_path x \<in> set (map hk_path (h # t))" using prepare_all_paths[OF q] by (metis image_eqI set_map)
  with x(2) p q show ?thesis by (metis (no_types, lifting) image_iff set_map)
qed

text \<open>C21: an update that succeeds rewrites the file's lines group by group: each group's old lines
  (context and removed) stand at exactly one place of the text so far, and only they are replaced,
  by its new lines (context and added); the final newline is kept.\<close>

theorem update_rewrites_unique_blocks:
  assumes "apply_updates content raw_lines path = Inr out"
  shows "\<exists>groups nxt. update_groups path raw_lines [] [] = Inr groups \<and> groups \<noteq> [] \<and>
    rewrites_all groups (split_lines content) nxt \<and>
    out = join_with NL nxt @ (if content \<noteq> [] \<and> last content = nl then NL else [])"
proof -
  obtain groups nxt where g: "update_groups path raw_lines [] [] = Inr groups"
    "apply_groups path groups (split_lines content) = Inr nxt"
    "out = join_with NL nxt @ (if content \<noteq> [] \<and> last content = nl then NL else [])"
    using assms by (auto simp: apply_updates_def split: sum.splits)
  have "update_groups path ls gs g = Inr r \<Longrightarrow> r \<noteq> []" for ls gs g r
    by (induction path ls gs g rule: update_groups.induct) (auto simp: Let_def split: if_splits)
  with g apply_groups_rewrites[OF g(2)] show ?thesis by blast
qed

text \<open>C20: a patch printed from its operations parses back to them, provided that no line of theirs
  reads as a directive, every line of an added file has its plus sign, and the paths are neither
  empty nor end in white space.\<close>

theorem patch_parse_print:
  assumes "list_all printable hs"
  shows "parse_patch (print_patch hs) = Inr hs"
proof -
  let ?ls = "concat (map (\<lambda>h. (header_of (hk_type h) @ hk_path h) # hk_lines h) hs)"
  have "list_all plain_line ?ls"
    using assms header_line(6)
    by (induction hs) (auto simp: printable_def body_line_def list_all_iff)
  then have "split_lines (print_patch hs) = ?ls" by (simp add: print_patch_def split_print)
  moreover obtain st' where "parse_lines ?ls parse_start = Inr st'"
    "ps_hunks st' = ps_hunks parse_start @ open_hunk parse_start @ hs"
    using parse_printed[OF assms, of parse_start] by (auto simp: section_ok_def parse_start_def)
  ultimately show ?thesis by (simp add: parse_patch_def parse_start_def open_hunk_def)
qed

section \<open>Witnesses\<close>

definition demo_patch :: "hunk list" where
  "demo_patch =
     [\<lparr>hk_type = Add, hk_path = ''n'', hk_lines = [''+hello'', [], ''+world'']\<rparr>,
      \<lparr>hk_type = Update, hk_path = ''a'', hk_lines = [''@@'', '' x'', ''-y'', ''+z'']\<rparr>,
      \<lparr>hk_type = Delete, hk_path = ''b'', hk_lines = []\<rparr>]"

definition plain_env :: patch_env where
  "plain_env = \<lparr>pe_file = (\<lambda>p. p), pe_readable = (\<lambda>_. True), pe_open_ok = (\<lambda>_. True),
     pe_fails = (\<lambda>_. None), pe_remove_ok = (\<lambda>_. True)\<rparr>"

definition patch_files :: files where
  "patch_files = [''a'' \<mapsto> ''x'' @ NL @ ''y'' @ NL, ''b'' \<mapsto> ''gone'']"

lemma patch_parse_print_witness:
  "list_all printable demo_patch \<and> parse_patch (print_patch demo_patch) = Inr demo_patch"
proof -
  have p: "list_all printable demo_patch" by code_simp
  from p patch_parse_print[OF p] show ?thesis by simp
qed

lemma plain_env_smooth: "smooth plain_env P"
  by (simp add: smooth_def plain_env_def)

lemma patch_is_sequential_witness:
  "\<exists>fs'. apply_patch plain_env (print_patch demo_patch) patch_files =
      (Inr (''Applied patch sequentially:'' @ NL @ join_with NL (map hunk_line demo_patch)), fs') \<and>
    fs' ''a'' = Some (''x'' @ NL @ ''z'' @ NL) \<and> fs' ''b'' = None \<and>
    fs' ''n'' = Some (''hello'' @ NL @ NL @ ''world'' @ NL)"
proof -
  have p: "parse_patch (print_patch demo_patch) = Inr demo_patch" by code_simp
  have n: "demo_patch \<noteq> []" by (simp add: demo_patch_def)
  have "case seq_apply plain_env demo_patch patch_files of Inl e \<Rightarrow> False
    | Inr fs' \<Rightarrow> fs' ''a'' = Some (''x'' @ NL @ ''z'' @ NL) \<and> fs' ''b'' = None \<and>
      fs' ''n'' = Some (''hello'' @ NL @ NL @ ''world'' @ NL)" by code_simp
  then obtain fs' where "seq_apply plain_env demo_patch patch_files = Inr fs'"
    "fs' ''a'' = Some (''x'' @ NL @ ''z'' @ NL) \<and> fs' ''b'' = None \<and>
      fs' ''n'' = Some (''hello'' @ NL @ NL @ ''world'' @ NL)" by (auto split: sum.splits)
  with patch_is_sequential[OF p n plain_env_smooth, of patch_files] show ?thesis by auto
qed

lemma patch_footprint_witness:
  "\<exists>hs. parse_patch (print_patch demo_patch) = Inr hs \<and>
    (\<exists>h \<in> set hs. pe_file (plain_env\<lparr>pe_fails := (\<lambda>p. if p = ''a'' then Some (1, True) else None)\<rparr>) (hk_path h) = ''a'')"
proof -
  let ?e = "plain_env\<lparr>pe_fails := (\<lambda>p. if p = ''a'' then Some (1, True) else None)\<rparr>"
  let ?r = "apply_patch ?e (print_patch demo_patch) patch_files"
  have r: "?r = (fst ?r, snd ?r)" by simp
  have d: "snd ?r ''a'' \<noteq> patch_files ''a''" by code_simp
  from patch_footprint[OF r d] show ?thesis by blast
qed

lemma update_rewrites_unique_blocks_witness:
  "\<exists>groups nxt. update_groups ''a'' ['' x'', ''-y'', ''@@'', ''-q'', ''+r''] [] [] = Inr groups \<and> groups \<noteq> [] \<and>
    rewrites_all groups (split_lines (''x'' @ NL @ ''y'' @ NL @ ''q'')) nxt \<and>
    ''x'' @ NL @ ''r'' = join_with NL nxt @
      (if ''x'' @ NL @ ''y'' @ NL @ ''q'' \<noteq> [] \<and> last (''x'' @ NL @ ''y'' @ NL @ ''q'') = nl then NL else [])"
  by (rule update_rewrites_unique_blocks) code_simp

section \<open>Divergences\<close>

text \<open>A blank line makes an empty line of an added file, but not at its end.\<close>

lemma trailing_blank_line_is_lost: "add_content [''+a'', []] = add_content [''+a'']"
  by code_simp

text \<open>A context line of the file that starts with three stars cannot be given.\<close>

lemma starred_context_is_a_directive:
  "parse_patch (''*** Update File: a'' @ NL @ '' *** note'' @ NL @ ''-x'' @ NL) =
     Inl ''unknown directive: *** note''"
  by code_simp

text \<open>Validation goes by the spelling of the path: deleting a file under two names is accepted, and
  fails after the first deletion.\<close>

lemma aliases_pass_validation:
  "fst (apply_patch (plain_env\<lparr>pe_file := (\<lambda>p. if p = ''./b'' then ''b'' else p)\<rparr>)
     (''*** Delete File: b'' @ NL @ ''*** Delete File: ./b'' @ NL) patch_files) =
   Inr ''Error: Patch partially applied before failing at ./b. Applied: D b''"
  by code_simp

end
