(* ===== verification/Tool_Read.thy ===== *)
theory Tool_Read
  imports Utf8 Tool_Patch
begin

text \<open>
  The \<open>read\<close> tool (\<open>src/tool/read.h\<close>): binary detection, whole files, pages of large files read in
  chunks, and directory listings. Splitting a file into rows is what \<open>split_lines\<close> of the patch tool
  computes; the chunk boundaries are the reader's own.
\<close>

section \<open>Limits\<close>

definition kMaxReadLines :: nat where "kMaxReadLines = 2000"
definition kMaxReadBytes :: nat where "kMaxReadBytes = 51200"
definition kMaxLineLength :: nat where "kMaxLineLength = 2000"
definition kReadChunk :: nat where "kReadChunk = 65536"

section \<open>Binary files\<close>

definition lower_char :: "char \<Rightarrow> char" where
  "lower_char c = (if 65 \<le> byte c \<and> byte c \<le> 90 then char_of (byte c + 32) else c)"

definition lowercase :: "string \<Rightarrow> string" where
  "lowercase s = map lower_char s"

definition binary_extensions :: "string list" where
  "binary_extensions =
     [''.zip'', ''.tar'', ''.gz'', ''.exe'', ''.dll'', ''.so'', ''.class'', ''.jar'', ''.war'', ''.7z'',
      ''.doc'', ''.docx'', ''.xls'', ''.xlsx'', ''.ppt'', ''.pptx'', ''.odt'', ''.ods'', ''.odp'',
      ''.bin'', ''.dat'', ''.obj'', ''.o'', ''.a'', ''.lib'', ''.wasm'', ''.pyc'', ''.pyo'']"

text \<open>From the last dot on, unless a slash follows it.\<close>

definition extension_of :: "string \<Rightarrow> string" where
  "extension_of path =
     (let r = takeWhile (\<lambda>c. c \<noteq> CHR ''.'') (rev path) in
      if CHR ''.'' \<notin> set path \<or> CHR ''/'' \<in> set r then [] else lowercase (CHR ''.'' # rev r))"

definition binary_extension :: "string \<Rightarrow> bool" where
  "binary_extension ext \<longleftrightarrow> ext \<in> set binary_extensions"

definition starts_with_bytes :: "string \<Rightarrow> nat list \<Rightarrow> bool" where
  "starts_with_bytes s bs \<longleftrightarrow> length bs \<le> length s \<and> map byte (take (length bs) s) = bs"

text \<open>The WEBP test takes \<open>substr(8)\<close>, which throws on fewer than eight bytes.\<close>

definition binary_magic :: "string \<Rightarrow> bool outcome" where
  "binary_magic bytes =
     (if starts_with_bytes bytes [0x89, 0x50, 0x4E, 0x47, 0x0D, 0x0A, 0x1A, 0x0A] then Inr True
      else if starts_with_bytes bytes [0xFF, 0xD8, 0xFF] then Inr True
      else if starts_with_bytes bytes [0x47, 0x49, 0x46, 0x38] then Inr True
      else if starts_with_bytes bytes [0x52, 0x49, 0x46, 0x46] \<and> length bytes < 8 then
        Inl (Thrown ''basic_string::substr'')
      else if starts_with_bytes bytes [0x52, 0x49, 0x46, 0x46] \<and>
        starts_with_bytes (drop 8 bytes) [0x57, 0x45, 0x42, 0x50] then Inr True
      else if starts_with_bytes bytes [0x25, 0x50, 0x44, 0x46] then Inr True
      else Inr False)"

definition non_printable :: "char \<Rightarrow> bool" where
  "non_printable c \<longleftrightarrow> byte c < 9 \<or> 13 < byte c \<and> byte c < 32"

text \<open>The quotient exceeds 0.3 (in double precision) exactly when ten times the count exceeds three
  times the size.\<close>

definition binary_detect :: "string \<Rightarrow> bool" where
  "binary_detect bytes \<longleftrightarrow> bytes \<noteq> [] \<and>
     ((\<exists>c \<in> set bytes. byte c = 0) \<or> 10 * length (filter non_printable bytes) > 3 * length bytes)"

section \<open>Pages\<close>

record page =
  pg_lines :: "string list"
  pg_line :: nat
  pg_bytes :: nat
  pg_next :: nat

record reader =
  rd_page :: page
  rd_pending :: string
  rd_long :: bool

datatype paging = Ongoing reader | Finished reader | Failed string

definition line_suffix :: string where
  "line_suffix = ''... (line truncated to '' @ nat_str kMaxLineLength @ '' chars)''"

definition page_full :: "nat \<Rightarrow> page \<Rightarrow> bool" where
  "page_full limit pg \<longleftrightarrow> limit \<le> length (pg_lines pg) \<or> kMaxReadBytes \<le> pg_bytes pg"

definition append_line :: "nat \<Rightarrow> nat \<Rightarrow> string \<Rightarrow> bool \<Rightarrow> page \<Rightarrow> bool \<times> page" where
  "append_line offset limit input force_suffix pg =
     (if pg_line pg < offset then (True, pg\<lparr>pg_line := Suc (pg_line pg)\<rparr>)
      else if page_full limit pg then (False, pg\<lparr>pg_next := pg_line pg\<rparr>)
      else let t = (if kMaxLineLength < length input \<or> force_suffix
                    then truncate_utf8 input kMaxLineLength @ line_suffix else input);
               cost = length t + (if pg_lines pg = [] then 0 else 1)
           in if kMaxReadBytes < pg_bytes pg + cost then (False, pg\<lparr>pg_next := pg_line pg\<rparr>)
              else (True, pg\<lparr>pg_lines := pg_lines pg @ [t], pg_bytes := pg_bytes pg + cost,
                pg_line := Suc (pg_line pg)\<rparr>))"

definition invalid_utf8_text :: "string \<Rightarrow> string" where
  "invalid_utf8_text path = ''Error: File is not valid UTF-8: '' @ path"

definition binary_text :: "string \<Rightarrow> string" where
  "binary_text path = ''Error: Cannot read binary file: '' @ path"

text \<open>A segment ends with a newline and completes a line, or is the newline-free rest of a chunk.\<close>

definition consume_segment :: "string \<Rightarrow> nat \<Rightarrow> nat \<Rightarrow> string \<Rightarrow> reader \<Rightarrow> paging" where
  "consume_segment path offset limit segment rd =
     (if segment \<noteq> [] \<and> last segment = nl then
        (let current = drop_cr (rd_pending rd @ butlast segment) in
         if \<not> utf8_valid current then Failed (invalid_utf8_text path)
         else (let (ok, pg) = append_line offset limit current (rd_long rd) (rd_page rd);
                   rd' = rd\<lparr>rd_page := pg, rd_pending := [], rd_long := False\<rparr>
               in if ok then Ongoing rd' else Finished rd'))
      else if rd_long rd then Ongoing rd
      else (let pending = rd_pending rd @ segment in
         if kMaxLineLength < length pending then
           (let cut = truncate_utf8 pending kMaxLineLength in
            if \<not> utf8_valid cut then Failed (invalid_utf8_text path)
            else Ongoing (rd\<lparr>rd_pending := cut, rd_long := True\<rparr>))
         else Ongoing (rd\<lparr>rd_pending := pending\<rparr>)))"

function consume_chunk :: "string \<Rightarrow> nat \<Rightarrow> nat \<Rightarrow> string \<Rightarrow> reader \<Rightarrow> paging" where
  "consume_chunk path offset limit chunk rd =
     (if chunk = [] then Ongoing rd
      else if page_full limit (rd_page rd) then
        Finished (rd\<lparr>rd_page := (rd_page rd)\<lparr>pg_next := pg_line (rd_page rd)\<rparr>\<rparr>)
      else let segment = (case split_at nl chunk of None \<Rightarrow> chunk | Some (a, b) \<Rightarrow> a @ [nl]) in
        if binary_detect segment then Failed (binary_text path)
        else (case consume_segment path offset limit segment rd of
            Ongoing rd' \<Rightarrow> consume_chunk path offset limit (drop (length segment) chunk) rd'
          | r \<Rightarrow> r))"
  by pat_completeness auto
termination
  by (relation "measure (\<lambda>(p, off, lim, c, rd). length c)") (auto split: option.splits)

declare consume_chunk.simps [simp del]

fun consume_chunks :: "string \<Rightarrow> nat \<Rightarrow> nat \<Rightarrow> string list \<Rightarrow> reader \<Rightarrow> paging" where
  "consume_chunks path offset limit [] rd = Ongoing rd"
| "consume_chunks path offset limit (c # cs) rd =
     (case consume_chunk path offset limit c rd of
        Ongoing rd' \<Rightarrow> consume_chunks path offset limit cs rd' | r \<Rightarrow> r)"

function chunks :: "string \<Rightarrow> string list" where
  "chunks s = (if s = [] then [] else take kReadChunk s # chunks (drop kReadChunk s))"
  by pat_completeness auto
termination
  by (relation "measure length") (auto simp: kReadChunk_def)

declare chunks.simps [simp del]

definition start_reader :: reader where
  "start_reader = \<lparr>rd_page = \<lparr>pg_lines = [], pg_line = 1, pg_bytes = 0, pg_next = 0\<rparr>,
     rd_pending = [], rd_long = False\<rparr>"

definition page_text :: "nat \<Rightarrow> page \<Rightarrow> string" where
  "page_text offset pg =
     (if pg_lines pg = [] \<and> offset \<noteq> 1 then ''Error: Offset '' @ nat_str offset @ '' is out of range''
      else join_with NL (pg_lines pg) @
        (if pg_next pg \<noteq> 0 then
           NL @ ''... (truncated; use offset '' @ nat_str (pg_next pg) @ '' to continue)'' else []))"

definition read_paged :: "string \<Rightarrow> nat \<Rightarrow> nat \<Rightarrow> string list \<Rightarrow> string" where
  "read_paged path offset limit cs =
     (case consume_chunks path offset limit cs start_reader of
        Failed e \<Rightarrow> e
      | Finished rd \<Rightarrow> page_text offset (rd_page rd)
      | Ongoing rd \<Rightarrow>
          if rd_pending rd = [] then page_text offset (rd_page rd)
          else if \<not> utf8_valid (drop_cr (rd_pending rd)) then invalid_utf8_text path
          else page_text offset
            (snd (append_line offset limit (drop_cr (rd_pending rd)) (rd_long rd) (rd_page rd))))"

text \<open>\<open>file_size\<close> is what \<open>std::filesystem::file_size\<close> answered; \<open>content\<close> is \<open>None\<close> when the file does not open.\<close>

definition read_regular ::
    "string \<Rightarrow> nat \<Rightarrow> string option \<Rightarrow> nat \<Rightarrow> nat \<Rightarrow> bool \<Rightarrow> string outcome" where
  "read_regular path file_size content offset limit explicit_page =
     (case content of
        None \<Rightarrow> Inr (''Error: Cannot open file: '' @ path)
      | Some bytes \<Rightarrow>
          if binary_extension (extension_of path) then Inr (binary_text path)
          else let first = take kReadChunk bytes in
          (case binary_magic first of
             Inl e \<Rightarrow> Inl e
           | Inr True \<Rightarrow> Inr (binary_text path)
           | Inr False \<Rightarrow>
               if kMaxReadBytes < file_size \<or> explicit_page then
                 Inr (read_paged path offset limit (chunks bytes))
               else if binary_detect first then Inr (binary_text path)
               else let full = first @ (if length first < file_size
                        then take (file_size - length first) (drop kReadChunk bytes) else [])
                 in if \<not> utf8_valid full then Inr (invalid_utf8_text path) else Inr full))"

section \<open>Directories\<close>

datatype entry_kind = DirEntry | FileEntry | OtherEntry

text \<open>The order \<open>std::sort\<close> is given: directories first, then by name (names are unique).\<close>

definition list_entries :: "(string \<times> entry_kind) list \<Rightarrow> (string \<times> bool) list" where
  "list_entries es =
     sort_key (\<lambda>e. \<not> snd e)
       (sort_key fst (map (\<lambda>(n, k). (n, k = DirEntry)) (filter (\<lambda>(n, k). k \<noteq> OtherEntry) es)))"

definition list_directory ::
    "string \<Rightarrow> (string \<times> entry_kind) list option \<Rightarrow> nat \<Rightarrow> nat \<Rightarrow> string" where
  "list_directory path dir offset limit =
     (case dir of
        None \<Rightarrow> ''Error: Cannot read directory: '' @ path
      | Some es \<Rightarrow>
          let entries = map (\<lambda>(n, d). n @ (if d then ''/'' else [])) (list_entries es);
              start = offset - 1;
              out = take limit (drop start entries)
          in join_with NL out @
            (if start < length entries \<and> start + length out < length entries then
               NL @ ''... (truncated; use offset '' @ nat_str (offset + length out) @ '' to continue)''
             else []))"

section \<open>The tool\<close>

datatype path_status =
    NoPath
  | DirPath "(string \<times> entry_kind) list option"
  | FilePath nat "string option"
  | OtherPath

definition page_offset :: "int \<Rightarrow> nat" where
  "page_offset raw = (if raw < 1 then 1 else nat raw)"

definition page_limit :: "int \<Rightarrow> nat" where
  "page_limit raw = min kMaxReadLines (if raw < 1 then kMaxReadLines else nat raw)"

definition read_execute :: "(string \<Rightarrow> path_status) \<Rightarrow> json \<Rightarrow> string outcome" where
  "read_execute status input =
     bind_outcome (bind_outcome (jindex input ''file_path'') get_str) (\<lambda>path.
     bind_outcome (value_i64 input ''offset'' 1) (\<lambda>raw_offset.
     bind_outcome (value_i64 input ''limit'' (int kMaxReadLines)) (\<lambda>raw_limit.
       let offset = page_offset raw_offset;
           limit = page_limit raw_limit;
           explicit_page = (jcontains input ''offset'' \<or> jcontains input ''limit'')
       in (case status path of
             DirPath es \<Rightarrow> Inr (list_directory path es offset limit)
           | FilePath file_size content \<Rightarrow> read_regular path file_size content offset limit explicit_page
           | _ \<Rightarrow> Inr (''Error: Path is not a file or directory: '' @ path)))))"

section \<open>Rows\<close>

text \<open>The rows of a text before their carriage returns are dropped.\<close>

fun raw_rows :: "string \<Rightarrow> string \<Rightarrow> string list" where
  "raw_rows cur [] = (if cur = [] then [] else [cur])"
| "raw_rows cur (c # cs) = (if c = nl then cur # raw_rows [] cs else raw_rows (cur @ [c]) cs)"

lemma split_lines_rows: "split_lines_from cur s = map drop_cr (raw_rows cur s)"
  by (induction cur s rule: raw_rows.induct) auto

lemma raw_rows_line: "nl \<notin> set a \<Longrightarrow> raw_rows cur (a @ nl # b) = (cur @ a) # raw_rows [] b"
  by (induction a arbitrary: cur) auto

lemma raw_rows_part: "nl \<notin> set a \<Longrightarrow> raw_rows cur (a @ b) = raw_rows (cur @ a) b"
  by (induction a arbitrary: cur) auto

lemma raw_rows_head: "cur \<noteq> [] \<Longrightarrow> \<exists>r rs. raw_rows cur s = r # rs \<and> prefix cur r"
proof (induction s arbitrary: cur)
  case (Cons c cs)
  show ?case
  proof (cases "c = nl")
    case False
    from Cons.IH[of "cur @ [c]"] obtain r rs where r: "raw_rows (cur @ [c]) cs = r # rs" "prefix (cur @ [c]) r"
      by auto
    then have "prefix cur r" by (metis append_prefixD)
    with r(1) False show ?thesis by simp
  qed simp
qed simp

lemma raw_rows_nonempty: "cur @ s \<noteq> [] \<Longrightarrow> raw_rows cur s \<noteq> []"
proof (cases "cur = []")
  case False
  then show ?thesis using raw_rows_head[of "cur" s] by auto
next
  case True
  moreover assume "cur @ s \<noteq> []"
  ultimately obtain c cs where "s = c # cs" by (cases s) auto
  with True show ?thesis using raw_rows_head[of "[c]" cs] by auto
qed

text \<open>Text whose rows the reader takes as they are: printable bytes, rows of at most 2000 bytes that
  are valid UTF-8.\<close>

definition tame :: "string \<Rightarrow> string \<Rightarrow> bool" where
  "tame cur s \<longleftrightarrow> list_all (\<lambda>c. \<not> non_printable c) s \<and>
     list_all (\<lambda>r. length r \<le> kMaxLineLength \<and> utf8_valid (drop_cr r)) (raw_rows cur s)"

definition page_ok :: "nat \<Rightarrow> page \<Rightarrow> bool" where
  "page_ok offset pg \<longleftrightarrow> (pg_lines pg \<noteq> [] \<longrightarrow> offset \<le> pg_line pg) \<and> (pg_lines pg = [] \<longrightarrow> pg_bytes pg = 0)"

definition clean :: "nat \<Rightarrow> reader \<Rightarrow> bool" where
  "clean offset rd \<longleftrightarrow> \<not> rd_long rd \<and> page_ok offset (rd_page rd)"

text \<open>The reference: rows appended one by one until one is refused.\<close>

fun page_rows :: "nat \<Rightarrow> nat \<Rightarrow> string list \<Rightarrow> page \<Rightarrow> page" where
  "page_rows offset limit [] pg = pg"
| "page_rows offset limit (r # rs) pg =
     (let (ok, pg') = append_line offset limit r False pg in
      if ok then page_rows offset limit rs pg' else pg')"

lemma append_ok: "page_ok offset pg \<Longrightarrow> page_ok offset (snd (append_line offset limit r f pg))"
  by (auto simp: append_line_def page_ok_def Let_def)

lemma append_full:
  assumes "page_full limit pg" "page_ok offset pg" "0 < limit"
  shows "append_line offset limit r f pg = (False, pg\<lparr>pg_next := pg_line pg\<rparr>)"
proof -
  have "pg_lines pg \<noteq> []"
    using assms by (auto simp: page_full_def page_ok_def kMaxReadBytes_def)
  then have "\<not> pg_line pg < offset" using assms(2) by (auto simp: page_ok_def)
  with assms(1) show ?thesis by (simp add: append_line_def)
qed

lemma printable_not_binary: "list_all (\<lambda>c. \<not> non_printable c) s \<Longrightarrow> \<not> binary_detect s"
proof -
  assume p: "list_all (\<lambda>c. \<not> non_printable c) s"
  then have "filter non_printable s = []" by (simp add: list_all_iff filter_empty_conv)
  moreover have "\<forall>c \<in> set s. byte c \<noteq> 0" using p by (auto simp: list_all_iff non_printable_def)
  ultimately show ?thesis by (auto simp: binary_detect_def)
qed

text \<open>A complete row, then a piece of one, go through \<open>consume_segment\<close>.\<close>

lemma consume_line:
  assumes "clean offset rd" "utf8_valid (drop_cr (rd_pending rd @ a))"
  shows "consume_segment path offset limit (a @ [nl]) rd =
    (let (ok, pg) = append_line offset limit (drop_cr (rd_pending rd @ a)) False (rd_page rd);
         rd' = rd\<lparr>rd_page := pg, rd_pending := [], rd_long := False\<rparr>
     in if ok then Ongoing rd' else Finished rd')"
  using assms by (simp add: consume_segment_def clean_def)

lemma consume_piece:
  assumes "clean offset rd" "nl \<notin> set a" "length (rd_pending rd @ a) \<le> kMaxLineLength"
  shows "consume_segment path offset limit a rd = Ongoing (rd\<lparr>rd_pending := rd_pending rd @ a\<rparr>)"
proof -
  have "\<not> (a \<noteq> [] \<and> last a = nl)" using assms(2) last_in_set by metis
  then show ?thesis using assms(1,3) by (auto simp: consume_segment_def clean_def)
qed

lemma tame_line:
  assumes "tame cur (a @ nl # b)" "nl \<notin> set a"
  shows "utf8_valid (drop_cr (cur @ a))" "tame [] b" "\<not> binary_detect (a @ [nl])"
    "split_lines_from cur (a @ nl # b) = drop_cr (cur @ a) # split_lines_from [] b"
  using assms printable_not_binary[of "a @ [nl]"] split_lines_from_line[of a "cur" b]
  by (auto simp: tame_def raw_rows_line non_printable_def)

lemma tame_piece:
  assumes "tame cur (a @ b)" "nl \<notin> set a" "a \<noteq> []"
  shows "tame (cur @ a) b" "\<not> binary_detect a" "length (cur @ a) \<le> kMaxLineLength"
    "split_lines_from cur (a @ b) = split_lines_from (cur @ a) b"
proof -
  show "tame (cur @ a) b" "\<not> binary_detect a"
    "split_lines_from cur (a @ b) = split_lines_from (cur @ a) b"
    using assms printable_not_binary[of a] by (auto simp: tame_def raw_rows_part split_lines_rows)
  obtain r rs where r: "raw_rows (cur @ a) b = r # rs" "prefix (cur @ a) r"
    using raw_rows_head[of "cur @ a" b] assms(3) by auto
  then have "length r \<le> kMaxLineLength" using assms by (auto simp: tame_def raw_rows_part)
  with r(2) show "length (cur @ a) \<le> kMaxLineLength" using prefix_length_le le_trans by blast
qed

text \<open>One chunk of a tame text, whatever follows it, does to the page what its rows do.\<close>

lemma consume_chunk_rows:
  "0 < limit \<Longrightarrow> tame (rd_pending rd) (chunk @ t) \<Longrightarrow> clean offset rd \<Longrightarrow>
    (case consume_chunk path offset limit chunk rd of
       Failed e \<Rightarrow> False
     | Finished rd' \<Rightarrow> page_rows offset limit (split_lines_from (rd_pending rd) (chunk @ t)) (rd_page rd) = rd_page rd'
     | Ongoing rd' \<Rightarrow> clean offset rd' \<and> tame (rd_pending rd') t \<and>
         page_rows offset limit (split_lines_from (rd_pending rd) (chunk @ t)) (rd_page rd) =
           page_rows offset limit (split_lines_from (rd_pending rd') t) (rd_page rd'))"
proof (induction path offset limit chunk rd rule: consume_chunk.induct)
  case (1 path offset limit chunk rd)
  note lim = 1(2)
  let ?pg = "rd_page rd"
  show ?case
  proof (cases "chunk = []")
    case True
    then show ?thesis using 1 by (subst consume_chunk.simps) simp
  next
    case ne: False
    show ?thesis
    proof (cases "page_full limit ?pg")
      case True
      have "raw_rows (rd_pending rd) (chunk @ t) \<noteq> []" using ne by (intro raw_rows_nonempty) simp
      then obtain r rs where "split_lines_from (rd_pending rd) (chunk @ t) = r # rs"
        by (metis list.exhaust list.map_disc_iff split_lines_rows)
      then show ?thesis
        using ne True append_full[of limit ?pg offset] lim 1(4)
        by (subst consume_chunk.simps) (simp add: clean_def)
    next
      case nf: False
      show ?thesis
      proof (cases "split_at nl chunk")
        case None
        then have nn: "nl \<notin> set chunk" by (simp add: split_at_None)
        note p = tame_piece[OF 1(3) nn ne]
        have "consume_chunk path offset limit chunk rd =
            consume_chunk path offset limit [] (rd\<lparr>rd_pending := rd_pending rd @ chunk\<rparr>)"
          using ne nf None p(2) consume_piece[OF 1(4) nn p(3)] by (subst consume_chunk.simps) simp
        also have "\<dots> = Ongoing (rd\<lparr>rd_pending := rd_pending rd @ chunk\<rparr>)"
          by (subst consume_chunk.simps) simp
        finally show ?thesis using p(1,4) 1(4) by (simp add: clean_def)
      next
        case (Some ab)
        obtain a b where ab: "split_at nl chunk = Some (a, b)" using Some by (cases ab) auto
        then have c: "chunk = a @ nl # b" "nl \<notin> set a" by (auto simp: split_at_Some)
        note l = tame_line[of "rd_pending rd" a "b @ t"]
        have tm: "tame (rd_pending rd) (a @ nl # b @ t)" using 1(3) c(1) by simp
        obtain ok pg where ap:
          "append_line offset limit (drop_cr (rd_pending rd @ a)) False (rd_page rd) = (ok, pg)"
          by (cases "append_line offset limit (drop_cr (rd_pending rd @ a)) False (rd_page rd)")
        let ?rd = "rd\<lparr>rd_page := pg, rd_pending := [], rd_long := False\<rparr>"
        have seg: "consume_segment path offset limit (a @ [nl]) rd = (if ok then Ongoing ?rd else Finished ?rd)"
          using consume_line[OF 1(4) l(1)[OF tm c(2)]] ap by simp
        have step: "consume_chunk path offset limit chunk rd =
            (if ok then consume_chunk path offset limit b ?rd else Finished ?rd)"
          using ne nf ab l(3)[OF tm c(2)] seg c(1) by (subst consume_chunk.simps) simp
        have rows: "page_rows offset limit (split_lines_from (rd_pending rd) (chunk @ t)) (rd_page rd) =
            (if ok then page_rows offset limit (split_lines_from [] (b @ t)) pg else pg)"
          using l(4)[OF tm c(2)] ap c(1) by simp
        show ?thesis
        proof (cases ok)
          case False
          with step rows show ?thesis by simp
        next
          case True
          have cl: "clean offset ?rd"
            using 1(4) append_ok[of offset "rd_page rd" limit "drop_cr (rd_pending rd @ a)" False] ap
            by (simp add: clean_def)
          have sg: "(case split_at nl chunk of None \<Rightarrow> chunk | Some (a, b) \<Rightarrow> a @ NL) = a @ NL"
            using ab by simp
          have dr: "drop (length (a @ NL)) chunk = b" using c(1) by simp
          have sg1: "consume_segment path offset limit (a @ NL) rd = Ongoing ?rd" using seg True by simp
          note ih = 1(1)[OF ne nf refl, unfolded sg dr, OF l(3)[OF tm c(2)] sg1 lim]
          have tm2: "tame (rd_pending ?rd) (b @ t)" using l(2)[OF tm c(2)] by simp
          show ?thesis using ih[OF tm2 cl] step rows True by (simp split: paging.splits)
        qed
      qed
    qed
  qed
qed


lemma consume_chunks_rows:
  assumes "0 < limit"
  shows "tame (rd_pending rd) (concat cs) \<Longrightarrow> clean offset rd \<Longrightarrow>
    (case consume_chunks path offset limit cs rd of
       Failed e \<Rightarrow> False
     | Finished rd' \<Rightarrow> page_rows offset limit (split_lines_from (rd_pending rd) (concat cs)) (rd_page rd) = rd_page rd'
     | Ongoing rd' \<Rightarrow> clean offset rd' \<and> tame (rd_pending rd') [] \<and>
         page_rows offset limit (split_lines_from (rd_pending rd) (concat cs)) (rd_page rd) =
           page_rows offset limit (split_lines_from (rd_pending rd') []) (rd_page rd'))"
proof (induction cs arbitrary: rd)
  case (Cons c cs)
  have tm: "tame (rd_pending rd) (c @ concat cs)" using Cons.prems(1) by simp
  note step = consume_chunk_rows[OF assms tm Cons.prems(2), of path]
  show ?case
  proof (cases "consume_chunk path offset limit c rd")
    case (Ongoing rd')
    with step have r: "tame (rd_pending rd') (concat cs)" "clean offset rd'"
      "page_rows offset limit (split_lines_from (rd_pending rd) (c @ concat cs)) (rd_page rd) =
        page_rows offset limit (split_lines_from (rd_pending rd') (concat cs)) (rd_page rd')" by auto
    from Cons.IH[OF r(1,2)] r(3) Ongoing show ?thesis
      by (cases "consume_chunks path offset limit cs rd'") simp_all
  qed (use step in simp_all)
qed simp

text \<open>The paged reader on a tame text is the reference, whatever the chunks.\<close>

lemma read_paged_rows:
  assumes "0 < limit" "tame [] (concat cs)"
  shows "read_paged path offset limit cs =
    page_text offset (page_rows offset limit (split_lines (concat cs)) (rd_page start_reader))"
proof -
  have cl: "clean offset start_reader" by (simp add: clean_def start_reader_def page_ok_def)
  have p: "rd_pending start_reader = []" by (simp add: start_reader_def)
  note c = consume_chunks_rows[OF assms(1) _ cl, of cs path, unfolded p, OF assms(2)]
  show ?thesis
  proof (cases "consume_chunks path offset limit cs start_reader")
    case (Ongoing rd)
    with c have r: "clean offset rd" "tame (rd_pending rd) []"
      "page_rows offset limit (split_lines (concat cs)) (rd_page start_reader) =
        page_rows offset limit (split_lines_from (rd_pending rd) []) (rd_page rd)"
      by (auto simp: split_lines_def)
    show ?thesis
    proof (cases "rd_pending rd = []")
      case False
      then have "utf8_valid (drop_cr (rd_pending rd))" using r(2) by (simp add: tame_def)
      then show ?thesis
        using False r(1,3) Ongoing
        by (cases "append_line offset limit (drop_cr (rd_pending rd)) False (rd_page rd)")
          (auto simp: read_paged_def clean_def)
    qed (use Ongoing r in \<open>simp add: read_paged_def\<close>)
  qed (use c in \<open>simp_all add: read_paged_def split_lines_def\<close>)
qed

section \<open>What a page holds\<close>

text \<open>Rows before the offset are counted, not kept.\<close>

lemma page_rows_skip:
  "pg_line pg + n \<le> offset \<Longrightarrow> n \<le> length rs \<Longrightarrow>
   page_rows offset limit rs pg = page_rows offset limit (drop n rs) (pg\<lparr>pg_line := pg_line pg + n\<rparr>)"
proof (induction n arbitrary: rs pg)
  case (Suc n)
  then obtain r rest where rs: "rs = r # rest" by (cases rs) auto
  show ?case using Suc rs by (simp add: append_line_def)
qed simp

text \<open>The bytes counted are those of the joined lines.\<close>

definition counted :: "page \<Rightarrow> bool" where
  "counted pg \<longleftrightarrow> pg_bytes pg = length (join_with NL (pg_lines pg)) \<and> pg_bytes pg \<le> kMaxReadBytes"

lemma join_with_snoc: "xs \<noteq> [] \<Longrightarrow> join_with sep (xs @ [x]) = join_with sep xs @ sep @ x"
  by (induction xs) (auto simp: join_with_Cons)

lemma page_rows_take:
  assumes "list_all (\<lambda>r. length r \<le> kMaxLineLength) rs" "offset \<le> pg_line pg" "pg_next pg = 0" "0 < pg_line pg"
    "counted pg" "length (pg_lines pg) \<le> limit"
  shows "\<exists>k \<le> length rs. let pg' = page_rows offset limit rs pg in
    pg_lines pg' = pg_lines pg @ take k rs \<and> counted pg' \<and> length (pg_lines pg') \<le> limit \<and>
    pg_next pg' = (if k < length rs then pg_line pg + k else 0) \<and>
    (pg_lines pg = [] \<and> rs \<noteq> [] \<and> 0 < limit \<longrightarrow> 0 < k)"
  using assms
proof (induction rs arbitrary: pg)
  case (Cons r rs)
  show ?case
  proof (cases "fst (append_line offset limit r False pg)")
    case False
    then have "snd (append_line offset limit r False pg) = pg\<lparr>pg_next := pg_line pg\<rparr>"
      and "pg_lines pg = [] \<and> 0 < limit \<longrightarrow> False"
      using Cons.prems by (auto simp: append_line_def Let_def page_full_def counted_def
          kMaxReadBytes_def kMaxLineLength_def split: if_splits)
    with False Cons.prems show ?thesis
      by (intro exI[of _ 0]) (auto simp: Let_def counted_def split: prod.splits)
  next
    case True
    let ?pg = "pg\<lparr>pg_lines := pg_lines pg @ [r], pg_bytes := pg_bytes pg + length r + (if pg_lines pg = [] then 0 else 1),
        pg_line := Suc (pg_line pg)\<rparr>"
    have a: "append_line offset limit r False pg = (True, ?pg)"
      and b: "length (pg_lines pg) < limit" "pg_bytes ?pg \<le> kMaxReadBytes"
      using True Cons.prems by (auto simp: append_line_def Let_def page_full_def split: if_splits)
    have cn: "counted ?pg"
      using Cons.prems(5) b(2) by (auto simp: counted_def join_with_snoc)
    from Cons.IH[of ?pg] Cons.prems cn b(1) obtain k where k: "k \<le> length rs"
      "pg_lines (page_rows offset limit rs ?pg) = pg_lines pg @ [r] @ take k rs"
      "counted (page_rows offset limit rs ?pg)" "length (pg_lines (page_rows offset limit rs ?pg)) \<le> limit"
      "pg_next (page_rows offset limit rs ?pg) = (if k < length rs then Suc (pg_line pg) + k else 0)"
      by (auto simp: Let_def)
    have "page_rows offset limit (r # rs) pg = page_rows offset limit rs ?pg" using a by simp
    with k show ?thesis by (intro exI[of _ "Suc k"]) (simp add: Let_def)
  qed
qed (simp add: counted_def Let_def)

lemma drop_cr_length: "length (drop_cr r) \<le> length r"
  by (simp add: drop_cr_def)

lemma tame_rows_short: "tame [] s \<Longrightarrow> list_all (\<lambda>r. length r \<le> kMaxLineLength) (split_lines s)"
  unfolding tame_def split_lines_def split_lines_rows list_all_iff
  by (auto intro: le_trans[OF drop_cr_length])

lemma page_of_rows:
  assumes "list_all (\<lambda>r. length r \<le> kMaxLineLength) rs" "1 \<le> offset" "0 < limit"
  shows "\<exists>k. let ls = take k (drop (offset - 1) rs); pg = page_rows offset limit rs (rd_page start_reader) in
    pg_lines pg = ls \<and> length (join_with NL ls) \<le> kMaxReadBytes \<and> length ls \<le> limit \<and>
    pg_next pg = (if offset - 1 + k < length rs then offset + k else 0) \<and>
    (offset - 1 < length rs \<longrightarrow> 0 < k)"
proof (cases "offset - 1 \<le> length rs")
  case True
  let ?s = "rd_page start_reader"
  let ?p = "?s\<lparr>pg_line := offset\<rparr>"
  let ?rs = "drop (offset - 1) rs"
  have sk: "page_rows offset limit rs ?s = page_rows offset limit ?rs ?p"
    using page_rows_skip[of ?s "offset - 1" offset rs limit] True assms(2)
    by (simp add: start_reader_def)
  have short: "list_all (\<lambda>r. length r \<le> kMaxLineLength) ?rs"
    using assms(1) by (auto simp: list_all_iff dest: in_set_dropD)
  have "offset \<le> pg_line ?p" "pg_next ?p = 0" "0 < pg_line ?p" "counted ?p" "length (pg_lines ?p) \<le> limit"
    using assms(2) by (auto simp: start_reader_def counted_def)
  from page_rows_take[OF short this] obtain k where k: "k \<le> length ?rs"
    "pg_lines (page_rows offset limit ?rs ?p) = take k ?rs" "counted (page_rows offset limit ?rs ?p)"
    "length (pg_lines (page_rows offset limit ?rs ?p)) \<le> limit"
    "pg_next (page_rows offset limit ?rs ?p) = (if k < length ?rs then offset + k else 0)"
    "?rs \<noteq> [] \<Longrightarrow> 0 < k"
    using assms(3) by (auto simp: Let_def start_reader_def)
  then show ?thesis
    using True by (intro exI[of _ k]) (auto simp: sk Let_def counted_def)
next
  case False
  have "page_rows offset limit rs (rd_page start_reader) = (rd_page start_reader)\<lparr>pg_line := 1 + length rs\<rparr>"
    using page_rows_skip[of "rd_page start_reader" "length rs" offset rs limit] False
    by (simp add: start_reader_def)
  then show ?thesis using False by (intro exI[of _ 0]) (simp add: start_reader_def Let_def)
qed

section \<open>Properties\<close>

text \<open>C24: a page of a text file (printable, rows of at most 2000 bytes of valid UTF-8) read from row
  \<open>offset\<close> on holds consecutive rows of the file from there, at most \<open>limit\<close> of them and 50 KB, at
  least one while there is one; the marker names the first row left out exactly when one is, so
  that following the markers reads every row once. How the file is cut into chunks is immaterial;
  an offset past the end is an error.\<close>

theorem read_pages_partition_rows:
  assumes "1 \<le> offset" "0 < limit" "tame [] (concat cs)"
  shows "\<exists>k. let rs = split_lines (concat cs); ls = take k (drop (offset - 1) rs) in
    length ls \<le> limit \<and> length (join_with NL ls) \<le> kMaxReadBytes \<and>
    (offset - 1 < length rs \<longrightarrow> 0 < k) \<and>
    read_paged path offset limit cs =
      (if length rs \<le> offset - 1 \<and> offset \<noteq> 1 then ''Error: Offset '' @ nat_str offset @ '' is out of range''
       else join_with NL ls @
         (if offset - 1 + k < length rs
          then NL @ ''... (truncated; use offset '' @ nat_str (offset + k) @ '' to continue)'' else []))"
proof -
  define rs where "rs = split_lines (concat cs)"
  define pg where "pg = page_rows offset limit rs (rd_page start_reader)"
  obtain k where k: "pg_lines pg = take k (drop (offset - 1) rs)"
    "length (join_with NL (take k (drop (offset - 1) rs))) \<le> kMaxReadBytes"
    "length (take k (drop (offset - 1) rs)) \<le> limit"
    "pg_next pg = (if offset - 1 + k < length rs then offset + k else 0)"
    "offset - 1 < length rs \<longrightarrow> 0 < k"
    using page_of_rows[OF tame_rows_short[OF assms(3)] assms(1,2)] unfolding rs_def pg_def Let_def by blast
  have e: "take k (drop (offset - 1) rs) = [] \<longleftrightarrow> length rs \<le> offset - 1"
    using k(5) by (auto simp: not_less)
  have "page_text offset pg = (if length rs \<le> offset - 1 \<and> offset \<noteq> 1
       then ''Error: Offset '' @ nat_str offset @ '' is out of range''
       else join_with NL (take k (drop (offset - 1) rs)) @
         (if offset - 1 + k < length rs
          then NL @ ''... (truncated; use offset '' @ nat_str (offset + k) @ '' to continue)'' else []))"
  proof (cases "offset - 1 + k < length rs")
    case True
    then have "pg_next pg = offset + k" "offset + k \<noteq> 0" using k(4) assms(1) by auto
    with True show ?thesis unfolding page_text_def k(1) e by (simp only: if_True simp_thms)
  next
    case False
    then have "pg_next pg = 0" using k(4) by simp
    with False show ?thesis unfolding page_text_def k(1) e by (simp only: if_False simp_thms)
  qed
  then have r: "read_paged path offset limit cs = (if length rs \<le> offset - 1 \<and> offset \<noteq> 1
       then ''Error: Offset '' @ nat_str offset @ '' is out of range''
       else join_with NL (take k (drop (offset - 1) rs)) @
         (if offset - 1 + k < length rs
          then NL @ ''... (truncated; use offset '' @ nat_str (offset + k) @ '' to continue)'' else []))"
    using read_paged_rows[OF assms(2,3)] by (simp only: pg_def rs_def)
  show ?thesis
    unfolding Let_def rs_def[symmetric] by (rule exI[of _ k]) (intro conjI k(2,3,5) r)
qed

text \<open>a file of at most 50 KB that is not binary and is valid UTF-8 is returned unchanged when no
  page is asked for; one that is not valid UTF-8 is refused.\<close>

theorem small_file_read_whole:
  assumes "length bytes \<le> kMaxReadBytes" "\<not> binary_extension (extension_of path)"
    "binary_magic bytes = Inr False" "\<not> binary_detect bytes"
  shows "read_regular path (length bytes) (Some bytes) offset limit False =
    Inr (if utf8_valid bytes then bytes else invalid_utf8_text path)"
proof -
  have t: "take kReadChunk bytes = bytes" using assms(1) by (simp add: kReadChunk_def kMaxReadBytes_def)
  show ?thesis using assms by (simp add: read_regular_def t Let_def)
qed

section \<open>Witnesses\<close>

lemma read_pages_partition_rows_witness:
  "\<exists>k. let rs = split_lines (''one'' @ NL @ ''two'' @ [cr, nl] @ ''three''); ls = take k (drop (2 - 1) rs) in
    length ls \<le> 1 \<and> length (join_with NL ls) \<le> kMaxReadBytes \<and> ((2::nat) - 1 < length rs \<longrightarrow> 0 < k) \<and>
    read_paged ''f'' 2 1 [''one'' @ NL @ ''tw'', ''o'' @ [cr, nl] @ ''three''] =
      (if length rs \<le> 2 - 1 \<and> (2::nat) \<noteq> 1 then ''Error: Offset '' @ nat_str 2 @ '' is out of range''
       else join_with NL ls @
         (if 2 - 1 + k < length rs
          then NL @ ''... (truncated; use offset '' @ nat_str (2 + k) @ '' to continue)'' else []))"
proof -
  have "tame [] (concat [''one'' @ NL @ ''tw'', ''o'' @ [cr, nl] @ ''three''])" by code_simp
  from read_pages_partition_rows[OF _ _ this, of 2 1 "''f''"] show ?thesis by simp
qed

lemma small_file_read_whole_witness:
  "read_regular ''a.txt'' (length ''hello'') (Some ''hello'') 1 2000 False = Inr ''hello''"
proof -
  have "\<not> binary_extension (extension_of ''a.txt'')" "binary_magic ''hello'' = Inr False"
    "\<not> binary_detect ''hello''" "utf8_valid ''hello''" by code_simp+
  with small_file_read_whole[of "''hello''" "''a.txt''" 1 2000] show ?thesis
    by (simp add: kMaxReadBytes_def)
qed

section \<open>Divergences\<close>

text \<open>A file of four to seven bytes that starts with \<open>RIFF\<close> makes the tool throw.\<close>

lemma short_riff_throws:
  "read_regular ''a.txt'' 5 (Some ''RIFF!'') 1 2000 False = Inl (Thrown ''basic_string::substr'')"
proof -
  have "take kReadChunk ''RIFF!'' = ''RIFF!''" by (simp add: kReadChunk_def)
  moreover have "\<not> binary_extension (extension_of ''a.txt'')"
    "binary_magic ''RIFF!'' = Inl (Thrown ''basic_string::substr'')" by code_simp+
  ultimately show ?thesis by (simp add: read_regular_def)
qed

text \<open>Once a row is known to be too long, the piece that ends it may start inside a character, and the
  valid file is refused.\<close>

lemma long_row_split_in_a_character:
  "consume_segment ''f'' 1 10 [CHR 0xA9, nl]
     \<lparr>rd_page = rd_page start_reader, rd_pending = ''x'', rd_long = True\<rparr> =
   Failed (invalid_utf8_text ''f'') \<and> utf8_valid [CHR 0xC3, CHR 0xA9]"
  by code_simp

end
