(* ===== verification/Tool_Webfetch.thy ===== *)
theory Tool_Webfetch
  imports Tool_Read Tool_Edit
begin

text \<open>
  The tool that fetches a web page (\<open>src/tool/webfetch.h\<close>): the request and its retry, the checks on the
  answer, the small HTML parser and the two renderings of its tree. The HTTP library is a parameter
  that answers a request. The parser's stack of pointers into the growing tree is the list of open
  elements with the children each has so far; closing one appends it to the element around it.
\<close>

section \<open>Limits and strings\<close>

definition kMaxResponseBytes :: nat where "kMaxResponseBytes = 5 * 1024 * 1024"
definition kMaxOutputBytes :: nat where "kMaxOutputBytes = 60 * 1024"
definition kDefaultTimeoutSeconds :: int where "kDefaultTimeoutSeconds = 30"
definition kMaxTimeoutSeconds :: int where "kMaxTimeoutSeconds = 120"

definition kBrowserUserAgent :: string where
  "kBrowserUserAgent = ''Mozilla/5.0 (Windows NT 10.0; Win64; x64) AppleWebKit/537.36 (KHTML, like Gecko) '' @
     ''Chrome/143.0.0.0 Safari/537.36''"

definition kFallbackUserAgent :: string where "kFallbackUserAgent = ''opencode''"

text \<open>The white space of attribute lists, and that of trimming and collapsing.\<close>

definition tag_space :: "char list" where "tag_space = [CHR '' '', tab, cr, nl]"
definition html_space :: "char list" where "html_space = tag_space @ [CHR 0x0C, CHR 0x0B]"

definition trim_html :: "string \<Rightarrow> string" where "trim_html s = trim_of html_space s"

definition is_http_url :: "string \<Rightarrow> bool" where
  "is_http_url url \<longleftrightarrow>
     starts_with (lowercase url) ''http://'' \<or> starts_with (lowercase url) ''https://''"

definition accept_header :: "string \<Rightarrow> string" where
  "accept_header format =
     (if format = ''markdown'' then
        ''text/markdown;q=1.0, text/x-markdown;q=0.9, text/plain;q=0.8, text/html;q=0.7, */*;q=0.1''
      else if format = ''text'' then
        ''text/plain;q=1.0, text/markdown;q=0.9, text/html;q=0.8, */*;q=0.1''
      else if format = ''html'' then
        ''text/html;q=1.0, application/xhtml+xml;q=0.9, text/plain;q=0.8, '' @
        ''text/markdown;q=0.7, */*;q=0.1''
      else ''*/*'')"

definition mime_from :: "string \<Rightarrow> string" where
  "mime_from content_type = lowercase (trim_html (takeWhile (\<lambda>c. c \<noteq> CHR '';'') content_type))"

definition is_image_attachment :: "string \<Rightarrow> bool" where
  "is_image_attachment mime \<longleftrightarrow>
     starts_with mime ''image/'' \<and> mime \<noteq> ''image/svg+xml'' \<and> mime \<noteq> ''image/vnd.fastbidsheet''"

definition is_textual_mime :: "string \<Rightarrow> bool" where
  "is_textual_mime mime \<longleftrightarrow>
     mime = [] \<or> starts_with mime ''text/'' \<or> mime = ''application/json'' \<or> ends_with mime ''+json'' \<or>
     mime = ''application/xml'' \<or> ends_with mime ''+xml'' \<or> mime = ''application/javascript'' \<or>
     mime = ''application/x-javascript''"

section \<open>Fetching\<close>

record web_request =
  wq_url :: string
  wq_headers :: "(string \<times> string) list"
  wq_timeout_ms :: int

text \<open>Headers are looked up by lower-case name.\<close>

record web_reply =
  wr_error :: bool
  wr_status :: int
  wr_header :: "string \<Rightarrow> string option"
  wr_body :: string

definition do_get ::
    "(web_request \<Rightarrow> web_reply) \<Rightarrow> string \<Rightarrow> string \<Rightarrow> int \<Rightarrow> string \<Rightarrow> web_reply" where
  "do_get web url format timeout_seconds user_agent =
     web \<lparr>wq_url = url,
          wq_headers = [(''User-Agent'', user_agent), (''Accept'', accept_header format),
            (''Accept-Language'', ''en-US,en;q=0.9'')],
          wq_timeout_ms = timeout_seconds * 1000\<rparr>"

definition is_cloudflare_challenge :: "web_reply \<Rightarrow> bool" where
  "is_cloudflare_challenge r \<longleftrightarrow>
     wr_status r = 403 \<and> wr_header r ''cf-mitigated'' = Some ''challenge''"

text \<open>Body and content type of a usable answer.\<close>

definition fetch ::
    "(web_request \<Rightarrow> web_reply) \<Rightarrow> string \<Rightarrow> string \<Rightarrow> int \<Rightarrow> (string \<times> string) option" where
  "fetch web url format timeout_seconds =
     (let first = do_get web url format timeout_seconds kBrowserUserAgent in
      if wr_error first then None
      else let r = (if is_cloudflare_challenge first
                    then do_get web url format timeout_seconds kFallbackUserAgent else first) in
        if is_cloudflare_challenge first \<and> wr_error r then None
        else if wr_status r < 200 \<or> 300 \<le> wr_status r then None
        else if kMaxResponseBytes < length (wr_body r) then None
        else Some (wr_body r, case wr_header r ''content-type'' of Some ct \<Rightarrow> ct | None \<Rightarrow> []))"

section \<open>The HTML tree\<close>

text \<open>A node is a text node (no tag) or an element with lower-case tag, attributes and children.\<close>

datatype html_node =
    HtmlText string
  | HtmlElem string "(string, string) omap" "html_node list"

fun node_tag :: "html_node \<Rightarrow> string" where
  "node_tag (HtmlText s) = []"
| "node_tag (HtmlElem t a cs) = t"

fun attr_of :: "html_node \<Rightarrow> string \<Rightarrow> string" where
  "attr_of (HtmlText s) key = []"
| "attr_of (HtmlElem t a cs) key = (case om_get a (lowercase key) of Some v \<Rightarrow> v | None \<Rightarrow> [])"

definition void_tags :: "string list" where
  "void_tags = [''area'', ''base'', ''br'', ''col'', ''embed'', ''hr'', ''img'', ''input'', ''link'',
     ''meta'', ''param'', ''source'', ''track'', ''wbr'']"

definition is_void_tag :: "string \<Rightarrow> bool" where "is_void_tag t \<longleftrightarrow> t \<in> set void_tags"

definition skip_tags :: "string list" where
  "skip_tags = [''script'', ''style'', ''meta'', ''link'', ''noscript'', ''iframe'', ''object'',
     ''embed'', ''head'', ''template'', ''title'', ''svg'']"

definition is_skip_tag :: "string \<Rightarrow> bool" where "is_skip_tag t \<longleftrightarrow> t \<in> set skip_tags"

definition block_tags :: "string list" where
  "block_tags = [''p'', ''div'', ''section'', ''article'', ''header'', ''footer'', ''main'', ''aside'',
     ''nav'', ''figure'', ''figcaption'', ''form'', ''fieldset'', ''address'', ''details'', ''summary'',
     ''blockquote'', ''pre'', ''ul'', ''ol'', ''li'', ''table'', ''thead'', ''tbody'', ''tfoot'', ''tr'',
     ''th'', ''td'', ''hr'', ''dl'', ''dt'', ''dd'', ''h1'', ''h2'', ''h3'', ''h4'', ''h5'', ''h6'']"

definition is_block_tag :: "string \<Rightarrow> bool" where "is_block_tag t \<longleftrightarrow> t \<in> set block_tags"

section \<open>The parser\<close>

text \<open>The attributes in what follows the name of a tag.\<close>

definition in_tag_space :: "char \<Rightarrow> bool" where "in_tag_space c \<longleftrightarrow> c \<in> set tag_space"

text \<open>A value, quoted or bare, and what stands behind it.\<close>

definition attr_value :: "string \<Rightarrow> string \<times> string" where
  "attr_value after =
     (case dropWhile in_tag_space after of
        [] \<Rightarrow> ([], after)
      | q # v \<Rightarrow>
          if q = dquote \<or> q = squote then
            (case split_at q v of Some (val, rest) \<Rightarrow> (val, rest) | None \<Rightarrow> (v, []))
          else (takeWhile (\<lambda>c. \<not> in_tag_space c) (q # v), dropWhile (\<lambda>c. \<not> in_tag_space c) (q # v)))"

lemma attr_value_length: "length (snd (attr_value s)) \<le> length s"
proof (cases "dropWhile in_tag_space s")
  case (Cons q v)
  have "length (q # v) \<le> length s" using length_dropWhile_le[of in_tag_space s] Cons by simp
  moreover have "length (dropWhile (\<lambda>c. \<not> in_tag_space c) v) \<le> length v" by (rule length_dropWhile_le)
  ultimately show ?thesis using Cons
    by (auto simp: attr_value_def dest: split_at_length split: option.splits)
qed (simp only: attr_value_def list.case snd_conv order_refl)

function attrs_loop :: "string \<Rightarrow> (string, string) omap \<Rightarrow> (string, string) omap" where
  "attrs_loop s m =
     (case dropWhile in_tag_space s of
        [] \<Rightarrow> m
      | c # cs \<Rightarrow>
          if c = CHR ''/'' then m
          else (case split_at (CHR ''='') (c # cs) of
              None \<Rightarrow>
                attrs_loop (dropWhile (\<lambda>d. \<not> in_tag_space d) (c # cs))
                  (om_put (lowercase (takeWhile (\<lambda>d. \<not> in_tag_space d) (c # cs))) [] m)
            | Some (key, after) \<Rightarrow>
                attrs_loop (snd (attr_value after))
                  (om_put (lowercase key) (fst (attr_value after)) m)))"
  by pat_completeness auto
termination
proof (relation "measure (\<lambda>(s, m). length s)", goal_cases)
  case (2 s m c cs)
  then have "\<not> in_tag_space c" using hd_dropWhile[of in_tag_space s] by simp
  moreover have "length (dropWhile (\<lambda>d. \<not> in_tag_space d) cs) \<le> length cs" by (rule length_dropWhile_le)
  moreover have "length (c # cs) \<le> length s" using length_dropWhile_le[of in_tag_space s] 2 by simp
  ultimately show ?case by simp
next
  case (3 s m c cs p key after)
  have "length after < length (c # cs)" using split_at_length[of _ "c # cs" key after] 3 by simp
  moreover have "length (c # cs) \<le> length s" using length_dropWhile_le[of in_tag_space s] 3(1) by simp
  moreover have "length (snd (attr_value after)) \<le> length after" by (rule attr_value_length)
  ultimately show ?case by simp
qed simp

declare attrs_loop.simps [simp del]

record frame_elem =
  fe_tag :: string
  fe_attrs :: "(string, string) omap"
  fe_children :: "html_node list"

text \<open>The stack, innermost element first; the root, which has no tag, is last and stays.\<close>

definition root_frame :: frame_elem where
  "root_frame = \<lparr>fe_tag = [], fe_attrs = [], fe_children = []\<rparr>"

fun add_child :: "html_node \<Rightarrow> frame_elem list \<Rightarrow> frame_elem list" where
  "add_child c [] = []"
| "add_child c (f # fs) = f\<lparr>fe_children := fe_children f @ [c]\<rparr> # fs"

definition elem_of :: "frame_elem \<Rightarrow> html_node" where
  "elem_of f = HtmlElem (fe_tag f) (fe_attrs f) (fe_children f)"

fun pop_to :: "string \<Rightarrow> frame_elem list \<Rightarrow> frame_elem list" where
  "pop_to t [] = []"
| "pop_to t [f] = [f]"
| "pop_to t (f # g # fs) =
     (if fe_tag f = t then add_child (elem_of f) (g # fs) else pop_to t (add_child (elem_of f) (g # fs)))"

text \<open>A closing tag closes the innermost open element of its name, with all inside it.\<close>

definition close_tag :: "string \<Rightarrow> frame_elem list \<Rightarrow> frame_elem list" where
  "close_tag t fs = (if t \<in> set (map fe_tag (butlast fs)) then pop_to t fs else fs)"

definition open_tag :: "string \<Rightarrow> frame_elem list \<Rightarrow> frame_elem list" where
  "open_tag raw fs =
     (let in_name = (\<lambda>c. \<not> in_tag_space c \<and> c \<noteq> CHR ''/'' \<and> c \<noteq> CHR ''>'');
          t = lowercase (takeWhile in_name raw); attrs = attrs_loop (dropWhile in_name raw) []
      in if t = [] then fs
         else if is_void_tag t then add_child (HtmlElem t attrs []) fs
         else \<lparr>fe_tag = t, fe_attrs = attrs, fe_children = []\<rparr> # fs)"

text \<open>What stands between angle brackets: a closing tag, a declaration or an opening tag.\<close>

definition handle_tag :: "string \<Rightarrow> frame_elem list \<Rightarrow> frame_elem list" where
  "handle_tag raw fs =
     (case raw of
        [] \<Rightarrow> fs
      | c # cs \<Rightarrow>
          if c = CHR ''/'' then close_tag (lowercase (trim_html cs)) fs
          else if c = CHR ''!'' then fs
          else open_tag raw fs)"

function parse_loop :: "string \<Rightarrow> frame_elem list \<Rightarrow> frame_elem list" where
  "parse_loop [] fs = fs"
| "parse_loop (c # cs) fs =
     (if c \<noteq> CHR ''<'' then
        parse_loop (dropWhile (\<lambda>d. d \<noteq> CHR ''<'') (c # cs))
          (add_child (HtmlText (takeWhile (\<lambda>d. d \<noteq> CHR ''<'') (c # cs))) fs)
      else if starts_with (c # cs) ''<!--'' then
        (case find_sub ''-->'' (drop 4 (c # cs)) of
           None \<Rightarrow> fs
         | Some k \<Rightarrow> parse_loop (drop (k + 7) (c # cs)) fs)
      else (case split_at (CHR ''>'') cs of
          None \<Rightarrow> fs
        | Some (raw, rest) \<Rightarrow> parse_loop rest (handle_tag raw fs)))"
  by pat_completeness auto
termination
proof (relation "measure (\<lambda>(s, fs). length s)", goal_cases)
  case (2 c cs fs)
  have "length (dropWhile (\<lambda>d. d \<noteq> CHR ''<'') cs) \<le> length cs" by (rule length_dropWhile_le)
  with 2 show ?case by simp
qed (auto dest: split_at_length)

declare parse_loop.simps [simp del]

fun unwind :: "frame_elem list \<Rightarrow> html_node list" where
  "unwind [] = []"
| "unwind [f] = fe_children f"
| "unwind (f # g # fs) = unwind (add_child (elem_of f) (g # fs))"

text \<open>The children of the root.\<close>

definition parse_html :: "string \<Rightarrow> html_node list" where
  "parse_html html = unwind (parse_loop html [root_frame])"

section \<open>Rendering\<close>

text \<open>\<open>collapse_from space out s\<close>: \<open>out\<close> is whether anything has been written yet.\<close>

fun collapse_html :: "bool \<Rightarrow> bool \<Rightarrow> string \<Rightarrow> string" where
  "collapse_html space out [] = []"
| "collapse_html space out (c # cs) =
     (if c \<in> set html_space then collapse_html True out cs
      else if space \<and> out then CHR '' '' # c # collapse_html False True cs
      else c # collapse_html False True cs)"

definition collapse_ws_html :: "string \<Rightarrow> string" where
  "collapse_ws_html s = collapse_html False False s"

fun raw_text :: "html_node list \<Rightarrow> string" where
  "raw_text [] = []"
| "raw_text (HtmlText s # cs) = s @ raw_text cs"
| "raw_text (HtmlElem t a ds # cs) = raw_text ds @ raw_text cs"

definition indent_block :: "string \<Rightarrow> string \<Rightarrow> string" where
  "indent_block s pre =
     join_with NL (map (\<lambda>l. pre @ l) (filter (\<lambda>l. l \<noteq> []) (segments nl s)))"

definition strip_newlines :: "string \<Rightarrow> string" where
  "strip_newlines s = rev (dropWhile (\<lambda>c. c = nl \<or> c = cr) (rev s))"

text \<open>The language of the first \<open>code\<close> child.\<close>

definition code_lang :: "html_node list \<Rightarrow> string" where
  "code_lang cs =
     (case find (\<lambda>c. node_tag c = ''code'') cs of
        None \<Rightarrow> []
      | Some c \<Rightarrow> (case find_sub ''language-'' (attr_of c ''class'') of
            None \<Rightarrow> [] | Some p \<Rightarrow> drop (p + 9) (attr_of c ''class'')))"

definition render_code_block :: "html_node list \<Rightarrow> string" where
  "render_code_block cs =
     ''```'' @ code_lang cs @ NL @ strip_newlines (raw_text cs) @ NL @ ''```''"

definition quote_lines :: "string \<Rightarrow> string" where
  "quote_lines s = join_with NL (map (\<lambda>l. ''> '' @ l) (filter (\<lambda>l. l \<noteq> []) (segments nl s)))"

definition row_text :: "string list \<Rightarrow> string" where
  "row_text cells = join_with '' | '' cells @ NL"

definition is_heading :: "string \<Rightarrow> bool" where
  "is_heading t \<longleftrightarrow>
     length t = 2 \<and> t ! 0 = CHR ''h'' \<and> 49 \<le> byte (t ! 1) \<and> byte (t ! 1) \<le> 54"

text \<open>
  The renderers of a node and the loops over the children of a node: inline text, the items of a
  list (with the number of the next), the body and the nested lists of an item, the cells of a
  row and the rows of a table.
\<close>

function
  render_inline :: "html_node \<Rightarrow> string" and
  render_block :: "html_node \<Rightarrow> string" and
  children_inline :: "html_node list \<Rightarrow> string" and
  render_list :: "bool \<Rightarrow> nat \<Rightarrow> html_node list \<Rightarrow> string" and
  item_parts :: "html_node list \<Rightarrow> string \<times> string" and
  row_cells :: "html_node list \<Rightarrow> string list" and
  render_table :: "html_node list \<Rightarrow> string"
where
  "render_inline (HtmlText s) = collapse_ws_html s"
| "render_inline (HtmlElem t a cs) =
     (if is_skip_tag t then []
      else if t = ''br'' then ''  '' @ NL
      else if t = ''img'' then
        ''!['' @ attr_of (HtmlElem t a cs) ''alt'' @ '']('' @ attr_of (HtmlElem t a cs) ''src'' @ '')''
      else if t = ''a'' then
        ''['' @ trim_html (collapse_ws_html (children_inline cs)) @ '']('' @
        attr_of (HtmlElem t a cs) ''href'' @ '')''
      else if t = ''b'' \<or> t = ''strong'' then ''**'' @ children_inline cs @ ''**''
      else if t = ''em'' \<or> t = ''i'' then ''*'' @ children_inline cs @ ''*''
      else if t = ''del'' \<or> t = ''s'' \<or> t = ''strike'' then ''~~'' @ children_inline cs @ ''~~''
      else if t = ''code'' \<or> t = ''kbd'' then ''`'' @ children_inline cs @ ''`''
      else if t = ''pre'' then NL @ render_code_block cs @ NL
      else children_inline cs)"
| "render_block (HtmlText s) = collapse_ws_html s"
| "render_block (HtmlElem t a cs) =
     (if is_skip_tag t then []
      else if is_heading t then
        replicate (byte (t ! 1) - 48) (CHR ''#'') @ '' '' @ trim_html (children_inline cs)
      else if t = ''hr'' then ''---''
      else if t = ''pre'' then render_code_block cs
      else if t = ''blockquote'' then quote_lines (trim_html (collapse_ws_html (children_inline cs)))
      else if t = ''ul'' then render_list False 1 cs
      else if t = ''ol'' then render_list True 1 cs
      else if t = ''li'' then ''- '' @ trim_html (children_inline cs)
      else if t = ''table'' then render_table cs
      else if t = ''tr'' then row_text (row_cells cs)
      else trim_html (children_inline cs))"
| "children_inline [] = []"
| "children_inline (c # cs) =
     (if is_block_tag (node_tag c) then NL @ render_block c @ NL else render_inline c) @
     children_inline cs"
| "render_list ordered i [] = []"
| "render_list ordered i (HtmlText s # cs) = render_list ordered i cs"
| "render_list ordered i (HtmlElem t a ds # cs) =
     (if t \<noteq> ''li'' then render_list ordered i cs
      else let (body, nested) = item_parts ds in
        (if ordered then nat_str i @ ''. '' else ''- '') @ trim_html body @
        (if nested \<noteq> [] then NL @ nested else []) @ NL @
        render_list ordered (if ordered then Suc i else i) cs)"
| "item_parts [] = ([], [])"
| "item_parts (HtmlText s # cs) =
     (let (body, nested) = item_parts cs in (collapse_ws_html s @ body, nested))"
| "item_parts (HtmlElem t a ds # cs) =
     (let (body, nested) = item_parts cs in
      if t = ''ul'' \<or> t = ''ol'' then
        (body, indent_block (render_list (t = ''ol'') 1 ds) ''  '' @ nested)
      else if is_block_tag t then ('' '' @ render_block (HtmlElem t a ds) @ body, nested)
      else (render_inline (HtmlElem t a ds) @ body, nested))"
| "row_cells [] = []"
| "row_cells (HtmlText s # cs) = row_cells cs"
| "row_cells (HtmlElem t a ds # cs) =
     (if t = ''td'' \<or> t = ''th'' then trim_html (collapse_ws_html (children_inline ds)) # row_cells cs
      else row_cells cs)"
| "render_table [] = []"
| "render_table (HtmlText s # cs) = render_table cs"
| "render_table (HtmlElem t a ds # cs) =
     (if t = ''tr'' then row_text (row_cells ds) @ render_table cs
      else if t = ''thead'' \<or> t = ''tbody'' \<or> t = ''tfoot'' then render_table ds @ render_table cs
      else render_table cs)"
  by (pat_completeness, simp_all only: html_node.distinct html_node.inject list.distinct list.inject
      sum.inject sum.distinct prod.inject simp_thms)
termination
  by (relation "measure (case_sum (case_sum size (case_sum size (size_list size)))
      (case_sum (case_sum (\<lambda>(_, _, cs). size_list size cs) (size_list size))
        (case_sum (size_list size) (size_list size))))")
    (rule wf_measure, simp_all only: in_measure sum.case prod.case html_node.size list.size_gen)


fun collect_text :: "html_node list \<Rightarrow> string" where
  "collect_text [] = []"
| "collect_text (HtmlText s # cs) = s @ collect_text cs"
| "collect_text (HtmlElem t a ds # cs) = (if is_skip_tag t then [] else collect_text ds) @ collect_text cs"

definition convert_html_to_markdown :: "string \<Rightarrow> string" where
  "convert_html_to_markdown html =
     join_with (NL @ NL) (filter (\<lambda>p. p \<noteq> [])
       (map (\<lambda>c. trim_html (if node_tag c \<noteq> [] \<and> is_block_tag (node_tag c) then render_block c
                            else render_inline c)) (parse_html html)))"

definition extract_text_from_html :: "string \<Rightarrow> string" where
  "extract_text_from_html html = trim_html (collect_text (parse_html html))"

section \<open>The tool\<close>

definition cannot_fetch :: "string \<Rightarrow> string" where
  "cannot_fetch url = ''Error: Unable to fetch '' @ url"

definition preview_marker :: string where
  "preview_marker = NL @ ''... (preview truncated; complete content exceeds '' @
     nat_str kMaxOutputBytes @ '' bytes)''"

text \<open>What is shown of an answer.\<close>

definition convert_body :: "string \<Rightarrow> string \<Rightarrow> string \<Rightarrow> string" where
  "convert_body content_type format body =
     (let t = utf8_sanitize body;
          output = utf8_sanitize
            (if \<not> contains_sub content_type ''text/html'' then t
             else if format = ''markdown'' then convert_html_to_markdown t
             else if format = ''text'' then extract_text_from_html t
             else t)
      in if kMaxOutputBytes < length output then truncate_utf8 output kMaxOutputBytes @ preview_marker
         else output)"

definition webfetch_url :: "(web_request \<Rightarrow> web_reply) \<Rightarrow> string \<Rightarrow> string \<Rightarrow> int \<Rightarrow> string" where
  "webfetch_url web url format timeout =
     (if \<not> is_http_url url then cannot_fetch url
      else case fetch web url format timeout of
        None \<Rightarrow> cannot_fetch url
      | Some (body, content_type) \<Rightarrow>
          (let mime = mime_from content_type in
           if is_image_attachment mime \<or> \<not> is_textual_mime mime then cannot_fetch url
           else convert_body content_type format body))"

definition webfetch_execute :: "(web_request \<Rightarrow> web_reply) \<Rightarrow> json \<Rightarrow> string outcome" where
  "webfetch_execute web input =
     bind_outcome (value_str input ''url'' []) (\<lambda>url.
     bind_outcome (value_str input ''format'' ''markdown'') (\<lambda>fmt.
     bind_outcome (value_int input ''timeout'' kDefaultTimeoutSeconds) (\<lambda>t.
       let format = (if fmt \<noteq> ''text'' \<and> fmt \<noteq> ''html'' \<and> fmt \<noteq> ''markdown'' then ''markdown'' else fmt);
           timeout = (let t1 = (if t < 1 then 1 else t) in
                      if kMaxTimeoutSeconds < t1 then kMaxTimeoutSeconds else t1)
       in Inr (webfetch_url web url format timeout))))"

section \<open>Printing a tree\<close>

fun print_attrs :: "(string, string) omap \<Rightarrow> string" where
  "print_attrs [] = []"
| "print_attrs ((k, v) # a) = '' '' @ k @ ''=\"'' @ v @ ''\"'' @ print_attrs a"

fun print_nodes :: "html_node list \<Rightarrow> string" where
  "print_nodes [] = []"
| "print_nodes (HtmlText s # cs) = s @ print_nodes cs"
| "print_nodes (HtmlElem t a ds # cs) =
     CHR ''<'' # t @ print_attrs a @ CHR ''>'' #
     (if is_void_tag t then [] else print_nodes ds @ CHR ''<'' # CHR ''/'' # t @ ''>'') @ print_nodes cs"

definition tag_ok :: "string \<Rightarrow> bool" where
  "tag_ok t \<longleftrightarrow> t \<noteq> [] \<and> hd t \<noteq> CHR ''!'' \<and> lowercase t = t \<and>
     list_all (\<lambda>c. c \<notin> set html_space \<and> c \<noteq> CHR ''/'' \<and> c \<noteq> CHR ''>'') t"

definition attr_ok :: "string \<times> string \<Rightarrow> bool" where
  "attr_ok kv \<longleftrightarrow> fst kv \<noteq> [] \<and> hd (fst kv) \<noteq> CHR ''/'' \<and> lowercase (fst kv) = fst kv \<and>
     list_all (\<lambda>c. \<not> in_tag_space c \<and> c \<noteq> CHR ''='' \<and> c \<noteq> CHR ''>'') (fst kv) \<and>
     list_all (\<lambda>c. c \<noteq> dquote \<and> c \<noteq> CHR ''>'') (snd kv)"

text \<open>Trees that can be written down: no two texts side by side, no markup inside names, values and
  texts, nothing inside void elements.\<close>

fun printable_page :: "html_node list \<Rightarrow> bool" where
  "printable_page [] \<longleftrightarrow> True"
| "printable_page (HtmlText s # cs) \<longleftrightarrow> s \<noteq> [] \<and> CHR ''<'' \<notin> set s \<and> printable_page cs \<and>
     (case cs of HtmlText s' # cs' \<Rightarrow> False | _ \<Rightarrow> True)"
| "printable_page (HtmlElem t a ds # cs) \<longleftrightarrow> tag_ok t \<and> om_ok a \<and> list_all attr_ok a \<and> printable_page ds \<and>
     (is_void_tag t \<longrightarrow> ds = []) \<and> printable_page cs"

lemma om_put_last: "om_ok (m @ [(k, v)]) \<Longrightarrow> om_put k v' m = m @ [(k, v')]"
  by (induction m) (auto simp: om_ok_def om_keys_def)

lemma om_put_sorted: "om_ok (m @ a) \<Longrightarrow> fold (\<lambda>(k, v). om_put k v) a m = m @ a"
proof (induction a arbitrary: m)
  case (Cons kv a)
  obtain k v where kv: "kv = (k, v)" by fastforce
  have "om_ok ((m @ [(k, v)]) @ a)" using Cons.prems kv by simp
  moreover then have "om_ok (m @ [(k, v)])" by (simp add: om_ok_def om_keys_def sorted_wrt_append)
  ultimately show ?case using Cons.IH[of "m @ [(k, v)]"] kv by (simp add: om_put_last)
qed simp

lemma attrs_parse:
  "list_all attr_ok a \<Longrightarrow> attrs_loop (print_attrs a) m = fold (\<lambda>(k, v). om_put k v) a m"
proof (induction a arbitrary: m)
  case Nil
  then show ?case by (subst attrs_loop.simps) simp
next
  case (Cons kv a)
  obtain k v where kv: "kv = (k, v)" by fastforce
  then obtain c ks where k: "k = c # ks" "\<not> in_tag_space c" "c \<noteq> CHR ''/''" "lowercase k = k" "CHR ''='' \<notin> set k"
    using Cons.prems by (cases k) (auto simp: attr_ok_def list_all_iff)
  have v: "dquote \<notin> set v" using Cons.prems kv by (auto simp: attr_ok_def list_all_iff)
  let ?after = "dquote # v @ dquote # print_attrs a"
  have s: "dropWhile in_tag_space (print_attrs (kv # a)) = c # ks @ CHR ''='' # ?after"
    using kv k(1,2) by (simp add: in_tag_space_def tag_space_def)
  have e: "split_at (CHR ''='') (c # ks @ CHR ''='' # ?after) = Some (k, ?after)"
    using k(1,5) unfolding split_at_Some by auto
  have "split_at dquote (v @ dquote # print_attrs a) = Some (v, print_attrs a)"
    using v by (simp add: split_at_Some)
  then have av: "attr_value ?after = (v, print_attrs a)"
    by (simp add: attr_value_def in_tag_space_def tag_space_def)
  have "attrs_loop (print_attrs (kv # a)) m = attrs_loop (print_attrs a) (om_put k v m)"
    using k(3,4) by (subst attrs_loop.simps) (simp only: s list.case e option.case prod.case av fst_conv snd_conv if_False)
  then show ?case using Cons.IH[of "om_put k v m"] Cons.prems kv by simp
qed

lemma attrs_parse_ok: "list_all attr_ok a \<Longrightarrow> om_ok a \<Longrightarrow> attrs_loop (print_attrs a) [] = a"
  using attrs_parse[of a "[]"] om_put_sorted[of "[]" a] by simp

lemma attr_ok_gt: "attr_ok (k, v) \<Longrightarrow> CHR ''>'' \<notin> set k \<and> CHR ''>'' \<notin> set v"
  unfolding attr_ok_def list_all_iff fst_conv snd_conv by blast

lemma print_attrs_gt: "list_all attr_ok a \<Longrightarrow> CHR ''>'' \<notin> set (print_attrs a)"
  by (induction a rule: print_attrs.induct) (simp_all, blast dest: attr_ok_gt)

lemma open_tag_printed:
  assumes "tag_ok t" "list_all attr_ok a" "om_ok a"
  shows "open_tag (t @ print_attrs a) fs =
    (if is_void_tag t then add_child (HtmlElem t a []) fs else \<lparr>fe_tag = t, fe_attrs = a, fe_children = []\<rparr> # fs)"
proof -
  let ?P = "\<lambda>c. \<not> in_tag_space c \<and> c \<noteq> CHR ''/'' \<and> c \<noteq> CHR ''>''"
  have all: "\<forall>c \<in> set t. ?P c"
    using assms(1) by (auto simp: tag_ok_def list_all_iff in_tag_space_def html_space_def)
  have stop: "takeWhile ?P (print_attrs a) = [] \<and> dropWhile ?P (print_attrs a) = print_attrs a"
    by (cases a rule: print_attrs.cases) (simp_all add: in_tag_space_def tag_space_def)
  have "takeWhile ?P (t @ print_attrs a) = t" "dropWhile ?P (t @ print_attrs a) = print_attrs a"
    using all stop by simp_all
  then show ?thesis
    using assms attrs_parse_ok[OF assms(2,3)] by (simp add: open_tag_def tag_ok_def Let_def)
qed

lemma trim_tag: "tag_ok t \<Longrightarrow> lowercase (trim_html t) = t"
  by (simp add: trim_html_def trim_of_id tag_ok_def list_all_iff)

lemma close_printed:
  "fe_tag f = t \<Longrightarrow> close_tag t (f # g # fs) = add_child (elem_of f) (g # fs)"
  by (simp add: close_tag_def)

text \<open>Reading one printed tag.\<close>

lemma parse_open:
  assumes "tag_ok t" "list_all attr_ok a" "om_ok a"
  shows "parse_loop (CHR ''<'' # t @ print_attrs a @ CHR ''>'' # rest) fs =
    parse_loop rest (if is_void_tag t then add_child (HtmlElem t a []) fs
                     else \<lparr>fe_tag = t, fe_attrs = a, fe_children = []\<rparr> # fs)"
proof -
  obtain c ts where t: "t = c # ts" "c \<noteq> CHR ''!''" "c \<noteq> CHR ''/''"
    using assms(1) by (cases t) (auto simp: tag_ok_def)
  have "CHR ''>'' \<notin> set (t @ print_attrs a)"
    using assms(1) print_attrs_gt[OF assms(2)] by (auto simp: tag_ok_def list_all_iff)
  then have s: "split_at (CHR ''>'') ((t @ print_attrs a) @ CHR ''>'' # rest) = Some (t @ print_attrs a, rest)"
    by (simp only: split_at_Some) simp
  have h: "handle_tag (t @ print_attrs a) fs = open_tag (t @ print_attrs a) fs"
    using t by (simp add: handle_tag_def)
  have n: "\<not> starts_with (CHR ''<'' # t @ print_attrs a @ CHR ''>'' # rest) ''<!--''"
    using t by (simp add: starts_with_def)
  show ?thesis
    using s h n open_tag_printed[OF assms] by (subst parse_loop.simps(2)) simp
qed

lemma parse_close:
  assumes "tag_ok t" "fe_tag f = t"
  shows "parse_loop (CHR ''<'' # CHR ''/'' # t @ CHR ''>'' # rest) (f # g # fs) =
    parse_loop rest (add_child (elem_of f) (g # fs))"
proof -
  have "CHR ''>'' \<notin> set (CHR ''/'' # t)" using assms(1) by (auto simp: tag_ok_def list_all_iff)
  then have s: "split_at (CHR ''>'') ((CHR ''/'' # t) @ CHR ''>'' # rest) = Some (CHR ''/'' # t, rest)"
    by (simp only: split_at_Some) simp
  have n: "\<not> starts_with (CHR ''<'' # CHR ''/'' # t @ CHR ''>'' # rest) ''<!--''"
    by (simp add: starts_with_def)
  show ?thesis
    using s n trim_tag[OF assms(1)] close_printed[OF assms(2), of g fs]
    by (subst parse_loop.simps(2)) (simp add: handle_tag_def)
qed

lemma parse_text:
  assumes "s \<noteq> []" "CHR ''<'' \<notin> set s" "rest = [] \<or> hd rest = CHR ''<''"
  shows "parse_loop (s @ rest) fs = parse_loop rest (add_child (HtmlText s) fs)"
proof -
  obtain c cs where s: "s = c # cs" using assms(1) by (cases s) auto
  have all: "\<forall>d \<in> set s. d \<noteq> CHR ''<''" using assms(2) by auto
  have "takeWhile (\<lambda>d. d \<noteq> CHR ''<'') rest = []" "dropWhile (\<lambda>d. d \<noteq> CHR ''<'') rest = rest"
    using assms(3) by (cases rest; simp)+
  with all have t: "takeWhile (\<lambda>d. d \<noteq> CHR ''<'') (s @ rest) = s"
      "dropWhile (\<lambda>d. d \<noteq> CHR ''<'') (s @ rest) = rest"
    by (simp_all add: takeWhile_append dropWhile_append)
  have "c \<noteq> CHR ''<''" using all s by simp
  then show ?thesis using t unfolding s append_Cons by (subst parse_loop.simps(2)) simp
qed

text \<open>What follows a printed forest must not run into its last text.\<close>

lemma parse_forest:
  assumes "printable_page cs" "rest = [] \<or> hd rest = CHR ''<''"
  shows "parse_loop (print_nodes cs @ rest) (f # fs) =
    parse_loop rest (f\<lparr>fe_children := fe_children f @ cs\<rparr> # fs)"
  using assms
proof (induction cs arbitrary: rest f fs rule: print_nodes.induct)
  case 1
  then show ?case by simp
next
  case (2 s cs)
  have "print_nodes cs @ rest = [] \<or> hd (print_nodes cs @ rest) = CHR ''<''"
    using 2(2,3) by (cases cs rule: print_nodes.cases) auto
  with 2 show ?case by (simp add: parse_text)
next
  case (3 t a ds cs)
  let ?rest = "print_nodes cs @ rest"
  have ok: "tag_ok t" "list_all attr_ok a" "om_ok a" "printable_page ds" "printable_page cs"
    using 3(3) by simp_all
  show ?case
  proof (cases "is_void_tag t")
    case True
    then show ?thesis
      using 3 parse_open[OF ok(1-3), of ?rest "f # fs"] by simp
  next
    case False
    let ?g = "\<lparr>fe_tag = t, fe_attrs = a, fe_children = []\<rparr>"
    have "parse_loop (print_nodes ds @ CHR ''<'' # CHR ''/'' # t @ CHR ''>'' # ?rest) (?g # f # fs) =
        parse_loop (CHR ''<'' # CHR ''/'' # t @ CHR ''>'' # ?rest) (?g\<lparr>fe_children := ds\<rparr> # f # fs)"
      using 3(1)[OF False ok(4), of _ ?g "f # fs"] by simp
    then show ?thesis
      using False 3(2)[OF ok(5) 3(4)] parse_open[OF ok(1-3), of _ "f # fs"]
        parse_close[OF ok(1), of "?g\<lparr>fe_children := ds\<rparr>" ?rest f fs]
      by (simp add: elem_of_def)
  qed
qed

lemma html_parse_printed: "printable_page cs \<Longrightarrow> parse_html (print_nodes cs) = cs"
  using parse_forest[of cs "[]" root_frame "[]"]
  by (simp add: parse_html_def parse_loop.simps(1) root_frame_def)

section \<open>What the tool returns\<close>







text \<open>C30: the parser inverts the printer: a tree that can be written as HTML is read back as it was, and
  the text the tool extracts from it is the text of its visible nodes, trimmed.\<close>

theorem html_parse_print:
  assumes "printable_page cs"
  shows "parse_html (print_nodes cs) = cs \<and>
    extract_text_from_html (print_nodes cs) = trim_html (collect_text cs)"
  using html_parse_printed[OF assms] by (simp add: extract_text_from_html_def)

definition demo_page :: "html_node list" where
  "demo_page = [HtmlElem ''h1'' [] [HtmlText ''Hi'', HtmlElem ''br'' [] []],
     HtmlElem ''p'' [(''class'', ''x''), (''id'', ''1'')] [HtmlText ''a '', HtmlElem ''b'' [] [HtmlText ''c'']],
     HtmlElem ''script'' [] [HtmlText ''f()'']]"

theorem html_parse_print_witness:
  "parse_html (print_nodes demo_page) = demo_page \<and> extract_text_from_html (print_nodes demo_page) = ''Hia c''"
proof -
  have "printable_page demo_page" by code_simp
  moreover have "trim_html (collect_text demo_page) = ''Hia c''" by code_simp
  ultimately show ?thesis using html_parse_print by simp
qed

section \<open>Divergences\<close>

text \<open>White space at the ends of a text node is dropped, so words of neighbouring nodes run together.\<close>

lemma words_run_together: "convert_html_to_markdown ''a <b>b</b> c'' = ''a'' @ NL @ NL @ ''**b**'' @ NL @ NL @ ''c'' \<and>
  convert_html_to_markdown ''<p>a <b>b</b> c</p>'' = ''a**b**c''"
  by code_simp

text \<open>The content of a script is read as markup: a comparison in it swallows the closing tag, and with
  it the rest of the page.\<close>

lemma script_swallows_page: "extract_text_from_html ''<script>a<b</script>text'' = []"
  by code_simp

text \<open>An attribute without a value takes the next attribute into its name.\<close>

lemma bare_attribute_hides_next:
  "convert_html_to_markdown ''<a download href=\"x\">y</a>'' = ''[y]()''"
  by code_simp

end
