(* ===== verification/Tool_Search.thy ===== *)
theory Tool_Search
  imports Tool_Edit
begin

text \<open>
  The tools that look around: \<open>grep\<close>, \<open>glob\<close>, \<open>ls\<close> and \<open>skill\<close> (\<open>src/tool/grep.h\<close>, \<open>glob.h\<close>, \<open>ls.h\<close>,
  \<open>skill.h\<close>). What the file system answers, in which order a directory is walked, and where the walk
  throws is a parameter; \<open>glob(3)\<close> is one too.
\<close>

section \<open>Lines of a file\<close>

text \<open>What \<open>std::getline\<close> yields: an unfinished last line counts when it has a byte.\<close>

function file_lines :: "string \<Rightarrow> string list" where
  "file_lines s =
     (case split_at nl s of
        None \<Rightarrow> if s = [] then [] else [s]
      | Some (line, rest) \<Rightarrow> line # file_lines rest)"
  by pat_completeness auto
termination by (relation "measure length") (auto dest: split_at_length)

declare file_lines.simps [simp del]

lemma file_lines_Nil [simp]: "file_lines [] = []"
  by (subst file_lines.simps) simp

lemma file_lines_line: "nl \<notin> set l \<Longrightarrow> file_lines (l @ nl # s) = l # file_lines s"
proof -
  assume "nl \<notin> set l"
  then have "split_at nl (l @ nl # s) = Some (l, s)" by (simp add: split_at_Some)
  then show ?thesis by (subst file_lines.simps) simp
qed

section \<open>grep\<close>

datatype file_kind = RegularFile | Directory | OtherFile | NoFile

text \<open>A step of a recursive walk: an entry with path, file name and whether it is a regular file, or
  the exception that advancing throws.\<close>

datatype walk_step = WalkEntry string string "bool outcome" | WalkThrows failure

record search_env =
  se_kind :: "string \<Rightarrow> file_kind outcome"
  se_walk :: "string \<Rightarrow> walk_step list"
  se_content :: "string \<Rightarrow> string option"

definition grep_limit :: nat where "grep_limit = 50"

definition grep_row :: "string \<Rightarrow> nat \<Rightarrow> string \<Rightarrow> string" where
  "grep_row file n line = file @ '':'' @ nat_str n @ '': '' @ line @ NL"

fun search_lines :: "string \<Rightarrow> string \<Rightarrow> nat \<Rightarrow> string list \<Rightarrow> nat \<Rightarrow> string \<times> nat" where
  "search_lines file pat n [] found = ([], found)"
| "search_lines file pat n (l # ls) found =
     (if grep_limit \<le> found then ([], found)
      else if contains_sub l pat then
        (let (r, k) = search_lines file pat (Suc n) ls (Suc found) in (grep_row file n l @ r, k))
      else search_lines file pat (Suc n) ls found)"

definition search_file :: "search_env \<Rightarrow> string \<Rightarrow> string \<Rightarrow> nat \<Rightarrow> string \<times> nat" where
  "search_file env file pat found =
     (case se_content env file of
        None \<Rightarrow> ([], found)
      | Some s \<Rightarrow> search_lines file pat 1 (file_lines s) found)"

definition matches_pattern :: "string \<Rightarrow> string \<Rightarrow> bool" where
  "matches_pattern filename pattern \<longleftrightarrow> contains_sub filename pattern"

text \<open>Advancing comes before the check of the limit, and may throw.\<close>

fun search_walk ::
    "search_env \<Rightarrow> string \<Rightarrow> string \<Rightarrow> walk_step list \<Rightarrow> nat \<Rightarrow> (string \<times> nat) outcome" where
  "search_walk env pat incl [] found = Inr ([], found)"
| "search_walk env pat incl (WalkThrows e # ws) found = Inl e"
| "search_walk env pat incl (WalkEntry path filename regular # ws) found =
     (if grep_limit \<le> found then Inr ([], found)
      else bind_outcome regular (\<lambda>reg.
        let (r, k) = (if reg \<and> (incl = [] \<or> matches_pattern filename incl)
                      then search_file env path pat found else ([], found))
        in bind_outcome (search_walk env pat incl ws k) (\<lambda>(r', k'). Inr (r @ r', k'))))"

definition grep_report :: "string \<times> nat \<Rightarrow> string" where
  "grep_report rk =
     (if fst rk = [] then ''No matches found''
      else fst rk @ (if grep_limit \<le> snd rk then NL @ ''(Results limited to 50 matches)'' else []))"

definition grep_path :: "search_env \<Rightarrow> string \<Rightarrow> string \<Rightarrow> string \<Rightarrow> string outcome" where
  "grep_path env pat path incl =
     bind_outcome (se_kind env path) (\<lambda>k. case k of
         RegularFile \<Rightarrow> Inr (grep_report (search_file env path pat 0))
       | Directory \<Rightarrow> bind_outcome (search_walk env pat incl (se_walk env path) 0) (\<lambda>rk. Inr (grep_report rk))
       | _ \<Rightarrow> Inr (''Error: Path not found: '' @ path))"

definition grep_execute :: "search_env \<Rightarrow> json \<Rightarrow> string outcome" where
  "grep_execute env input =
     bind_outcome (bind_outcome (jindex input ''pattern'') get_str) (\<lambda>pat.
     bind_outcome (value_str input ''path'' ''.'') (\<lambda>path.
     bind_outcome (value_str input ''include'' []) (\<lambda>incl. grep_path env pat path incl)))"

section \<open>glob and ls\<close>

text \<open>\<open>gl\<close> gives the return value of \<open>glob\<close> and the paths it found.\<close>

definition glob_execute :: "(string \<Rightarrow> int \<times> string list) \<Rightarrow> json \<Rightarrow> string outcome" where
  "glob_execute gl input =
     bind_outcome (bind_outcome (jindex input ''pattern'') get_str) (\<lambda>pattern.
     bind_outcome (case jfind input ''path'' of
         None \<Rightarrow> Inr pattern
       | Some JNull \<Rightarrow> Inr pattern
       | Some p \<Rightarrow> bind_outcome (get_str p) (\<lambda>base. Inr (base @ ''/'' @ pattern))) (\<lambda>full.
       let (ret, paths) = gl full in
       Inr (if ret \<noteq> 0 then ''Error: No files matched pattern (glob returned '' @ int_str ret @ '')''
            else concat (map (\<lambda>p. p @ NL) paths))))"

text \<open>A directory's entries: name and whether it is a directory; advancing may throw.\<close>

datatype list_step = ListEntry string "bool outcome" | ListThrows failure

record list_env =
  le_exists :: "string \<Rightarrow> bool outcome"
  le_entries :: "string \<Rightarrow> list_step list"

fun ls_entries :: "list_step list \<Rightarrow> string outcome" where
  "ls_entries [] = Inr []"
| "ls_entries (ListThrows e # es) = Inl e"
| "ls_entries (ListEntry name dir # es) =
     bind_outcome dir (\<lambda>d. bind_outcome (ls_entries es) (\<lambda>r.
       Inr ((if d then name @ ''/'' @ NL else name @ NL) @ r)))"

definition ls_execute :: "list_env \<Rightarrow> json \<Rightarrow> string outcome" where
  "ls_execute env input =
     bind_outcome (value_str input ''path'' ''.'') (\<lambda>path.
     bind_outcome (le_exists env path) (\<lambda>ex.
       if \<not> ex then Inr (''Error: Path not found: '' @ path) else ls_entries (le_entries env path)))"

section \<open>skill\<close>

record skill_info =
  si_name :: string
  si_location :: string
  si_directory :: string
  si_content :: string

text \<open>An entry of a root: its name and path, whether it is a directory, and what its \<open>SKILL.md\<close> holds,
  if that is a regular file (an unreadable one reads as empty).\<close>

record skill_entry =
  se_name :: string
  se_path :: string
  se_dir :: "bool outcome"
  se_text :: "string option"

datatype root_step = RootEntry skill_entry | RootThrows failure

record skill_env =
  sk_home :: "root_step list option"
  sk_project :: "root_step list option"
  sk_files :: "string \<Rightarrow> (string \<times> string \<times> bool) list"

definition kFileLimit :: nat where "kFileLimit = 10"

definition skill_md :: string where "skill_md = ''SKILL.md''"

definition trim_skill :: "string \<Rightarrow> string" where
  "trim_skill s = trim_of [CHR '' '', tab, cr, nl] s"

definition info_of :: "skill_entry \<Rightarrow> string \<Rightarrow> skill_info" where
  "info_of e content =
     \<lparr>si_name = se_name e, si_location = se_path e @ ''/'' @ skill_md, si_directory = se_path e,
      si_content = content\<rparr>"

fun scan_root :: "root_step list \<Rightarrow> (string, skill_info) omap \<Rightarrow> (string, skill_info) omap outcome" where
  "scan_root [] m = Inr m"
| "scan_root (RootThrows e # rs) m = Inl e"
| "scan_root (RootEntry e # rs) m =
     bind_outcome (se_dir e) (\<lambda>d.
       if \<not> d then scan_root rs m
       else (case se_text e of
           None \<Rightarrow> scan_root rs m
         | Some content \<Rightarrow>
             if content = [] then scan_root rs m
             else scan_root rs (om_put (se_name e) (info_of e content) m)))"

text \<open>A root that is no directory is passed over; the project's root comes last.\<close>

definition scan_roots :: "skill_env \<Rightarrow> (string, skill_info) omap outcome" where
  "scan_roots env =
     bind_outcome (case sk_home env of None \<Rightarrow> Inr [] | Some rs \<Rightarrow> scan_root rs []) (\<lambda>m.
       case sk_project env of None \<Rightarrow> Inr m | Some rs \<Rightarrow> scan_root rs m)"

definition list_skills :: "skill_env \<Rightarrow> skill_info list outcome" where
  "list_skills env = bind_outcome (scan_roots env) (\<lambda>m. Inr (sort_key si_name (map snd m)))"

definition find_skill :: "skill_env \<Rightarrow> string \<Rightarrow> skill_info option outcome" where
  "find_skill env name =
     bind_outcome (list_skills env) (\<lambda>infos. Inr (find (\<lambda>i. si_name i = name) infos))"

text \<open>Path, file name and whether it is a regular file, for every entry the walk reaches.\<close>

definition sample_files :: "(string \<times> string \<times> bool) list \<Rightarrow> string list" where
  "sample_files es =
     take kFileLimit (sort (map fst (filter (\<lambda>(path, filename, reg). reg \<and> filename \<noteq> skill_md) es)))"

definition to_model_output :: "skill_info \<Rightarrow> string list \<Rightarrow> string" where
  "to_model_output s files =
     ''<skill_content name=\"'' @ si_name s @ ''\">'' @ NL @
     ''# Skill: '' @ si_name s @ NL @ NL @
     trim_skill (si_content s) @ NL @ NL @
     ''Base directory for this skill: '' @ si_directory s @ NL @
     ''Relative paths in this skill (e.g., scripts/, reference/) are relative to this base directory.'' @ NL @
     ''Note: file list is sampled.'' @ NL @ NL @
     ''<skill_files>'' @ NL @
     concat (map (\<lambda>f. ''<file>'' @ f @ ''</file>'' @ NL) files) @
     ''</skill_files>'' @ NL @ ''</skill_content>''"

definition filename_of :: "string \<Rightarrow> string" where
  "filename_of path = rev (takeWhile (\<lambda>c. c \<noteq> CHR ''/'') (rev path))"

definition skill_execute :: "skill_env \<Rightarrow> json \<Rightarrow> string outcome" where
  "skill_execute env input =
     bind_outcome (value_str input ''name'' []) (\<lambda>name.
     bind_outcome (find_skill env name) (\<lambda>found.
       Inr (case found of
           None \<Rightarrow> ''Error: Unable to load skill '' @ name
         | Some s \<Rightarrow> to_model_output s
             (if filename_of (si_location s) = skill_md then sample_files (sk_files env (si_directory s)) else []))))"

section \<open>What grep finds\<close>

text \<open>The reference: all matching rows of a file, and of all files searched, in order.\<close>

definition file_rows :: "search_env \<Rightarrow> string \<Rightarrow> string \<Rightarrow> string list" where
  "file_rows env pat file =
     (case se_content env file of
        None \<Rightarrow> []
      | Some s \<Rightarrow> map (\<lambda>(n, l). grep_row file n l)
          (filter (\<lambda>(n, l). sublist pat l) (enumerate 1 (file_lines s))))"

lemma search_lines_rows:
  "found \<le> grep_limit \<Longrightarrow>
   search_lines file pat n ls found =
     (let rows = map (\<lambda>(n, l). grep_row file n l) (filter (\<lambda>(n, l). sublist pat l) (enumerate n ls)) in
      (concat (take (grep_limit - found) rows), found + length (take (grep_limit - found) rows)))"
proof (induction ls arbitrary: n found)
  case (Cons l ls)
  show ?case
  proof (cases "grep_limit \<le> found")
    case True
    with Cons.prems show ?thesis by (simp add: Let_def)
  next
    case False
    then obtain k where k: "grep_limit - found = Suc k" "grep_limit - Suc found = k" "Suc found \<le> grep_limit"
      by (metis Suc_diff_Suc not_le Suc_leI)
    show ?thesis
      using Cons.IH[of found "Suc n"] Cons.IH[OF k(3), of "Suc n"] Cons.prems False k
      by (simp add: Let_def contains_sub_iff)
  qed
qed (simp add: Let_def)

lemma search_file_rows:
  "found \<le> grep_limit \<Longrightarrow>
   search_file env file pat found =
     (concat (take (grep_limit - found) (file_rows env pat file)),
      found + length (take (grep_limit - found) (file_rows env pat file)))"
  by (simp add: search_file_def file_rows_def search_lines_rows Let_def split: option.splits)

definition wanted :: "string \<Rightarrow> string \<times> string \<times> bool \<Rightarrow> bool" where
  "wanted incl e \<longleftrightarrow> (case e of (path, filename, reg) \<Rightarrow> reg \<and> sublist incl filename)"

definition calm_walk :: "(string \<times> string \<times> bool) list \<Rightarrow> walk_step list" where
  "calm_walk es = map (\<lambda>(path, filename, reg). WalkEntry path filename (Inr reg)) es"

lemma search_walk_rows:
  "found \<le> grep_limit \<Longrightarrow>
   search_walk env pat incl (calm_walk es) found =
     (let rows = concat (map (\<lambda>e. file_rows env pat (fst e)) (filter (wanted incl) es)) in
      Inr (concat (take (grep_limit - found) rows), found + length (take (grep_limit - found) rows)))"
proof (induction es arbitrary: found)
  case (Cons e es)
  obtain path filename reg where e: "e = (path, filename, reg)" by (cases e) auto
  have w: "wanted incl e \<longleftrightarrow> reg \<and> (incl = [] \<or> matches_pattern filename incl)"
    by (auto simp: wanted_def e matches_pattern_def contains_sub_iff)
  show ?case
  proof (cases "grep_limit \<le> found")
    case True
    with Cons.prems e show ?thesis by (simp add: Let_def calm_walk_def)
  next
    case False
    let ?rows = "file_rows env pat path"
    let ?k = "found + length (take (grep_limit - found) ?rows)"
    have k: "?k \<le> grep_limit" using Cons.prems by simp
    have d: "grep_limit - ?k = grep_limit - found - length ?rows" by simp
    show ?thesis
    proof (cases "wanted incl e")
      case True
      with False e w have "search_walk env pat incl (calm_walk (e # es)) found =
          bind_outcome (search_walk env pat incl (calm_walk es) ?k)
            (\<lambda>(r', k'). Inr (concat (take (grep_limit - found) ?rows) @ r', k'))"
        by (simp add: calm_walk_def search_file_rows[OF Cons.prems])
      with True e show ?thesis
        by (simp add: Cons.IH[OF k] Let_def d del: length_take)
    next
      case no: False
      with False e w have "search_walk env pat incl (calm_walk (e # es)) found =
          bind_outcome (search_walk env pat incl (calm_walk es) found) (\<lambda>(r', k'). Inr (r', k'))"
        by (auto simp: calm_walk_def)
      with no show ?thesis by (simp add: Cons.IH[OF Cons.prems] Let_def)
    qed
  qed
qed (simp add: calm_walk_def)

lemma rows_nonempty: "list_all (\<lambda>r. r \<noteq> []) rows \<Longrightarrow> concat rows = [] \<longleftrightarrow> rows = []"
  by (cases rows) auto

lemma file_rows_nonempty: "list_all (\<lambda>r. r \<noteq> []) (file_rows env pat file)"
  by (auto simp: file_rows_def list_all_iff grep_row_def split: option.splits)

text \<open>The rows a search is about: those of the one file, or of the wanted files of the walk.\<close>

definition search_rows ::
    "search_env \<Rightarrow> string \<Rightarrow> string \<Rightarrow> string \<Rightarrow> file_kind \<Rightarrow> (string \<times> string \<times> bool) list \<Rightarrow> string list" where
  "search_rows env pat path incl kind es =
     (if kind = RegularFile then file_rows env pat path
      else concat (map (\<lambda>e. file_rows env pat (fst e)) (filter (wanted incl) es)))"

lemma grep_report_rows:
  assumes "list_all (\<lambda>r. r \<noteq> []) rows"
  shows "grep_report (concat (take grep_limit rows), length (take grep_limit rows)) =
    (if rows = [] then ''No matches found''
     else concat (take 50 rows) @ (if 50 \<le> length rows then NL @ ''(Results limited to 50 matches)'' else []))"
proof -
  have "list_all (\<lambda>r. r \<noteq> []) (take 50 rows)" using assms by (auto simp: list_all_iff dest: in_set_takeD)
  from rows_nonempty[OF this] have "concat (take 50 rows) = [] \<longleftrightarrow> rows = []" by simp
  then show ?thesis by (simp add: grep_report_def grep_limit_def)
qed

section \<open>Which skill is loaded\<close>

definition loadable :: "skill_entry \<Rightarrow> bool" where
  "loadable e \<longleftrightarrow> se_dir e = Inr True \<and> se_text e \<noteq> None \<and> se_text e \<noteq> Some []"

definition info_for :: "skill_entry \<Rightarrow> skill_info" where
  "info_for e = info_of e (the (se_text e))"

text \<open>A root that can be read to the end.\<close>

definition calm_root :: "root_step list option \<Rightarrow> skill_entry list \<Rightarrow> bool" where
  "calm_root r es \<longleftrightarrow> (r = None \<and> es = []) \<or>
     (r = Some (map RootEntry es) \<and> list_all (\<lambda>e. \<exists>d. se_dir e = Inr d) es)"

definition keep_skills :: "skill_entry list \<Rightarrow> (string, skill_info) omap \<Rightarrow> (string, skill_info) omap" where
  "keep_skills es m = fold (\<lambda>e m. if loadable e then om_put (se_name e) (info_for e) m else m) es m"

lemma keep_skills_simps [simp]:
  "keep_skills [] m = m"
  "keep_skills (e # es) m = keep_skills es (if loadable e then om_put (se_name e) (info_for e) m else m)"
  by (simp_all add: keep_skills_def)

lemma scan_calm:
  "list_all (\<lambda>e. \<exists>d. se_dir e = Inr d) es \<Longrightarrow> scan_root (map RootEntry es) m = Inr (keep_skills es m)"
proof (induction es arbitrary: m)
  case (Cons e es)
  then obtain d where d: "se_dir e = Inr d" by auto
  show ?case
  proof (cases "loadable e")
    case True
    then have "d" using d by (simp add: loadable_def)
    with True d Cons show ?thesis by (auto simp: loadable_def info_for_def split: option.splits)
  next
    case False
    with d Cons show ?thesis by (auto simp: loadable_def split: option.splits)
  qed
qed simp

lemma keep_skills_get:
  "om_get (keep_skills es m) name =
     (case find (\<lambda>e. loadable e \<and> se_name e = name) (rev es) of
        Some e \<Rightarrow> Some (info_for e) | None \<Rightarrow> om_get m name)"
proof (induction es arbitrary: m)
  case (Cons e es)
  have f: "find P (xs @ [x]) = (case find P xs of Some y \<Rightarrow> Some y | None \<Rightarrow> if P x then Some x else None)"
    for P :: "skill_entry \<Rightarrow> bool" and xs x by (induction xs) auto
  show ?case using Cons by (auto simp: f om_get_put split: option.splits)
qed simp

definition named :: "(string, skill_info) omap \<Rightarrow> bool" where
  "named m \<longleftrightarrow> om_ok m \<and> list_all (\<lambda>(k, i). si_name i = k) m"

lemma named_put: "named m \<Longrightarrow> si_name i = k \<Longrightarrow> named (om_put k i m)"
proof -
  assume "named m" "si_name i = k"
  moreover have "list_all (\<lambda>(k, i). si_name i = k) m \<Longrightarrow> si_name i = k \<Longrightarrow>
      list_all (\<lambda>(k, i). si_name i = k) (om_put k i m)"
    by (induction k i m rule: om_put.induct) auto
  ultimately show ?thesis by (simp add: named_def om_ok_put)
qed

lemma keep_skills_named: "named m \<Longrightarrow> named (keep_skills es m)"
  by (induction es arbitrary: m) (simp_all add: named_put info_for_def info_of_def)

lemma find_in_named: "named m \<Longrightarrow> find (\<lambda>i. si_name i = name) (sort_key si_name (map snd m)) = om_get m name"
proof -
  assume n: "named m"
  have names: "map si_name (map snd m) = om_keys m"
    using n by (auto simp: named_def om_keys_def list_all_iff)
  have "sorted (om_keys m)"
    using n by (simp add: named_def om_ok_def strict_sorted_imp_sorted)
  then have s: "sort_key si_name (map snd m) = map snd m"
    by (intro sort_key_id_if_sorted) (simp only: names)
  have "list_all (\<lambda>(k, i). si_name i = k) m" using n by (simp add: named_def)
  then have "find (\<lambda>i. si_name i = name) (map snd m) = om_get m name"
    by (induction m) (auto simp: om_get_def)
  with s show ?thesis by simp
qed

lemma find_skill_calm:
  assumes "calm_root (sk_home env) hs" "calm_root (sk_project env) ps"
  shows "find_skill env name =
    Inr (map_option info_for (find (\<lambda>e. loadable e \<and> se_name e = name) (rev (hs @ ps))))"
proof -
  have m: "scan_roots env = Inr (keep_skills ps (keep_skills hs []))"
    using assms by (auto simp: scan_roots_def calm_root_def scan_calm)
  have "keep_skills ps (keep_skills hs []) = keep_skills (hs @ ps) []" by (simp add: keep_skills_def)
  moreover have "named (keep_skills (hs @ ps) [])" by (rule keep_skills_named) (simp add: named_def)
  ultimately show ?thesis
    using find_in_named[of "keep_skills (hs @ ps) []" name] keep_skills_get[of "hs @ ps" "[]" name]
    by (simp add: find_skill_def list_skills_def m del: rev_append split: option.splits)
qed

section \<open>Properties\<close>

text \<open>C32: when nothing throws, \<open>grep\<close> returns the first fifty matching rows of the file, or of the wanted
  files in the order of the walk, with a notice when there are fifty or more.\<close>

theorem grep_shows_first_matches:
  assumes "se_kind env path = Inr kind" "kind = RegularFile \<or> kind = Directory"
    and "kind = Directory \<Longrightarrow> se_walk env path = calm_walk es"
  shows "grep_path env pat path incl =
    Inr (let rows = search_rows env pat path incl kind es in
      if rows = [] then ''No matches found''
      else concat (take 50 rows) @ (if 50 \<le> length rows then NL @ ''(Results limited to 50 matches)'' else []))"
proof -
  let ?rows = "search_rows env pat path incl kind es"
  have "list_all (\<lambda>r. r \<noteq> []) ?rows"
    using file_rows_nonempty by (auto simp: search_rows_def list_all_iff)
  moreover have "grep_path env pat path incl =
      Inr (grep_report (concat (take grep_limit ?rows), length (take grep_limit ?rows)))"
    using assms search_file_rows[of 0 env path pat] search_walk_rows[of 0 env pat incl es]
    by (auto simp: grep_path_def search_rows_def Let_def)
  ultimately show ?thesis by (simp only: grep_report_rows Let_def)
qed

definition demo_search :: search_env where
  "demo_search = \<lparr>se_kind = (\<lambda>p. Inr (if p = ''.'' then Directory else NoFile)),
     se_walk = (\<lambda>p. calm_walk [(''./a.h'', ''a.h'', True), (''./d'', ''d'', False), (''./b.cpp'', ''b.cpp'', True)]),
     se_content = (\<lambda>p. if p = ''./a.h'' then Some (''int a;'' @ NL @ ''char b;'' @ NL @ ''int c'') else Some ''int'')\<rparr>"

theorem grep_shows_first_matches_witness:
  "grep_path demo_search ''int'' ''.'' ''.h'' =
     Inr (''./a.h:1: int a;'' @ NL @ ''./a.h:3: int c'' @ NL)"
proof -
  have "search_rows demo_search ''int'' ''.'' ''.h'' Directory
      [(''./a.h'', ''a.h'', True), (''./d'', ''d'', False), (''./b.cpp'', ''b.cpp'', True)] =
      [''./a.h:1: int a;'' @ NL, ''./a.h:3: int c'' @ NL]" by code_simp
  moreover have "se_kind demo_search ''.'' = Inr Directory"
    "se_walk demo_search ''.'' = calm_walk [(''./a.h'', ''a.h'', True), (''./d'', ''d'', False), (''./b.cpp'', ''b.cpp'', True)]"
    by (simp_all add: demo_search_def)
  ultimately show ?thesis
    using grep_shows_first_matches[of demo_search "''.''" Directory _ "''int''" "''.h''"] by simp
qed

text \<open>\<open>skill\<close> loads the last loadable entry of the name, the project's root after the home's: a
  project skill hides the global one, and an empty one does not.\<close>

theorem project_skill_wins:
  assumes "calm_root (sk_home env) hs" "calm_root (sk_project env) ps"
  shows "skill_execute env (JObj [(''name'', JStr name)]) =
    Inr (case find (\<lambda>e. loadable e \<and> se_name e = name) (rev ps @ rev hs) of
        None \<Rightarrow> ''Error: Unable to load skill '' @ name
      | Some e \<Rightarrow> to_model_output (info_for e) (sample_files (sk_files env (se_path e))))"
proof -
  have f: "filename_of (p @ ''/'' @ skill_md) = skill_md" for p
    by (simp add: filename_of_def skill_md_def)
  show ?thesis
    using find_skill_calm[OF assms, of name]
    by (simp add: skill_execute_def value_of_def info_for_def info_of_def f[simplified] split: option.splits)
qed

definition demo_skills :: skill_env where
  "demo_skills = \<lparr>sk_home = Some [RootEntry \<lparr>se_name = ''x'', se_path = ''/h/x'', se_dir = Inr True, se_text = Some ''home''\<rparr>],
     sk_project = Some [RootEntry \<lparr>se_name = ''x'', se_path = ''/p/x'', se_dir = Inr True, se_text = Some []\<rparr>],
     sk_files = (\<lambda>d. [(d @ ''/r.md'', ''r.md'', True), (d @ ''/SKILL.md'', ''SKILL.md'', True)])\<rparr>"

theorem project_skill_wins_witness:
  "\<exists>out. skill_execute demo_skills (JObj [(''name'', JStr ''x'')]) =
     Inr (to_model_output out [''/h/x/r.md'']) \<and> si_content out = ''home''"
proof -
  let ?h = "\<lparr>se_name = ''x'', se_path = ''/h/x'', se_dir = Inr True, se_text = Some ''home''\<rparr>"
  let ?p = "\<lparr>se_name = ''x'', se_path = ''/p/x'', se_dir = Inr True, se_text = Some []\<rparr>"
  have "calm_root (sk_home demo_skills) [?h]" "calm_root (sk_project demo_skills) [?p]"
    by (auto simp: demo_skills_def calm_root_def)
  from project_skill_wins[OF this, of "''x''"]
  have "skill_execute demo_skills (JObj [(''name'', JStr ''x'')]) =
      Inr (to_model_output (info_for ?h) (sample_files (sk_files demo_skills ''/h/x'')))"
    by (simp add: loadable_def)
  moreover have "sample_files (sk_files demo_skills ''/h/x'') = [''/h/x/r.md'']" by code_simp
  moreover have "si_content (info_for ?h) = ''home''" by (simp add: info_for_def info_of_def)
  ultimately show ?thesis by metis
qed

section \<open>Divergences\<close>

text \<open>The parameter is described as a pattern such as \<open>*.cpp\<close>; it is a literal part of the name.\<close>

lemma include_star_matches_nothing: "\<not> matches_pattern ''main.cpp'' ''*.cpp''"
  by code_simp

end
