(* ===== verification/Tool_Bash.thy ===== *)
theory Tool_Bash
  imports Json_Value
begin

text \<open>
  The tool that runs a shell command (\<open>src/tool/bash.h\<close>): the capture loop with its deadline, how the
  command is ended, and what is reported. The operating system is a parameter: whether the pipe and
  the child can be made, and for each turn of the loop the time elapsed before it and what \<open>select\<close>
  and \<open>read\<close> then answer.
\<close>

definition DEFAULT_TIMEOUT_MS :: int where "DEFAULT_TIMEOUT_MS = 120000"
definition MAX_TIMEOUT_MS :: int where "MAX_TIMEOUT_MS = 600000"
definition MAX_CAPTURE_BYTES :: nat where "MAX_CAPTURE_BYTES = 1024 * 1024"

section \<open>Capturing the output\<close>

datatype bash_event =
    SelectExpired
  | SelectFailed
  | ReadSome string
  | ReadEnded

text \<open>The output so far and whether the time ran out; \<open>None\<close> while the loop is still waiting.\<close>

fun capture :: "int \<Rightarrow> (int \<times> bash_event) list \<Rightarrow> string \<Rightarrow> (string \<times> bool) option" where
  "capture timeout [] result = None"
| "capture timeout ((elapsed, ev) # evs) result =
     (if timeout - elapsed \<le> 0 then Some (result, True)
      else case ev of
          SelectExpired \<Rightarrow> Some (result, True)
        | SelectFailed \<Rightarrow> Some (result, False)
        | ReadSome data \<Rightarrow> capture timeout evs (result @ data)
        | ReadEnded \<Rightarrow> Some (result, False))"

section \<open>Ending the command and reporting\<close>

text \<open>What is done to the process group: signals, then waiting for the shell, which may block.\<close>

datatype bash_action = KillTerm | KillKill | WaitForShell

definition bash_actions :: "bool \<Rightarrow> bash_action list" where
  "bash_actions timed_out = (if timed_out then [KillTerm, KillKill, WaitForShell] else [WaitForShell])"

definition timeout_text :: "int \<Rightarrow> string" where
  "timeout_text timeout =
     NL @ ''Command timed out after '' @ int_str timeout @ ''ms. Retry with a larger timeout if expected to take longer.''"

definition truncated_text :: string where
  "truncated_text = NL @ ''[output capture truncated at 1MB limit]''"

definition bash_report :: "int \<Rightarrow> string \<Rightarrow> bool \<Rightarrow> string" where
  "bash_report timeout result timed_out =
     (let truncated = MAX_CAPTURE_BYTES < length result;
          r1 = (if truncated then take MAX_CAPTURE_BYTES result else result);
          r2 = (if r1 = [] \<and> \<not> timed_out then ''(no output)'' else r1)
      in if timed_out then r2 @ timeout_text timeout
         else if truncated then r2 @ truncated_text else r2)"

record bash_env =
  be_pipe_ok :: bool
  be_fork_ok :: bool
  be_events :: "string \<Rightarrow> string \<Rightarrow> (int \<times> bash_event) list"

definition bash_run :: "bash_env \<Rightarrow> string \<Rightarrow> string \<Rightarrow> int \<Rightarrow> (string \<times> bash_action list) option" where
  "bash_run env command workdir timeout0 =
     (let timeout = (if MAX_TIMEOUT_MS < timeout0 then MAX_TIMEOUT_MS else timeout0) in
      if \<not> be_pipe_ok env then Some (''Error: Could not create pipe'', [])
      else if \<not> be_fork_ok env then Some (''Error: Could not fork process'', [])
      else map_option (\<lambda>(result, timed_out). (bash_report timeout result timed_out, bash_actions timed_out))
        (capture timeout (be_events env command workdir) []))"

definition bash_execute :: "bash_env \<Rightarrow> json \<Rightarrow> (string \<times> bash_action list) option outcome" where
  "bash_execute env input =
     bind_outcome (bind_outcome (jindex input ''command'') get_str) (\<lambda>command.
     bind_outcome (value_str input ''workdir'' ''.'') (\<lambda>workdir.
     bind_outcome (value_int input ''timeout'' DEFAULT_TIMEOUT_MS) (\<lambda>t.
       Inr (bash_run env command workdir t))))"

section \<open>What is captured\<close>

fun read_bytes :: "(int \<times> bash_event) list \<Rightarrow> string" where
  "read_bytes [] = []"
| "read_bytes ((e, ReadSome d) # evs) = d @ read_bytes evs"
| "read_bytes ((e, ev) # evs) = read_bytes evs"

definition in_time :: "int \<Rightarrow> int \<times> bash_event \<Rightarrow> bool" where
  "in_time timeout e \<longleftrightarrow> fst e < timeout \<and> (\<exists>d. snd e = ReadSome d)"

lemma capture_reads:
  "list_all (in_time timeout) evs \<Longrightarrow>
   capture timeout (evs @ (t, ev) # later) result =
     (if timeout \<le> t \<or> ev = SelectExpired then Some (result @ read_bytes evs, True)
      else case ev of
          ReadSome d \<Rightarrow> capture timeout later (result @ read_bytes evs @ d)
        | _ \<Rightarrow> Some (result @ read_bytes evs, False))"
proof (induction evs arbitrary: result)
  case (Cons e evs)
  then obtain k d where e: "e = (k, ReadSome d)" "k < timeout" by (cases e) (auto simp: in_time_def)
  from Cons have all: "list_all (in_time timeout) evs" by simp
  show ?case unfolding append_Cons e(1) using e(2) Cons.IH[OF all, of "result @ d"]
    by (cases ev) simp_all
qed (cases ev; simp)

text \<open>The first turn of the loop that does not read in time decides.\<close>

definition ran_out :: "int \<Rightarrow> int \<times> bash_event \<Rightarrow> bool" where
  "ran_out timeout e \<longleftrightarrow> timeout \<le> fst e \<or> snd e = SelectExpired"

lemma capture_ends:
  assumes "list_all (in_time timeout) pre" "\<not> in_time timeout e"
  shows "capture timeout (pre @ e # later) [] = Some (read_bytes pre, ran_out timeout e)"
proof -
  obtain t ev where e: "e = (t, ev)" by fastforce
  have "timeout \<le> t \<or> (\<forall>d. ev \<noteq> ReadSome d)" using assms(2) e by (auto simp: in_time_def)
  then show ?thesis
    using capture_reads[OF assms(1), of t ev later "[]"] e by (cases ev) (auto simp: ran_out_def)
qed

lemma take_report: "length (bash_report timeout r b) \<le>
    MAX_CAPTURE_BYTES + length (timeout_text timeout) + length truncated_text"
proof -
  have "length (''(no output)'') \<le> MAX_CAPTURE_BYTES" by (simp add: MAX_CAPTURE_BYTES_def)
  then show ?thesis by (auto simp: bash_report_def Let_def)
qed

text \<open>once the clock has passed the deadline, or the command has ended its output, the tool returns: it
  reports the bytes read before that, cut at one megabyte, and it kills the process group exactly
  when the time ran out.\<close>

theorem bash_returns_by_deadline:
  assumes "be_pipe_ok env" "be_fork_ok env"
    and "list_ex (\<lambda>e. min t MAX_TIMEOUT_MS \<le> fst e \<or> snd e = ReadEnded) (be_events env cmd dir)"
  shows "\<exists>pre e later. be_events env cmd dir = pre @ e # later \<and>
    list_all (in_time (min t MAX_TIMEOUT_MS)) pre \<and> \<not> in_time (min t MAX_TIMEOUT_MS) e \<and>
    bash_run env cmd dir t =
      Some (bash_report (min t MAX_TIMEOUT_MS) (read_bytes pre) (ran_out (min t MAX_TIMEOUT_MS) e),
        bash_actions (ran_out (min t MAX_TIMEOUT_MS) e)) \<and>
    length (bash_report (min t MAX_TIMEOUT_MS) (read_bytes pre) (ran_out (min t MAX_TIMEOUT_MS) e)) \<le>
      MAX_CAPTURE_BYTES + length (timeout_text (min t MAX_TIMEOUT_MS)) + length truncated_text"
proof -
  let ?t = "min t MAX_TIMEOUT_MS"
  have "\<exists>e \<in> set (be_events env cmd dir). \<not> in_time ?t e"
    using assms(3) by (force simp: list_ex_iff in_time_def)
  then obtain pre e later where s: "be_events env cmd dir = pre @ e # later"
      "\<not> in_time ?t e" "\<forall>e \<in> set pre. in_time ?t e"
    using split_list_first_prop[of "be_events env cmd dir" "\<lambda>e. \<not> in_time ?t e"] by blast
  then have all: "list_all (in_time ?t) pre" by (simp add: list_all_iff)
  have t: "(if MAX_TIMEOUT_MS < t then MAX_TIMEOUT_MS else t) = ?t" by simp
  have "bash_run env cmd dir t = Some (bash_report ?t (read_bytes pre) (ran_out ?t e), bash_actions (ran_out ?t e))"
    using assms(1,2) s(1) capture_ends[OF all s(2), of later] unfolding bash_run_def t by (simp add: Let_def)
  then show ?thesis using s(1,2) all take_report by blast
qed

definition demo_bash :: bash_env where
  "demo_bash = \<lparr>be_pipe_ok = True, be_fork_ok = True,
     be_events = (\<lambda>c d. [(0, ReadSome ''a''), (10, ReadSome ''b''), (20, ReadEnded)])\<rparr>"

theorem bash_returns_by_deadline_witness:
  "bash_run demo_bash ''ls'' ''.'' 1000 = Some (''ab'', [WaitForShell])"
proof -
  have "be_pipe_ok demo_bash" "be_fork_ok demo_bash"
      "list_ex (\<lambda>e. min 1000 MAX_TIMEOUT_MS \<le> fst e \<or> snd e = ReadEnded) (be_events demo_bash ''ls'' ''.'')"
    by (simp_all add: demo_bash_def)
  from bash_returns_by_deadline[OF this] obtain pre e later where
      s: "be_events demo_bash ''ls'' ''.'' = pre @ e # later" "list_all (in_time 1000) pre" "\<not> in_time 1000 e"
      and r: "bash_run demo_bash ''ls'' ''.'' 1000 = Some (bash_report 1000 (read_bytes pre) (ran_out 1000 e), bash_actions (ran_out 1000 e))"
    by (auto simp: MAX_TIMEOUT_MS_def)
  have "pre = [(0, ReadSome ''a''), (10, ReadSome ''b'')] \<and> e = (20, ReadEnded)"
    using s by (auto simp: demo_bash_def in_time_def Cons_eq_append_conv)
  then show ?thesis using r by (simp add: bash_report_def ran_out_def bash_actions_def MAX_CAPTURE_BYTES_def)
qed

section \<open>Divergences\<close>

text \<open>A command that closes its output and runs on is waited for without a deadline: no signal is sent.\<close>

lemma closed_output_is_waited_for:
  "bash_run (demo_bash\<lparr>be_events := (\<lambda>c d. [(0, ReadEnded)])\<rparr>) ''exec >&- 2>&-; sleep 9999'' ''.'' 1000 =
     Some (''(no output)'', [WaitForShell])"
  by (simp add: bash_run_def demo_bash_def bash_report_def bash_actions_def MAX_CAPTURE_BYTES_def MAX_TIMEOUT_MS_def)

end
