(* ===== verification/Tool_Websearch.thy ===== *)
theory Tool_Websearch
  imports Tool_Search Wire
begin

text \<open>
  The web search tool (\<open>src/tool/websearch.h\<close>): the choice of the backend, the request made to it, and the
  text taken from its answer, a JSON-RPC body or a stream of \<open>data: \<close> lines. Environment variables,
  the HTTP library and the JSON parser and printer (which throws on invalid UTF-8) are parameters.
\<close>

definition NO_RESULTS :: string where
  "NO_RESULTS = ''No search results found. Please try a different query.''"
definition EXA_URL :: string where "EXA_URL = ''https://mcp.exa.ai/mcp''"
definition PARALLEL_URL :: string where "PARALLEL_URL = ''https://search.parallel.ai/mcp''"
definition MAX_NUM_RESULTS :: int where "MAX_NUM_RESULTS = 20"
definition MAX_CONTEXT_CHARACTERS :: int where "MAX_CONTEXT_CHARACTERS = 50000"
definition MAX_RESPONSE_BYTES :: nat where "MAX_RESPONSE_BYTES = 256 * 1024"
definition TIMEOUT_MS :: int where "TIMEOUT_MS = 25000"

section \<open>The backend\<close>

type_synonym environment = "string \<Rightarrow> string option"

definition clamp_int :: "int \<Rightarrow> int \<Rightarrow> int \<Rightarrow> int" where
  "clamp_int v lo hi = (if v < lo then lo else if hi < v then hi else v)"

definition env_truthy :: "environment \<Rightarrow> string \<Rightarrow> bool" where
  "env_truthy getenv name =
     (case getenv name of
        None \<Rightarrow> False
      | Some s \<Rightarrow> s \<noteq> [] \<and> s \<noteq> ''0'' \<and> s \<noteq> ''false'' \<and> s \<noteq> ''FALSE'' \<and> s \<noteq> ''off'')"

text \<open>Without a choice in the environment, the parity of a fixed hash decides.\<close>

definition default_backend :: string where
  "default_backend = (if even (uint (fnv1a64 ''zvmh-websearch'')) then ''exa'' else ''parallel'')"

definition select_provider :: "environment \<Rightarrow> string" where
  "select_provider getenv =
     (let rest = (if env_truthy getenv ''ZVMH_ENABLE_PARALLEL'' then ''parallel''
                  else if env_truthy getenv ''ZVMH_ENABLE_EXA'' then ''exa'' else default_backend)
      in case getenv ''ZVMH_WEBSEARCH_PROVIDER'' of
           Some s \<Rightarrow> if s = ''exa'' \<or> s = ''parallel'' then s else rest
         | None \<Rightarrow> rest)"

section \<open>Percent encoding\<close>

definition unreserved :: "char \<Rightarrow> bool" where
  "unreserved c \<longleftrightarrow>
     (48 \<le> byte c \<and> byte c \<le> 57) \<or> (65 \<le> byte c \<and> byte c \<le> 90) \<or> (97 \<le> byte c \<and> byte c \<le> 122) \<or>
     c = CHR ''-'' \<or> c = CHR ''_'' \<or> c = CHR ''.'' \<or> c = CHR ''~''"

definition hex_digit :: "nat \<Rightarrow> char" where
  "hex_digit n = ''0123456789ABCDEF'' ! n"

definition percent_char :: "char \<Rightarrow> string" where
  "percent_char c =
     (if unreserved c then [c]
      else [CHR ''%'', hex_digit (byte c div 16), hex_digit (byte c mod 16)])"

definition percent_encode :: "string \<Rightarrow> string" where
  "percent_encode s = concat (map percent_char s)"

definition exa_url :: "environment \<Rightarrow> string" where
  "exa_url getenv =
     (case getenv ''EXA_API_KEY'' of
        None \<Rightarrow> EXA_URL
      | Some key \<Rightarrow> if key = [] then EXA_URL else EXA_URL @ ''?exaApiKey='' @ percent_encode key)"

section \<open>The answer\<close>

text \<open>Iteration over a value: the elements of an array, the values of an object, a scalar itself.\<close>

fun json_items :: "json \<Rightarrow> json list" where
  "json_items (JArr xs) = xs"
| "json_items (JObj m) = map snd m"
| "json_items JNull = []"
| "json_items j = [j]"

text \<open>The text of the first item that has one; anything thrown gives the empty text.\<close>

fun first_text :: "json list \<Rightarrow> string" where
  "first_text [] = []"
| "first_text (i # is) =
     (case jfind i ''text'' of
        Some (JStr s) \<Rightarrow> s
      | Some _ \<Rightarrow> []
      | None \<Rightarrow> first_text is)"

definition payload_text :: "(string \<Rightarrow> json option) \<Rightarrow> string \<Rightarrow> string" where
  "payload_text parse s =
     (case parse s of
        None \<Rightarrow> []
      | Some j \<Rightarrow> (case jfind j ''result'' of
            None \<Rightarrow> []
          | Some r \<Rightarrow> (case jfind r ''content'' of None \<Rightarrow> [] | Some c \<Rightarrow> first_text (json_items c))))"

definition trim_search :: "string \<Rightarrow> string" where
  "trim_search s = trim_of [CHR '' '', tab, cr, nl] s"

fun event_text :: "(string \<Rightarrow> json option) \<Rightarrow> string list \<Rightarrow> string" where
  "event_text parse [] = []"
| "event_text parse (l # ls) =
     (if \<not> starts_with l ''data: '' then event_text parse ls
      else let t = payload_text parse (trim_search (drop 6 l)) in
        if t \<noteq> [] then t else event_text parse ls)"

definition parse_response :: "(string \<Rightarrow> json option) \<Rightarrow> string \<Rightarrow> string" where
  "parse_response parse body =
     (let b = trim_search body;
          direct = (if b \<noteq> [] \<and> hd b = CHR ''{'' then payload_text parse b else [])
      in if direct \<noteq> [] then direct else event_text parse (file_lines body))"

section \<open>The request\<close>

record mcp_request =
  mq_url :: string
  mq_headers :: "(string, string) omap"
  mq_body :: string
  mq_timeout :: int

record mcp_reply =
  mr_error :: "string option"
  mr_status :: int
  mr_text :: string

definition mcp_body :: "string \<Rightarrow> json \<Rightarrow> json" where
  "mcp_body tool_name args =
     jobj [(''jsonrpc'', JStr ''2.0''), (''id'', JInt 1), (''method'', JStr ''tools/call''),
       (''params'', jobj [(''name'', JStr tool_name), (''arguments'', args)])]"

definition mcp_headers :: "(string, string) omap \<Rightarrow> (string, string) omap" where
  "mcp_headers extra =
     fold (\<lambda>(k, v). om_put k v) extra
       (om_put ''Accept'' ''application/json, text/event-stream''
         (om_put ''Content-Type'' ''application/json'' []))"

record search_world =
  sw_getenv :: environment
  sw_post :: "mcp_request \<Rightarrow> mcp_reply"
  sw_parse :: "string \<Rightarrow> json option"
  sw_dump :: "json \<Rightarrow> string outcome"

definition mcp_answer :: "(string \<Rightarrow> json option) \<Rightarrow> string \<Rightarrow> mcp_reply \<Rightarrow> string" where
  "mcp_answer parse tool_name r =
     (case mr_error r of
        Some e \<Rightarrow> ''Error: '' @ tool_name @ '' request failed: '' @ e
      | None \<Rightarrow>
          if mr_status r \<noteq> 200 then
            ''Error: '' @ tool_name @ '' request failed with HTTP '' @ int_str (mr_status r)
          else if MAX_RESPONSE_BYTES < length (mr_text r) then
            ''Error: '' @ tool_name @ '' response exceeded '' @ nat_str MAX_RESPONSE_BYTES @ '' bytes''
          else parse_response parse (mr_text r))"

definition call_mcp ::
    "search_world \<Rightarrow> string \<Rightarrow> string \<Rightarrow> json \<Rightarrow> (string, string) omap \<Rightarrow> string outcome" where
  "call_mcp w url tool_name args extra =
     bind_outcome (sw_dump w (mcp_body tool_name args)) (\<lambda>b.
       Inr (mcp_answer (sw_parse w) tool_name
         (sw_post w \<lparr>mq_url = url, mq_headers = mcp_headers extra, mq_body = b, mq_timeout = TIMEOUT_MS\<rparr>)))"

definition exa_args :: "string \<Rightarrow> string \<Rightarrow> int \<Rightarrow> string \<Rightarrow> int option \<Rightarrow> json" where
  "exa_args query ty n livecrawl context_max =
     jobj ([(''query'', JStr query), (''type'', JStr ty), (''numResults'', JInt n), (''livecrawl'', JStr livecrawl)] @
       (case context_max of None \<Rightarrow> [] | Some c \<Rightarrow> [(''contextMaxCharacters'', JInt c)]))"

definition parallel_args :: "string \<Rightarrow> string \<Rightarrow> json" where
  "parallel_args seed query =
     jobj [(''objective'', JStr query), (''search_queries'', JArr [JStr query]),
       (''session_id'', JStr (if seed = [] then ''zvmh'' else seed))]"

definition parallel_headers :: "environment \<Rightarrow> (string, string) omap" where
  "parallel_headers getenv =
     (case getenv ''PARALLEL_API_KEY'' of
        None \<Rightarrow> []
      | Some key \<Rightarrow> if key = [] then [] else [(''Authorization'', ''Bearer '' @ key)])"

definition websearch_execute :: "search_world \<Rightarrow> string \<Rightarrow> json \<Rightarrow> string outcome" where
  "websearch_execute w seed input =
     bind_outcome (bind_outcome (jindex input ''query'') get_str) (\<lambda>query.
     bind_outcome (value_int input ''numResults'' 8) (\<lambda>n.
     bind_outcome (value_str input ''livecrawl'' ''fallback'') (\<lambda>lc.
     bind_outcome (value_str input ''type'' ''auto'') (\<lambda>ty.
     bind_outcome (value_int input ''contextMaxCharacters'' 10000) (\<lambda>cm.
       let livecrawl = (if lc \<noteq> ''fallback'' \<and> lc \<noteq> ''preferred'' then ''fallback'' else lc);
           kind = (if ty \<noteq> ''auto'' \<and> ty \<noteq> ''fast'' \<and> ty \<noteq> ''deep'' then ''auto'' else ty);
           context_max = (if jcontains input ''contextMaxCharacters''
                          then Some (clamp_int cm 1 MAX_CONTEXT_CHARACTERS) else None)
       in bind_outcome
            (if select_provider (sw_getenv w) = ''exa'' then
               call_mcp w (exa_url (sw_getenv w)) ''web_search_exa''
                 (exa_args query kind (clamp_int n 1 MAX_NUM_RESULTS) livecrawl context_max) []
             else call_mcp w PARALLEL_URL ''web_search'' (parallel_args seed query)
                 (parallel_headers (sw_getenv w)))
            (\<lambda>t. Inr (if t = [] then NO_RESULTS else t)))))))"

section \<open>Decoding\<close>

definition hex_value :: "char \<Rightarrow> nat" where
  "hex_value c = (if byte c \<le> 57 then byte c - 48 else byte c - 55)"

fun percent_decode :: "string \<Rightarrow> string" where
  "percent_decode (c # a # b # cs) =
     (if c = CHR ''%'' then char_of (16 * hex_value a + hex_value b) # percent_decode cs
      else c # percent_decode (a # b # cs))"
| "percent_decode s = s"

lemma percent_decode_plain: "c \<noteq> CHR ''%'' \<Longrightarrow> percent_decode (c # s) = c # percent_decode s"
  by (cases s; cases "tl s") simp_all

lemma hex_digit_value: "n < 16 \<Longrightarrow> hex_value (hex_digit n) = n \<and> unreserved (hex_digit n)"
proof -
  have "list_all (\<lambda>n. hex_value (hex_digit n) = n \<and> unreserved (hex_digit n)) [0..<16]" by code_simp
  then show "n < 16 \<Longrightarrow> ?thesis" by (simp add: list_all_iff)
qed

lemma byte_digits: "byte c div 16 < 16 \<and> byte c mod 16 < 16"
  using less_mult_imp_div_less[of "byte c" 16 16] byte_less[of c] by simp

lemma decode_percent_char: "percent_decode (percent_char c @ s) = c # percent_decode s"
proof (cases "unreserved c")
  case True
  then have "c \<noteq> CHR ''%''" by (auto simp: unreserved_def)
  with True show ?thesis by (simp add: percent_char_def percent_decode_plain)
next
  case False
  note byte_digits[of c]
  moreover have "16 * (byte c div 16) + byte c mod 16 = byte c" by simp
  ultimately show ?thesis using False by (simp add: percent_char_def hex_digit_value)
qed

text \<open>percent encoding uses unreserved characters and \<open>%\<close> only, and decoding gives the text back.\<close>

theorem percent_round_trip:
  "percent_decode (percent_encode s) = s \<and> list_all (\<lambda>c. unreserved c \<or> c = CHR ''%'') (percent_encode s)"
proof
  show "percent_decode (percent_encode s) = s"
    by (induction s) (simp_all add: percent_encode_def decode_percent_char)
  show "list_all (\<lambda>c. unreserved c \<or> c = CHR ''%'') (percent_encode s)"
    by (induction s) (simp_all add: percent_encode_def percent_char_def hex_digit_value byte_digits)
qed

text \<open>The fixed choice is Parallel.\<close>

lemma default_is_parallel: "default_backend = ''parallel''"
  by code_simp

end
