(* ===== verification/Tool_Contracts.thy ===== *)
theory Tool_Contracts
  imports Agent_Turn Tool_Patch Tool_Read Tool_Search Tool_Bash Tool_Webfetch Tool_Websearch Swarm_Tools
begin

text \<open>
  What the tools promise the model and what they do with its answers: the parameter schemas that
  \<open>Tool::to_definition\<close> (\<open>src/tool/tool.h\<close>) sends with every request, what it means for the arguments
  of a call to conform to one, and the tools registered by \<open>src/tool/registry.h\<close> behind one table. A
  call that conforms is read by its tool without a failure of the JSON library; a call without a
  required argument is, for eight tools, a read of a missing member of a constant object.
\<close>

section \<open>Schemas\<close>

definition property_schema :: "string \<Rightarrow> (string \<times> json) list \<Rightarrow> string \<Rightarrow> json" where
  "property_schema ty extra desc =
     jobj ([(''type'', JStr ty)] @ extra @ [(''description'', JStr desc)])"

definition object_schema :: "(string \<times> json) list \<Rightarrow> string list option \<Rightarrow> json" where
  "object_schema props required =
     jobj ([(''type'', JStr ''object''), (''properties'', jobj props)] @
       (case required of None \<Rightarrow> [] | Some ks \<Rightarrow> [(''required'', JArr (map JStr ks))]))"

definition squoted :: "string \<Rightarrow> string" where "squoted s = [squote] @ s @ [squote]"

definition apply_patch_schema :: json where
  "apply_patch_schema = object_schema
     [(''patch_text'', property_schema ''string'' [] ''The full patch text describing add, update, and delete operations'')]
     (Some [''patch_text''])"

definition bash_schema :: json where
  "bash_schema = object_schema
     [(''command'', property_schema ''string'' [] ''Shell command string to execute''),
      (''workdir'', property_schema ''string'' [] ''Working directory (default: current directory)''),
      (''timeout'', property_schema ''integer'' [] ''Timeout in milliseconds (default: 120000, max: 600000)'')]
     (Some [''command''])"

definition read_schema :: json where
  "read_schema = object_schema
     [(''file_path'', property_schema ''string'' [] ''Path to the file or directory to read''),
      (''offset'', property_schema ''integer'' [(''minimum'', JInt 1)] ''1-based line or entry to start at (default 1)''),
      (''limit'', property_schema ''integer'' [(''minimum'', JInt 1), (''maximum'', JInt (int kMaxReadLines))] ''Maximum lines or entries to return (default 2000, capped at 2000)'')]
     (Some [''file_path''])"

definition write_schema :: json where
  "write_schema = object_schema
     [(''file_path'', property_schema ''string'' [] ''Path to the file to write''),
      (''content'', property_schema ''string'' [] ''Content to write to the file'')]
     (Some [''file_path'', ''content''])"

definition edit_schema :: json where
  "edit_schema = object_schema
     [(''file_path'', property_schema ''string'' [] ''Path to the file to edit''),
      (''old_string'', property_schema ''string'' [] ''Exact text to replace; must match including whitespace and indentation''),
      (''new_string'', property_schema ''string'' [] ''Replacement text, which must differ from old_string''),
      (''replace_all'', property_schema ''boolean'' [] ''Replace all exact occurrences of old_string instead of the first (default false)'')]
     (Some [''file_path'', ''old_string'', ''new_string''])"

definition glob_schema :: json where
  "glob_schema = object_schema
     [(''pattern'', property_schema ''string'' [] ''Glob pattern to match files (e.g. **/*.cpp)''),
      (''path'', property_schema ''string'' [] ''Directory to search in (default: current directory)'')]
     (Some [''pattern''])"

definition grep_schema :: json where
  "grep_schema = object_schema
     [(''pattern'', property_schema ''string'' [] ''Regex pattern to search for''),
      (''path'', property_schema ''string'' [] ''File or directory to search in (default: current directory)''),
      (''include'', property_schema ''string'' [] ''File pattern to include (e.g. *.cpp, *.h)'')]
     (Some [''pattern''])"

definition ls_schema :: json where
  "ls_schema = object_schema
     [(''path'', property_schema ''string'' [] ''Path to list (default: current directory)'')]
     None"

definition skill_schema :: json where
  "skill_schema = object_schema
     [(''name'', property_schema ''string'' [] ''The name of the skill from the available skills list'')]
     (Some [''name''])"

definition websearch_schema :: json where
  "websearch_schema = object_schema
     [(''query'', property_schema ''string'' [] ''Websearch query''),
      (''numResults'', property_schema ''integer'' [] ''Number of search results to return (default: 8, maximum: 20)''),
      (''livecrawl'', property_schema ''string'' [(''enum'', JArr [JStr ''fallback'', JStr ''preferred''])] (''Live crawl mode - '' @ squoted ''fallback'' @ '': live crawling as backup if cached unavailable, '' @
        squoted ''preferred'' @ '': prioritize live crawling (default: '' @ squoted ''fallback'' @ '')'')),
      (''type'', property_schema ''string'' [(''enum'', JArr [JStr ''auto'', JStr ''fast'', JStr ''deep''])] (''Search type - '' @ squoted ''auto'' @ '': balanced search (default), '' @ squoted ''fast'' @
        '': quick results, '' @ squoted ''deep'' @ '': comprehensive search'')),
      (''contextMaxCharacters'', property_schema ''integer'' [] ''Maximum characters for the context string optimized for the model (default: 10000, maximum: 50000)'')]
     (Some [''query''])"

definition webfetch_schema :: json where
  "webfetch_schema = object_schema
     [(''url'', property_schema ''string'' [] ''The HTTP or HTTPS URL to fetch content from''),
      (''format'', property_schema ''string'' [(''enum'', JArr [JStr ''text'', JStr ''markdown'', JStr ''html''])] ''The format to return the content in. Defaults to markdown.''),
      (''timeout'', property_schema ''integer'' [] ''Optional timeout in seconds (maximum: 120)'')]
     (Some [''url''])"

definition msg_schema :: json where
  "msg_schema = object_schema
     [(''to'', property_schema ''string'' [] ''\"all\", \"repo\", or an agent id from the peers tool''),
      (''text'', property_schema ''string'' [] ''Message text to deliver'')]
     (Some [''to'', ''text''])"

definition peers_schema :: json where
  "peers_schema = object_schema
     [(''refresh'', property_schema ''boolean'' [] ''Re-query the server before returning (default false)'')]
     (Some [])"

definition builtin_schemas :: "(string \<times> json) list" where
  "builtin_schemas =
     [(''apply_patch'', apply_patch_schema),
      (''bash'', bash_schema),
      (''read'', read_schema),
      (''write'', write_schema),
      (''edit'', edit_schema),
      (''glob'', glob_schema),
      (''grep'', grep_schema),
      (''ls'', ls_schema),
      (''skill'', skill_schema),
      (''websearch'', websearch_schema),
      (''webfetch'', webfetch_schema)]"

definition swarm_schemas :: "(string \<times> json) list" where
  "swarm_schemas = [(''msg'', msg_schema), (''peers'', peers_schema)]"

text \<open>\<open>Tool::to_definition\<close>; the description is a text the model reads.\<close>

definition to_definition :: "(string \<Rightarrow> string) \<Rightarrow> string \<Rightarrow> tool_definition" where
  "to_definition describe n =
     \<lparr>td_name = n, td_description = describe n,
      td_input_schema = (case map_of (builtin_schemas @ swarm_schemas) n of Some s \<Rightarrow> s | None \<Rightarrow> JNull)\<rparr>"

section \<open>Conforming arguments\<close>

text \<open>The part of JSON Schema the schemas use; members the schema does not name are allowed.\<close>

definition of_type :: "string \<Rightarrow> json \<Rightarrow> bool" where
  "of_type ty v =
     (case v of
        JNull \<Rightarrow> ty = ''null'' | JBool _ \<Rightarrow> ty = ''boolean'' | JInt _ \<Rightarrow> ty = ''integer'' \<or> ty = ''number''
      | JFloat _ \<Rightarrow> ty = ''number'' | JStr _ \<Rightarrow> ty = ''string'' | JArr _ \<Rightarrow> ty = ''array''
      | JObj _ \<Rightarrow> ty = ''object'')"

definition value_conforms :: "json \<Rightarrow> json \<Rightarrow> bool" where
  "value_conforms s v \<longleftrightarrow>
     (case jfind s ''type'' of Some (JStr ty) \<Rightarrow> of_type ty v | _ \<Rightarrow> True) \<and>
     (case jfind s ''enum'' of Some (JArr vs) \<Rightarrow> v \<in> set vs | _ \<Rightarrow> True) \<and>
     (case (jfind s ''minimum'', v) of (Some (JInt lo), JInt i) \<Rightarrow> lo \<le> i | _ \<Rightarrow> True) \<and>
     (case (jfind s ''maximum'', v) of (Some (JInt hi), JInt i) \<Rightarrow> i \<le> hi | _ \<Rightarrow> True)"

definition properties_of :: "json \<Rightarrow> (string \<times> json) list" where
  "properties_of s = (case jfind s ''properties'' of Some (JObj ps) \<Rightarrow> ps | _ \<Rightarrow> [])"

definition required_of :: "json \<Rightarrow> string list" where
  "required_of s =
     (case jfind s ''required'' of
        Some (JArr ks) \<Rightarrow> concat (map (\<lambda>k. case k of JStr x \<Rightarrow> [x] | _ \<Rightarrow> []) ks)
      | _ \<Rightarrow> [])"

definition conforms :: "json \<Rightarrow> json \<Rightarrow> bool" where
  "conforms s input =
     (case input of
        JObj m \<Rightarrow>
          list_all (\<lambda>(k, p). case map_of m k of None \<Rightarrow> True | Some v \<Rightarrow> value_conforms p v) (properties_of s) \<and>
          list_all (\<lambda>k. map_of m k \<noteq> None) (required_of s)
      | _ \<Rightarrow> False)"

lemma conforms_object: "conforms s input \<Longrightarrow> \<exists>m. input = JObj m"
  by (cases input) (simp_all add: conforms_def)

lemma conforms_property:
  assumes "conforms s input" "map_of (properties_of s) k = Some p" "jfind input k = Some v"
  shows "value_conforms p v"
proof -
  obtain m where m: "input = JObj m" using conforms_object[OF assms(1)] by blast
  have "(k, p) \<in> set (properties_of s)" using assms(2) by (rule map_of_SomeD)
  with assms(1,3) m show ?thesis by (auto simp: conforms_def list_all_iff)
qed

lemma conforms_required:
  assumes "conforms s input" "k \<in> set (required_of s)"
  shows "\<exists>v. jfind input k = Some v"
  using assms by (cases input) (auto simp: conforms_def list_all_iff)

text \<open>What a conforming member is read as.\<close>

lemma of_type_cases:
  "of_type ''string'' v \<longleftrightarrow> (\<exists>x. v = JStr x)"
  "of_type ''integer'' v \<longleftrightarrow> (\<exists>i. v = JInt i)"
  "of_type ''boolean'' v \<longleftrightarrow> (\<exists>b. v = JBool b)"
  by (cases v; simp add: of_type_def)+

lemma property_type:
  assumes "''type'' \<notin> fst ` set extra"
  shows "jfind (property_schema ty extra desc) ''type'' = Some (JStr ty)"
proof -
  have "map_of (rev extra) ''type'' = None" using assms by (simp add: map_of_eq_None_iff)
  then show ?thesis by (simp add: property_schema_def jfind_jobj map_add_def)
qed

lemma conforms_type:
  assumes "value_conforms (property_schema ty extra desc) v" "''type'' \<notin> fst ` set extra"
  shows "of_type ty v"
  using assms(1) by (simp add: value_conforms_def property_type[OF assms(2)])

lemma properties_of_object: "map_of (properties_of (object_schema props req)) k = map_of (rev props) k"
proof -
  have "jfind (object_schema props req) ''properties'' = Some (jobj props)"
    by (simp add: object_schema_def jfind_jobj split: option.split)
  moreover obtain m where m: "jobj props = JObj m" by (simp add: jobj_def)
  ultimately have "properties_of (object_schema props req) = m" by (simp add: properties_of_def)
  with m jfind_jobj[of props k] show ?thesis by simp
qed

lemma required_of_object:
  "required_of (object_schema props req) = (case req of None \<Rightarrow> [] | Some ks \<Rightarrow> ks)"
proof -
  have "concat (map (\<lambda>k. case k of JStr x \<Rightarrow> [x] | _ \<Rightarrow> []) (map JStr ks)) = ks" for ks
    by (induction ks) simp_all
  then show ?thesis
    by (auto simp: required_of_def object_schema_def jfind_jobj split: option.split)
qed

text \<open>A property of a given type, and the reads of a conforming object it makes safe.\<close>

definition has_property :: "json \<Rightarrow> string \<Rightarrow> string \<Rightarrow> bool" where
  "has_property s ty k \<longleftrightarrow> (\<forall>v p. map_of (properties_of s) k = Some p \<longrightarrow> value_conforms p v \<longrightarrow> of_type ty v) \<and>
     map_of (properties_of s) k \<noteq> None"

lemma has_property_object:
  assumes "map_of (rev props) k = Some (property_schema ty extra desc)" "''type'' \<notin> fst ` set extra"
  shows "has_property (object_schema props req) ty k"
  using assms by (auto simp: has_property_def properties_of_object dest: conforms_type)

lemma conforms_has:
  assumes "conforms s input" "has_property s ty k" "jfind input k = Some v"
  shows "of_type ty v"
  using assms conforms_property[OF assms(1) _ assms(3)] by (auto simp: has_property_def)

lemma value_of_jfind:
  "value_of get (JObj m) k d = (case jfind (JObj m) k of None \<Rightarrow> Inr d | Some v \<Rightarrow> get v)"
  by (simp add: value_of_def)

lemma conforms_reads:
  assumes "conforms s input"
  shows "has_property s ''string'' k \<Longrightarrow> k \<in> set (required_of s) \<Longrightarrow>
      \<exists>x. jfind input k = Some (JStr x) \<and> bind_outcome (jindex input k) get_str = Inr x"
    and "has_property s ''string'' k \<Longrightarrow> \<exists>x. value_str input k d = Inr x"
    and "has_property s ''boolean'' k \<Longrightarrow> \<exists>x. value_bool input k b = Inr x"
    and "has_property s ''integer'' k \<Longrightarrow> \<exists>x. value_int input k i = Inr x"
    and "has_property s ''integer'' k \<Longrightarrow> \<exists>x. value_i64 input k i = Inr x"
proof -
  obtain m where m: "input = JObj m" using conforms_object[OF assms] by blast
  note typed = conforms_has[OF assms]
  show "\<exists>x. jfind input k = Some (JStr x) \<and> bind_outcome (jindex input k) get_str = Inr x"
    if p: "has_property s ''string'' k" "k \<in> set (required_of s)"
  proof -
    obtain v where v: "jfind input k = Some v" using conforms_required[OF assms p(2)] by blast
    then obtain x where "v = JStr x" using typed[OF p(1)] by (auto simp: of_type_cases)
    with v m show ?thesis by simp
  qed
  show "\<exists>x. value_str input k d = Inr x" if p: "has_property s ''string'' k"
    using typed[OF p] by (cases "jfind input k") (auto simp: m value_of_def of_type_cases)
  show "\<exists>x. value_bool input k b = Inr x" if p: "has_property s ''boolean'' k"
    using typed[OF p] by (cases "jfind input k") (auto simp: m value_of_def of_type_cases)
  show "\<exists>x. value_int input k i = Inr x" if p: "has_property s ''integer'' k"
    using typed[OF p] by (cases "jfind input k") (auto simp: m value_of_def of_type_cases get_int_def)
  show "\<exists>x. value_i64 input k i = Inr x" if p: "has_property s ''integer'' k"
    using typed[OF p] by (cases "jfind input k") (auto simp: m value_of_def of_type_cases)
qed

text \<open>The properties of each schema.\<close>

named_theorems schema_facts

lemma apply_patch_properties [schema_facts]:
  "has_property apply_patch_schema ''string'' ''patch_text''"
  by (unfold apply_patch_schema_def, (rule has_property_object, simp, simp)+)

lemma apply_patch_required [schema_facts]: "required_of apply_patch_schema = [''patch_text'']"
  by (simp add: apply_patch_schema_def required_of_object)

lemma bash_properties [schema_facts]:
  "has_property bash_schema ''string'' ''command''"
  "has_property bash_schema ''string'' ''workdir''"
  "has_property bash_schema ''integer'' ''timeout''"
  by (unfold bash_schema_def, (rule has_property_object, simp, simp)+)

lemma bash_required [schema_facts]: "required_of bash_schema = [''command'']"
  by (simp add: bash_schema_def required_of_object)

lemma read_properties [schema_facts]:
  "has_property read_schema ''string'' ''file_path''"
  "has_property read_schema ''integer'' ''offset''"
  "has_property read_schema ''integer'' ''limit''"
  by (unfold read_schema_def, (rule has_property_object, simp, simp)+)

lemma read_required [schema_facts]: "required_of read_schema = [''file_path'']"
  by (simp add: read_schema_def required_of_object)

lemma write_properties [schema_facts]:
  "has_property write_schema ''string'' ''file_path''"
  "has_property write_schema ''string'' ''content''"
  by (unfold write_schema_def, (rule has_property_object, simp, simp)+)

lemma write_required [schema_facts]: "required_of write_schema = [''file_path'', ''content'']"
  by (simp add: write_schema_def required_of_object)

lemma edit_properties [schema_facts]:
  "has_property edit_schema ''string'' ''file_path''"
  "has_property edit_schema ''string'' ''old_string''"
  "has_property edit_schema ''string'' ''new_string''"
  "has_property edit_schema ''boolean'' ''replace_all''"
  by (unfold edit_schema_def, (rule has_property_object, simp, simp)+)

lemma edit_required [schema_facts]: "required_of edit_schema = [''file_path'', ''old_string'', ''new_string'']"
  by (simp add: edit_schema_def required_of_object)

lemma glob_properties [schema_facts]:
  "has_property glob_schema ''string'' ''pattern''"
  "has_property glob_schema ''string'' ''path''"
  by (unfold glob_schema_def, (rule has_property_object, simp, simp)+)

lemma glob_required [schema_facts]: "required_of glob_schema = [''pattern'']"
  by (simp add: glob_schema_def required_of_object)

lemma grep_properties [schema_facts]:
  "has_property grep_schema ''string'' ''pattern''"
  "has_property grep_schema ''string'' ''path''"
  "has_property grep_schema ''string'' ''include''"
  by (unfold grep_schema_def, (rule has_property_object, simp, simp)+)

lemma grep_required [schema_facts]: "required_of grep_schema = [''pattern'']"
  by (simp add: grep_schema_def required_of_object)

lemma ls_properties [schema_facts]:
  "has_property ls_schema ''string'' ''path''"
  by (unfold ls_schema_def, (rule has_property_object, simp, simp)+)

lemma ls_required [schema_facts]: "required_of ls_schema = []"
  by (simp add: ls_schema_def required_of_object)

lemma skill_properties [schema_facts]:
  "has_property skill_schema ''string'' ''name''"
  by (unfold skill_schema_def, (rule has_property_object, simp, simp)+)

lemma skill_required [schema_facts]: "required_of skill_schema = [''name'']"
  by (simp add: skill_schema_def required_of_object)

lemma websearch_properties [schema_facts]:
  "has_property websearch_schema ''string'' ''query''"
  "has_property websearch_schema ''integer'' ''numResults''"
  "has_property websearch_schema ''string'' ''livecrawl''"
  "has_property websearch_schema ''string'' ''type''"
  "has_property websearch_schema ''integer'' ''contextMaxCharacters''"
  by (unfold websearch_schema_def, (rule has_property_object, simp, simp)+)

lemma websearch_required [schema_facts]: "required_of websearch_schema = [''query'']"
  by (simp add: websearch_schema_def required_of_object)

lemma webfetch_properties [schema_facts]:
  "has_property webfetch_schema ''string'' ''url''"
  "has_property webfetch_schema ''string'' ''format''"
  "has_property webfetch_schema ''integer'' ''timeout''"
  by (unfold webfetch_schema_def, (rule has_property_object, simp, simp)+)

lemma webfetch_required [schema_facts]: "required_of webfetch_schema = [''url'']"
  by (simp add: webfetch_schema_def required_of_object)

lemma msg_properties [schema_facts]:
  "has_property msg_schema ''string'' ''to''"
  "has_property msg_schema ''string'' ''text''"
  by (unfold msg_schema_def, (rule has_property_object, simp, simp)+)

lemma msg_required [schema_facts]: "required_of msg_schema = [''to'', ''text'']"
  by (simp add: msg_schema_def required_of_object)

lemma peers_properties [schema_facts]:
  "has_property peers_schema ''boolean'' ''refresh''"
  by (unfold peers_schema_def, (rule has_property_object, simp, simp)+)

lemma peers_required [schema_facts]: "required_of peers_schema = []"
  by (simp add: peers_schema_def required_of_object)

section \<open>The table of tools\<close>

text \<open>What the tools see of the outside: each of the environments of their theories, as a function
  of the files where it depends on them; a shell command may change files as it likes.\<close>

record tool_outside =
  to_edit :: edit_env
  to_patch :: patch_env
  to_status :: "files \<Rightarrow> string \<Rightarrow> path_status"
  to_search :: "files \<Rightarrow> search_env"
  to_glob :: "files \<Rightarrow> string \<Rightarrow> int \<times> string list"
  to_list :: "files \<Rightarrow> list_env"
  to_skills :: "files \<Rightarrow> skill_env"
  to_shell :: "files \<Rightarrow> bash_env"
  to_after_shell :: "json \<Rightarrow> files \<Rightarrow> files"
  to_web :: "web_request \<Rightarrow> web_reply"
  to_mcp :: search_world
  to_seed :: string

text \<open>The result is \<open>None\<close> for a shell command that has not ended.\<close>

type_synonym tool_body = "json \<Rightarrow> files \<Rightarrow> string outcome option \<times> files"

definition reads_files :: "(json \<Rightarrow> files \<Rightarrow> string outcome) \<Rightarrow> tool_body" where
  "reads_files f input fs = (Some (f input fs), fs)"

definition writes_files :: "(json \<Rightarrow> files \<Rightarrow> string outcome \<times> files) \<Rightarrow> tool_body" where
  "writes_files f input fs = (case f input fs of (r, fs') \<Rightarrow> (Some r, fs'))"

definition shell_body :: "tool_outside \<Rightarrow> tool_body" where
  "shell_body out input fs =
     (case bash_execute (to_shell out fs) input of
        Inl e \<Rightarrow> (Some (Inl e), fs)
      | Inr None \<Rightarrow> (None, to_after_shell out input fs)
      | Inr (Some (report, actions)) \<Rightarrow> (Some (Inr report), to_after_shell out input fs))"

definition builtin_bodies :: "tool_outside \<Rightarrow> (string \<times> tool_body) list" where
  "builtin_bodies out =
     [(''apply_patch'', writes_files (apply_patch_execute (to_patch out))),
      (''bash'', shell_body out),
      (''read'', reads_files (\<lambda>j fs. read_execute (to_status out fs) j)),
      (''write'', writes_files (write_execute (to_edit out))),
      (''edit'', writes_files (edit_execute (to_edit out))),
      (''glob'', reads_files (\<lambda>j fs. glob_execute (to_glob out fs) j)),
      (''grep'', reads_files (\<lambda>j fs. grep_execute (to_search out fs) j)),
      (''ls'', reads_files (\<lambda>j fs. ls_execute (to_list out fs) j)),
      (''skill'', reads_files (\<lambda>j fs. skill_execute (to_skills out fs) j)),
      (''websearch'', reads_files (\<lambda>j fs. websearch_execute (to_mcp out) (to_seed out) j)),
      (''webfetch'', reads_files (\<lambda>j fs. webfetch_execute (to_web out) j))]"

definition builtin_execute :: "tool_outside \<Rightarrow> string \<Rightarrow> tool_body" where
  "builtin_execute out n input fs =
     (case map_of (builtin_bodies out) n of
        None \<Rightarrow> (None, fs)
      | Some body \<Rightarrow> body input fs)"

text \<open>A turn over the built-in tools: \<open>env\<close> is asked for the tools that are not built in, and for
  what becomes of a command that has not ended.\<close>

definition builtin_env :: "tool_outside \<Rightarrow> files turn_env \<Rightarrow> files turn_env" where
  "builtin_env out env =
     env\<lparr>te_exec := (\<lambda>n input fs.
       case builtin_execute out n input fs of
         (Some r, fs') \<Rightarrow> (r, fs')
       | (None, fs') \<Rightarrow> te_exec env n input fs')\<rparr>"

lemma builtin_tables_agree:
  "map fst builtin_schemas = builtin_tool_names" "map fst (builtin_bodies out) = builtin_tool_names"
  by (simp_all add: builtin_schemas_def builtin_bodies_def builtin_tool_names_def)

section \<open>Failures of the JSON library\<close>

definition json_failure :: "failure \<Rightarrow> bool" where
  "json_failure e \<longleftrightarrow> e \<in> {Undefined, type_error_302, type_error_305, type_error_306}"

definition sound :: "'a outcome \<Rightarrow> bool" where
  "sound r \<longleftrightarrow> (case r of Inl e \<Rightarrow> \<not> json_failure e | Inr _ \<Rightarrow> True)"

lemma sound_simps [simp]: "sound (Inr a)" "sound (Inl e) \<longleftrightarrow> \<not> json_failure e"
  by (simp_all add: sound_def)

lemma sound_bind:
  assumes "sound r" "\<And>a. r = Inr a \<Longrightarrow> sound (f a)"
  shows "sound (bind_outcome r f)"
  using assms by (cases r) simp_all

lemma foreign_failures [simp]:
  "\<not> json_failure (Thrown ''basic_string::substr'')"
  "\<not> json_failure (Thrown ''filesystem error: cannot remove'')"
  by (simp_all add: json_failure_def type_error_302_def type_error_305_def type_error_306_def)

text \<open>The file system and the printer of the JSON library throw exceptions of their own only.\<close>

definition sound_step :: "walk_step \<Rightarrow> bool" where
  "sound_step w = (case w of WalkEntry p n r \<Rightarrow> sound r | WalkThrows e \<Rightarrow> \<not> json_failure e)"

definition sound_listing :: "list_step \<Rightarrow> bool" where
  "sound_listing l = (case l of ListEntry n d \<Rightarrow> sound d | ListThrows e \<Rightarrow> \<not> json_failure e)"

definition sound_root :: "root_step list option \<Rightarrow> bool" where
  "sound_root rs \<longleftrightarrow> (\<forall>r \<in> set (case rs of None \<Rightarrow> [] | Some rs \<Rightarrow> rs).
     case r of RootEntry e \<Rightarrow> sound (se_dir e) | RootThrows e \<Rightarrow> \<not> json_failure e)"

definition outside_sound :: "tool_outside \<Rightarrow> bool" where
  "outside_sound out \<longleftrightarrow>
     (\<forall>fs p. sound (se_kind (to_search out fs) p) \<and> list_all sound_step (se_walk (to_search out fs) p) \<and>
       sound (le_exists (to_list out fs) p) \<and> list_all sound_listing (le_entries (to_list out fs) p) \<and>
       sound_root (sk_home (to_skills out fs)) \<and> sound_root (sk_project (to_skills out fs))) \<and>
     (\<forall>j. sound (sw_dump (to_mcp out) j))"

lemma search_walk_sound: "list_all sound_step ws \<Longrightarrow> sound (search_walk env pat incl ws found)"
proof (induction ws arbitrary: found)
  case (Cons w ws)
  show ?case
  proof (cases w)
    case (WalkEntry p n r)
    then have "sound r" "list_all sound_step ws"
      using Cons.prems by (simp_all add: sound_step_def[of "WalkEntry p n r"])
    then show ?thesis unfolding WalkEntry
      by (auto intro!: sound_bind Cons.IH simp: Let_def split: prod.split)
  next
    case (WalkThrows e)
    then show ?thesis using Cons.prems by (simp add: sound_step_def)
  qed
qed simp

lemma ls_entries_sound: "list_all sound_listing es \<Longrightarrow> sound (ls_entries es)"
proof (induction es)
  case (Cons l es)
  then show ?case by (cases l) (auto simp: sound_listing_def intro!: sound_bind)
qed simp

lemma scan_root_sound:
  "\<forall>r \<in> set rs. case r of RootEntry e \<Rightarrow> sound (se_dir e) | RootThrows e \<Rightarrow> \<not> json_failure e \<Longrightarrow>
   sound (scan_root rs m)"
proof (induction rs arbitrary: m)
  case (Cons r rs)
  show ?case
  proof (cases r)
    case (RootEntry e)
    then have "sound (se_dir e)" using Cons.prems by simp
    then show ?thesis unfolding RootEntry scan_root.simps
      using Cons.prems by (intro sound_bind) (auto intro: Cons.IH split: option.split)
  next
    case (RootThrows e)
    then show ?thesis using Cons.prems by simp
  qed
qed simp

lemma find_skill_sound:
  assumes "sound_root (sk_home env)" "sound_root (sk_project env)"
  shows "sound (find_skill env name)"
  unfolding find_skill_def list_skills_def scan_roots_def
  using assms by (intro sound_bind) (auto simp: sound_root_def intro!: scan_root_sound split: option.split)

lemma read_regular_sound: "sound (read_regular path n content offset limit explicit_page)"
proof -
  have "sound (binary_magic b)" for b by (simp add: binary_magic_def)
  then have magic: "binary_magic b = Inl e \<Longrightarrow> \<not> json_failure e" for b e
    by (metis sound_simps(2))
  show ?thesis
    by (auto simp: read_regular_def Let_def magic split: option.split sum.split bool.split)
qed

lemma write_all_sound: "sound (fst (write_all env ps applied fs))"
proof (induction ps arbitrary: applied fs)
  case (Cons p ps)
  have "sound (fst (write_prepared env p fs))"
    by (auto simp: write_prepared_def remove_file_def split: prod.split)
  with Cons show ?case by (auto split: prod.split sum.split bool.split)
qed simp

lemma apply_patch_sound: "sound (fst (apply_patch env patch_text fs))"
  unfolding apply_patch_def by (auto split: sum.split list.split simp: write_all_sound)

section \<open>Conforming calls are decoded\<close>

text \<open>Every tool, one after the other: the reads of a conforming input succeed, and what follows them
  fails only as the outside does.\<close>

lemma sound_reads:
  assumes "conforms s input"
  shows "has_property s ''string'' k \<Longrightarrow> k \<in> set (required_of s) \<Longrightarrow>
      sound (bind_outcome (jindex input k) get_str)"
    and "has_property s ''string'' k \<Longrightarrow> sound (value_str input k d)"
    and "has_property s ''boolean'' k \<Longrightarrow> sound (value_bool input k b)"
    and "has_property s ''integer'' k \<Longrightarrow> sound (value_int input k i)"
    and "has_property s ''integer'' k \<Longrightarrow> sound (value_i64 input k i)"
  using conforms_reads[OF assms] by (metis sound_simps(1))+

lemma apply_patch_decoded:
  "conforms apply_patch_schema input \<Longrightarrow> sound (fst (apply_patch_execute env input fs))"
  using conforms_reads(2)[OF _ apply_patch_properties, of input "[]"]
  by (auto simp: apply_patch_execute_def apply_patch_sound)

lemma bash_decoded: "conforms bash_schema input \<Longrightarrow> \<exists>r. bash_execute env input = Inr r"
proof -
  assume c: "conforms bash_schema input"
  from conforms_reads(1)[OF c, of "''command''"] conforms_reads(2)[OF c, of "''workdir''" "''.''"]
    conforms_reads(4)[OF c, of "''timeout''" DEFAULT_TIMEOUT_MS]
  show ?thesis by (auto simp: bash_execute_def schema_facts)
qed

lemma read_decoded: "conforms read_schema input \<Longrightarrow> sound (read_execute status input)"
  using conforms_reads(1)[of read_schema input "''file_path''"]
    conforms_reads(5)[of read_schema input "''offset''" 1]
    conforms_reads(5)[of read_schema input "''limit''" "int kMaxReadLines"]
  by (auto simp: read_execute_def schema_facts read_regular_sound Let_def split: path_status.split)

lemma write_decoded: "conforms write_schema input \<Longrightarrow> sound (fst (write_execute env input fs))"
  using conforms_reads(1)[of write_schema input "''file_path''"]
    conforms_reads(1)[of write_schema input "''content''"]
  by (auto simp: write_execute_def schema_facts split: prod.split option.split)

lemma edit_decoded: "conforms edit_schema input \<Longrightarrow> sound (fst (edit_execute env input fs))"
  using conforms_reads(1)[of edit_schema input "''file_path''"]
    conforms_reads(1)[of edit_schema input "''old_string''"]
    conforms_reads(1)[of edit_schema input "''new_string''"]
    conforms_reads(3)[of edit_schema input "''replace_all''" False]
  by (auto simp: edit_execute_def schema_facts split: prod.split)

lemma glob_decoded: "conforms glob_schema input \<Longrightarrow> sound (glob_execute gl input)"
proof -
  assume c: "conforms glob_schema input"
  have p: "\<exists>x. v = JStr x" if "jfind input ''path'' = Some v" for v
    using conforms_has[OF c _ that, of "''string''"] by (simp add: schema_facts of_type_cases)
  show ?thesis
    using p unfolding glob_execute_def
    by (intro sound_bind sound_reads(1)[OF c])
      (auto simp: schema_facts split: option.split prod.split dest: p)
qed

lemma grep_path_sound:
  assumes "\<forall>p. sound (se_kind env p) \<and> list_all sound_step (se_walk env p)"
  shows "sound (grep_path env pat path incl)"
  unfolding grep_path_def using assms
  by (intro sound_bind) (auto intro!: sound_bind search_walk_sound split: file_kind.split)

lemma grep_decoded:
  assumes "conforms grep_schema input"
    and "\<forall>p. sound (se_kind env p) \<and> list_all sound_step (se_walk env p)"
  shows "sound (grep_execute env input)"
  using conforms_reads(1)[OF assms(1), of "''pattern''"] conforms_reads(2)[OF assms(1), of "''path''" "''.''"]
    conforms_reads(2)[OF assms(1), of "''include''" "[]"] grep_path_sound[OF assms(2)]
  by (auto simp: grep_execute_def schema_facts)

lemma ls_decoded:
  assumes "conforms ls_schema input"
    and "\<forall>p. sound (le_exists env p) \<and> list_all sound_listing (le_entries env p)"
  shows "sound (ls_execute env input)"
  unfolding ls_execute_def using assms
  by (intro sound_bind) (auto intro!: sound_reads ls_entries_sound simp: schema_facts)

lemma skill_decoded:
  assumes "conforms skill_schema input" "sound_root (sk_home env)" "sound_root (sk_project env)"
  shows "sound (skill_execute env input)"
  unfolding skill_execute_def using assms
  by (intro sound_bind) (auto intro!: sound_reads find_skill_sound simp: schema_facts)

lemma call_mcp_sound: "\<forall>j. sound (sw_dump w j) \<Longrightarrow> sound (call_mcp w url name args extra)"
  unfolding call_mcp_def by (rule sound_bind) simp_all

lemma websearch_decoded:
  assumes "conforms websearch_schema input" "\<forall>j. sound (sw_dump w j)"
  shows "sound (websearch_execute w seed input)"
proof -
  note reads = conforms_reads[OF assms(1)]
  obtain q where "bind_outcome (jindex input ''query'') get_str = Inr q"
    using reads(1)[OF websearch_properties(1)] websearch_required by auto
  moreover obtain n where "value_int input ''numResults'' 8 = Inr n"
    using reads(4)[OF websearch_properties(2)] by blast
  moreover obtain lc where "value_str input ''livecrawl'' ''fallback'' = Inr lc"
    using reads(2)[OF websearch_properties(3)] by blast
  moreover obtain ty where "value_str input ''type'' ''auto'' = Inr ty"
    using reads(2)[OF websearch_properties(4)] by blast
  moreover obtain cm where "value_int input ''contextMaxCharacters'' 10000 = Inr cm"
    using reads(4)[OF websearch_properties(5)] by blast
  ultimately show ?thesis
    unfolding websearch_execute_def
    by (simp only: bind_outcome_simps Let_def)
      (intro sound_bind, simp_all only: call_mcp_sound[OF assms(2)] sound_simps split: if_split, simp)
qed

lemma webfetch_decoded: "conforms webfetch_schema input \<Longrightarrow> sound (webfetch_execute web input)"
  unfolding webfetch_execute_def Let_def
  by (intro sound_bind) (auto intro!: sound_reads simp: schema_facts)

lemma msg_decoded: "conforms msg_schema input \<Longrightarrow> sound (fst (msg_execute ops input s))"
  using conforms_reads(1)[of msg_schema input "''to''"] conforms_reads(1)[of msg_schema input "''text''"]
  by (auto simp: msg_execute_def schema_facts split: prod.split bool.split)

lemma builtin_execute_simps:
  "builtin_execute out ''apply_patch'' = writes_files (apply_patch_execute (to_patch out))"
  "builtin_execute out ''bash'' = shell_body out"
  "builtin_execute out ''read'' = reads_files (\<lambda>j fs. read_execute (to_status out fs) j)"
  "builtin_execute out ''write'' = writes_files (write_execute (to_edit out))"
  "builtin_execute out ''edit'' = writes_files (edit_execute (to_edit out))"
  "builtin_execute out ''glob'' = reads_files (\<lambda>j fs. glob_execute (to_glob out fs) j)"
  "builtin_execute out ''grep'' = reads_files (\<lambda>j fs. grep_execute (to_search out fs) j)"
  "builtin_execute out ''ls'' = reads_files (\<lambda>j fs. ls_execute (to_list out fs) j)"
  "builtin_execute out ''skill'' = reads_files (\<lambda>j fs. skill_execute (to_skills out fs) j)"
  "builtin_execute out ''websearch'' = reads_files (\<lambda>j fs. websearch_execute (to_mcp out) (to_seed out) j)"
  "builtin_execute out ''webfetch'' = reads_files (\<lambda>j fs. webfetch_execute (to_web out) j)"
  by (intro ext; simp add: builtin_execute_def builtin_bodies_def)+

lemma body_results:
  "fst (reads_files f input fs) = Some (f input fs)"
  "fst (writes_files g input fs) = Some (fst (g input fs))"
  by (simp_all add: reads_files_def writes_files_def split: prod.split)

lemma builtin_decoded:
  assumes "(n, s) \<in> set builtin_schemas" "conforms s input" "outside_sound out"
  shows "case fst (builtin_execute out n input fs) of Some r \<Rightarrow> sound r | None \<Rightarrow> n = ''bash''"
proof -
  note out = assms(3)[unfolded outside_sound_def]
  have outside: "conforms grep_schema input \<Longrightarrow> sound (grep_execute (to_search out fs) input)"
    "conforms ls_schema input \<Longrightarrow> sound (ls_execute (to_list out fs) input)"
    "conforms skill_schema input \<Longrightarrow> sound (skill_execute (to_skills out fs) input)"
    "conforms websearch_schema input \<Longrightarrow> sound (websearch_execute (to_mcp out) (to_seed out) input)"
    using out by (blast intro: grep_decoded ls_decoded skill_decoded websearch_decoded)+
  have shell: "case fst (shell_body out input fs) of Some r \<Rightarrow> sound r | None \<Rightarrow> True"
    if "conforms bash_schema input"
    using bash_decoded[OF that, of "to_shell out fs"]
    by (auto simp: shell_body_def split: option.splits prod.splits)
  from assms(1,2) show ?thesis
    unfolding builtin_schemas_def
    apply (simp only: list.set insert_iff empty_iff prod.inject simp_thms)
    apply (elim disjE conjE; hypsubst; simp only: builtin_execute_simps body_results option.case)
    apply (simp_all only: apply_patch_decoded read_decoded write_decoded edit_decoded glob_decoded
        webfetch_decoded outside)
    subgoal using shell by (simp split: option.splits)
    done
qed

section \<open>Conformity survives the rewriting of paths\<close>

lemma om_put_members: "set (om_put k v m) \<subseteq> insert (k, v) (set m)"
  by (induction m) (auto split: if_splits)

lemma fold_put_members: "set (fold (\<lambda>(k, v) m. om_put k v m) kvs m) \<subseteq> set kvs \<union> set m"
proof (induction kvs arbitrary: m)
  case (Cons kv kvs)
  obtain k v where kv: "kv = (k, v)" by fastforce
  have "set (fold (\<lambda>(k, v) m. om_put k v m) kvs (om_put k v m)) \<subseteq> set kvs \<union> insert (k, v) (set m)"
    using Cons.IH[of "om_put k v m"] om_put_members[of k v m] by blast
  then show ?case by (auto simp: kv)
qed simp

lemma object_schema_members: "set (properties_of (object_schema props req)) \<subseteq> set props"
proof -
  have "jfind (object_schema props req) ''properties'' = Some (jobj props)"
    by (simp add: object_schema_def jfind_jobj split: option.split)
  then have "properties_of (object_schema props req) = fold (\<lambda>(k, v) m. om_put k v m) props []"
    by (simp add: properties_of_def jobj_def)
  then show ?thesis using fold_put_members[of props "[]"] by simp
qed

text \<open>The arguments that are rewritten are free texts in every schema.\<close>

definition path_keys :: "string list" where
  "path_keys = [''file_path'', ''path'', ''pattern'', ''workdir'']"

lemma free_text: "value_conforms (property_schema ''string'' [] desc) (JStr x)"
proof -
  have "jfind (property_schema ''string'' [] desc) k = None"
    if "k \<in> {''enum'', ''minimum'', ''maximum''}" for k
    using that by (auto simp: property_schema_def jfind_jobj)
  then show ?thesis by (simp add: value_conforms_def property_type of_type_def)
qed

lemma path_properties_free:
  assumes "(n, s) \<in> set builtin_schemas" "(k, p) \<in> set (properties_of s)" "k \<in> set path_keys"
  shows "\<exists>desc. p = property_schema ''string'' [] desc"
proof -
  have member: "(k, p) \<in> set props" if "s = object_schema props req" for props req
    using assms(2) object_schema_members[of props req] that by blast
  from assms(1) show ?thesis
    unfolding builtin_schemas_def
    apply (simp only: list.set insert_iff empty_iff prod.inject simp_thms)
    apply (elim disjE conjE)
    apply (drule member[OF trans], rule apply_patch_schema_def bash_schema_def read_schema_def
        write_schema_def edit_schema_def glob_schema_def grep_schema_def ls_schema_def skill_schema_def
        websearch_schema_def webfetch_schema_def, use assms(3) in \<open>auto simp: path_keys_def\<close>)+
    done
qed

lemma fix_path_object: "\<exists>m'. fix_path base key (JObj m) = JObj m'"
  by (auto simp: fix_path_def split: option.split json.split list.split)

lemma rewrite_object: "\<exists>m'. rewrite_tool_paths base (JObj m) = Inr (JObj m')"
proof -
  obtain m1 where 1: "fix_path base ''file_path'' (JObj m) = JObj m1" using fix_path_object by blast
  obtain m2 where 2: "fix_path base ''path'' (JObj m1) = JObj m2" using fix_path_object by blast
  obtain m3 where 3: "fix_path base ''pattern'' (JObj m2) = JObj m3" using fix_path_object by blast
  obtain m4 where 4: "fix_path base ''workdir'' (JObj m3) = JObj m4" using fix_path_object by blast
  show ?thesis
    by (simp add: rewrite_tool_paths_def Let_def 1 2 3 4 split: option.split json.split)
qed

lemma based_path_cases: "based_path base v = v \<or> (\<exists>x. based_path base v = JStr x)"
  by (simp add: based_path_def split: json.split list.split)

text \<open>What a member is after the rewriting: as it was, or a text under one of the four names.\<close>

lemma rewritten_member:
  assumes "rewrite_tool_paths base (JObj m) = Inr input"
  shows "jfind (JObj m) k \<noteq> None \<Longrightarrow> jfind input k \<noteq> None"
    and "jfind input k = Some v \<Longrightarrow> jfind (JObj m) k = Some v \<or> k \<in> set path_keys \<and> is_jstr v"
    and "k \<noteq> ''workdir'' \<Longrightarrow> jfind (JObj m) k = None \<Longrightarrow> jfind input k = None"
proof -
  have same: "jfind input = jfind (JObj m)" if "base = []"
    using assms that by (auto simp: rewrite_tool_paths_def)
  note find = rewrite_tool_paths_find[OF assms]
  show "jfind (JObj m) k \<noteq> None \<Longrightarrow> jfind input k \<noteq> None"
    using same find[of k] by (cases "base = []") (auto split: option.splits json.splits if_splits)
  show "k \<noteq> ''workdir'' \<Longrightarrow> jfind (JObj m) k = None \<Longrightarrow> jfind input k = None"
    using same find[of k] by (cases "base = []") (auto split: if_splits)
  assume v: "jfind input k = Some v"
  show "jfind (JObj m) k = Some v \<or> k \<in> set path_keys \<and> is_jstr v"
  proof (cases "base = [] \<or> k \<notin> set path_keys")
    case True
    then have "jfind input k = jfind (JObj m) k"
      using same find[of k] by (cases "base = []") (simp_all add: path_keys_def)
    then show ?thesis using v by simp
  next
    case False
    then have "v = JStr base \<or> (\<exists>w. jfind (JObj m) k = Some w \<and> v = based_path base w)"
      using v find[of k] by (auto simp: path_keys_def split: option.splits json.splits)
    then show ?thesis using False based_path_cases[of base] by (metis is_jstr.simps(1))
  qed
qed

lemma rewrite_conforms:
  assumes "(n, s) \<in> set builtin_schemas" "conforms s args" "rewrite_tool_paths base args = Inr input"
  shows "conforms s input"
proof -
  obtain m where m: "args = JObj m" using conforms_object[OF assms(2)] by blast
  then obtain m' where m': "input = JObj m'" using assms(3) rewrite_object[of base m] by auto
  note member = rewritten_member[OF assms(3)[unfolded m], unfolded m' jfind.simps]
  have c: "list_all (\<lambda>(k, p). case map_of m k of None \<Rightarrow> True | Some v \<Rightarrow> value_conforms p v) (properties_of s)"
    "list_all (\<lambda>k. map_of m k \<noteq> None) (required_of s)"
    using assms(2) m by (simp_all add: conforms_def)
  have "value_conforms p v" if kp: "(k, p) \<in> set (properties_of s)" and v: "map_of m' k = Some v" for k p v
  proof (cases "map_of m k = Some v")
    case True
    then show ?thesis using c(1) kp by (auto simp: list_all_iff)
  next
    case False
    then have k: "k \<in> set path_keys" "is_jstr v" using member(2)[OF v] by auto
    then obtain x where "v = JStr x" by (cases v) auto
    then show ?thesis using path_properties_free[OF assms(1) kp k(1)] free_text by auto
  qed
  moreover have "map_of m' k \<noteq> None" if "k \<in> set (required_of s)" for k
    using c(2) that member(1)[of k] by (auto simp: list_all_iff)
  ultimately show ?thesis by (auto simp: m' conforms_def list_all_iff split: option.split)
qed

section \<open>Conforming steps are answered\<close>

text \<open>A call of a tool that is built in conforms to its schema; a \<open>file_path\<close> is a text, whoever is called.\<close>

definition conforming_call :: "active_call \<times> json \<Rightarrow> bool" where
  "conforming_call c \<longleftrightarrow>
     (case map_of builtin_schemas (ac_name (fst c)) of
        None \<Rightarrow> True
      | Some s \<Rightarrow> conforms s (snd c)) \<and>
     (case jfind (snd c) ''file_path'' of None \<Rightarrow> True | Some v \<Rightarrow> is_jstr v)"

lemma rewritten_file_path:
  assumes "rewrite_tool_paths base args = Inr input" "jfind input ''file_path'' = Some v"
    and "\<forall>w. jfind args ''file_path'' = Some w \<longrightarrow> is_jstr w"
  shows "is_jstr v"
proof (cases "\<exists>m. args = JObj m")
  case True
  then obtain m where m: "args = JObj m" by blast
  from rewritten_member(2)[OF assms(1)[unfolded m] assms(2)] assms(3) m show ?thesis by auto
next
  case False
  then have none: "jfind args k = None" for k by (cases args) simp_all
  have fixed: "fix_path base key args = args" for key by (simp add: fix_path_def none)
  have "jfind input ''file_path'' = None"
  proof (cases "base = []")
    case True
    then show ?thesis using assms(1) none by (simp add: rewrite_tool_paths_def)
  next
    case False
    then have "jset args ''workdir'' (JStr base) = Inr input"
      using assms(1) by (simp add: rewrite_tool_paths_def fixed none Let_def)
    from jfind_jset[OF this] none show ?thesis by simp
  qed
  with assms(2) show ?thesis by simp
qed

lemma builtin_env_defined:
  assumes "case map_of builtin_schemas n of None \<Rightarrow> True | Some s \<Rightarrow> conforms s input"
    and "outside_sound out" "no_undefined env"
  shows "fst (te_exec (builtin_env out env) n input fs) \<noteq> Inl Undefined"
proof (cases "builtin_execute out n input fs")
  case (Pair r fs')
  have d: "case r of Some r \<Rightarrow> sound r | None \<Rightarrow> True"
  proof (cases "map_of builtin_schemas n")
    case None
    then have "n \<notin> set builtin_tool_names" using builtin_tables_agree(1) by (metis map_of_eq_None_iff list.set_map)
    then have "map_of (builtin_bodies out) n = None"
      using builtin_tables_agree(2)[of out] by (metis map_of_eq_None_iff list.set_map)
    then show ?thesis using Pair by (simp add: builtin_execute_def)
  next
    case (Some s)
    with assms(1) have "conforms s input" by simp
    from builtin_decoded[OF map_of_SomeD[OF Some] this assms(2), of fs] Pair show ?thesis
      by (simp split: option.splits)
  qed
  show ?thesis
  proof (cases r)
    case None
    then show ?thesis using assms(3) Pair by (simp add: builtin_env_def no_undefined_def)
  next
    case (Some r')
    then have "sound r'" using d by simp
    then have "r' \<noteq> Inl Undefined" by (auto simp: json_failure_def)
    then show ?thesis using Some Pair by (simp add: builtin_env_def)
  qed
qed

lemma execute_tool_answers:
  assumes "conforming_call (tc, args)" "outside_sound out" "no_undefined env"
  shows "\<exists>t is_error input. fst (execute_tool (builtin_env out env) (ac_name tc) args st) = Inr (t, is_error, input) \<and>
    (\<not> is_error \<longrightarrow> (\<forall>v. jfind input ''file_path'' = Some v \<longrightarrow> is_jstr v))"
proof (cases "rewrite_tool_paths (ag_tool_cwd_base (ts_agent st)) args")
  case (Inl e)
  then have "e \<noteq> Undefined" using rewrite_defined[of "ag_tool_cwd_base (ts_agent st)" args] by auto
  then show ?thesis using Inl by (cases e) (auto simp: execute_tool_def split: option.split)
next
  case (Inr input)
  have "\<forall>w. jfind args ''file_path'' = Some w \<longrightarrow> is_jstr w"
    using assms(1) by (auto simp: conforming_call_def split: option.splits)
  note fp = rewritten_file_path[OF Inr _ this]
  have c: "case map_of builtin_schemas (ac_name tc) of None \<Rightarrow> True | Some s \<Rightarrow> conforms s input"
    using assms(1) rewrite_conforms[OF map_of_SomeD _ Inr]
    by (auto simp: conforming_call_def split: option.splits)
  obtain r w where r: "te_exec (builtin_env out env) (ac_name tc) input (ts_world st) = (r, w)"
    by fastforce
  have "r \<noteq> Inl Undefined" using builtin_env_defined[OF c assms(2,3), of "ts_world st"] r by simp
  then show ?thesis using r fp
    by (cases r) (auto simp: execute_tool_def Let_def Inr split: option.split failure.splits)
qed

lemma run_tool_answers:
  assumes "conforming_call (tc, args)" "outside_sound out" "no_undefined env"
  shows "fst (run_tool (builtin_env out env) tc args st) = None"
proof -
  let ?st = "emit [SinkToolCall (ac_name tc) args] st"
  obtain t is_error input st2 where x:
    "execute_tool (builtin_env out env) (ac_name tc) args ?st = (Inr (t, is_error, input), st2)"
    "\<not> is_error \<longrightarrow> (\<forall>v. jfind input ''file_path'' = Some v \<longrightarrow> is_jstr v)"
    using execute_tool_answers[OF assms, of ?st] by (metis prod.collapse)
  have "fst (track_file (builtin_env out env) (ac_name tc) is_error input st2) = None"
  proof (cases "jfind input ''file_path''")
    case (Some v)
    then have "\<not> is_error \<longrightarrow> (\<exists>p. v = JStr p)" using x(2) by (cases v) auto
    then show ?thesis using Some by (auto simp: track_file_def Let_def split: prod.split)
  qed (simp add: track_file_def Let_def split: prod.split)
  then show ?thesis using x(1)
    by (auto simp: run_tool_def Let_def split: prod.split option.split)
qed

lemma run_tools_answers:
  assumes "list_all conforming_call calls" "outside_sound out" "no_undefined env"
  shows "fst (run_tools (builtin_env out env) calls st) = None"
  using assms(1)
proof (induction calls arbitrary: st)
  case (Cons ta calls)
  obtain tc args where ta: "ta = (tc, args)" by fastforce
  then have "fst (run_tool (builtin_env out env) tc args st) = None" for st
    using run_tool_answers[OF _ assms(2,3)] Cons.prems by simp
  then show ?case using Cons by (auto simp: ta split: prod.split option.split bool.split) (metis fst_conv option.distinct(1))
qed simp



section \<open>Missing arguments\<close>

text \<open>The tools that read a required argument with \<open>operator[]\<close>, with the argument they read first.\<close>

definition unguarded_reads :: "(string \<times> string) list" where
  "unguarded_reads =
     [(''bash'', ''command''), (''read'', ''file_path''), (''write'', ''file_path''), (''edit'', ''file_path''),
      (''glob'', ''pattern''), (''grep'', ''pattern''), (''websearch'', ''query'')]"

lemma missing_argument_undefined:
  assumes "(n, k) \<in> set unguarded_reads" "map_of m k = None"
  shows "builtin_execute out n (JObj m) fs = (Some (Inl Undefined), fs)"
proof -
  have i: "jindex (JObj m) k = Inl Undefined" using assms(2) by simp
  show ?thesis
    using assms(1) i unfolding unguarded_reads_def
    apply (simp only: list.set insert_iff empty_iff prod.inject simp_thms)
    apply (elim disjE conjE; hypsubst; simp only: builtin_execute_simps reads_files_def writes_files_def
        shell_body_def)
    apply (simp_all only: bash_execute_def read_execute_def write_execute_def edit_execute_def
        glob_execute_def grep_execute_def websearch_execute_def bind_outcome_simps sum.case prod.case)
    done
qed

section \<open>Properties\<close>

text \<open>C5: A call of a built-in tool whose arguments conform to the tool's schema is decoded: with its
  paths rewritten below the base directory it still conforms, and the tool ends without undefined
  behaviour and without a type error of the JSON library (only a shell command may not end at all).\<close>

theorem conforming_call_is_decoded:
  assumes "map_of builtin_schemas n = Some s" "conforms s args" "outside_sound out"
  shows "case rewrite_tool_paths base args of
      Inl e \<Rightarrow> False
    | Inr input \<Rightarrow> conforms s input \<and>
        (case fst (builtin_execute out n input fs) of
           Some (Inl e) \<Rightarrow> e \<notin> {Undefined, type_error_302, type_error_305, type_error_306}
         | Some (Inr t) \<Rightarrow> True
         | None \<Rightarrow> n = ''bash'')"
proof -
  note n = map_of_SomeD[OF assms(1)]
  obtain m m' where m: "args = JObj m" "rewrite_tool_paths base (JObj m) = Inr (JObj m')"
    using conforms_object[OF assms(2)] rewrite_object[of base] by blast
  then have c: "conforms s (JObj m')" by (auto intro: rewrite_conforms[OF n assms(2)])
  from builtin_decoded[OF n c assms(3), of fs] show ?thesis
    by (auto simp: m c json_failure_def split: option.split sum.split)
qed

text \<open>Every call of a step whose calls all conform is answered, unless the turn is cancelled.\<close>

theorem conforming_step_is_answered:
  assumes "list_all conforming_call calls" "outside_sound out" "no_undefined env"
    and "run_tools (builtin_env out env) calls st = (r, st')"
    and "opened st = Some (map (ac_id \<circ> fst) calls)"
  shows "r = None \<and> (ag_cancel (ts_agent st') \<or> opened st' = Some [])"
  using run_tools_answers[OF assms(1-3), of st] run_tools_history[OF assms(4)] assms(4,5) by auto


text \<open>A call of one of seven tools whose arguments are no JSON document is executed with an empty
  object, in which the tool then reads a member that is not there: the step, and with it the process,
  is undefined.\<close>

theorem malformed_call_is_undefined:
  assumes "te_parse env (ac_input_json tc) = None"
    and "(ac_name tc, k) \<in> set unguarded_reads"
    and "registry_get (ag_registry (ts_agent st)) (ac_name tc) \<noteq> None"
  shows "fst (run_tool (builtin_env out env) tc (call_input env tc) st) = Some Undefined"
proof -
  have e: "call_input env tc = JObj []" using assms(1) by (simp add: call_input_def)
  let ?base = "ag_tool_cwd_base (ts_agent st)"
  obtain m where m: "rewrite_tool_paths ?base (JObj []) = Inr (JObj m)" using rewrite_object by blast
  have "k \<noteq> ''workdir''" using assms(2) by (auto simp: unguarded_reads_def)
  then have "map_of m k = None" using rewritten_member(3)[OF m, of k] by simp
  note x = missing_argument_undefined[OF assms(2) this, of out]
  show ?thesis using assms(3) m
    by (auto simp: e run_tool_def Let_def execute_tool_def emit_def builtin_env_def x)
qed

text \<open>The timeout of the shell tool is read into 32 bits: a conforming request for 2^32 milliseconds
  is a request for none, and the command is killed at once.\<close>

theorem long_timeout_wraps:
  assumes "be_pipe_ok env" "be_fork_ok env" "be_events env ''make'' ''.'' = (0, ev) # evs"
  shows "conforms bash_schema (JObj [(''command'', JStr ''make''), (''timeout'', JInt 4294967296)]) \<and>
    bash_execute env (JObj [(''command'', JStr ''make''), (''timeout'', JInt 4294967296)]) =
      Inr (Some (timeout_text 0, [KillTerm, KillKill, WaitForShell]))"
proof
  show "conforms bash_schema (JObj [(''command'', JStr ''make''), (''timeout'', JInt 4294967296)])"
    by code_simp
  show "bash_execute env (JObj [(''command'', JStr ''make''), (''timeout'', JInt 4294967296)]) =
      Inr (Some (timeout_text 0, [KillTerm, KillKill, WaitForShell]))"
    using assms
    by (simp add: bash_execute_def value_of_def get_int_def to_int32_def bash_run_def MAX_TIMEOUT_MS_def
        bash_report_def MAX_CAPTURE_BYTES_def bash_actions_def)
qed

section \<open>Witnesses\<close>

text \<open>An outside in which nothing fails and everything but the files is empty.\<close>

definition sample_outside :: tool_outside where
  "sample_outside =
     \<lparr>to_edit = \<lparr>ee_between = (\<lambda>fs. fs), ee_open_ok = (\<lambda>p. True), ee_fails_after = None, ee_noticed = True\<rparr>,
      to_patch = \<lparr>pe_file = (\<lambda>p. p), pe_readable = (\<lambda>p. True), pe_open_ok = (\<lambda>p. True),
        pe_fails = (\<lambda>p. None), pe_remove_ok = (\<lambda>p. True)\<rparr>,
      to_status = (\<lambda>fs p. case fs p of None \<Rightarrow> NoPath | Some b \<Rightarrow> FilePath (length b) (Some b)),
      to_search = (\<lambda>fs. \<lparr>se_kind = (\<lambda>p. Inr (if fs p = None then NoFile else RegularFile)),
        se_walk = (\<lambda>p. []), se_content = fs\<rparr>),
      to_glob = (\<lambda>fs p. (3, [])),
      to_list = (\<lambda>fs. \<lparr>le_exists = (\<lambda>p. Inr True), le_entries = (\<lambda>p. [])\<rparr>),
      to_skills = (\<lambda>fs. \<lparr>sk_home = None, sk_project = None, sk_files = (\<lambda>d. [])\<rparr>),
      to_shell = (\<lambda>fs. \<lparr>be_pipe_ok = True, be_fork_ok = True, be_events = (\<lambda>c w. [(0, ReadEnded)])\<rparr>),
      to_after_shell = (\<lambda>j fs. fs),
      to_web = (\<lambda>r. \<lparr>wr_error = True, wr_status = 0, wr_header = (\<lambda>h. None), wr_body = []\<rparr>),
      to_mcp = \<lparr>sw_getenv = (\<lambda>v. None),
        sw_post = (\<lambda>r. \<lparr>mr_error = Some ''offline'', mr_status = 0, mr_text = []\<rparr>),
        sw_parse = (\<lambda>t. None), sw_dump = (\<lambda>j. Inr [])\<rparr>,
      to_seed = []\<rparr>"

lemma sample_outside_sound: "outside_sound sample_outside"
  by (simp add: outside_sound_def sample_outside_def sound_root_def)

definition sample_read :: json where
  "sample_read = JObj [(''file_path'', JStr ''a.txt''), (''limit'', JInt 20), (''offset'', JInt 1)]"

theorem conforming_call_is_decoded_witness:
  "case rewrite_tool_paths ''/r'' sample_read of
      Inl e \<Rightarrow> False
    | Inr input \<Rightarrow> conforms read_schema input \<and>
        (case fst (builtin_execute sample_outside ''read'' input [''/r/a.txt'' \<mapsto> ''hello'']) of
           Some (Inl e) \<Rightarrow> e \<notin> {Undefined, type_error_302, type_error_305, type_error_306}
         | Some (Inr t) \<Rightarrow> True
         | None \<Rightarrow> ''read'' = ''bash'')"
proof (rule conforming_call_is_decoded)
  show "map_of builtin_schemas ''read'' = Some read_schema" by (simp add: builtin_schemas_def)
  show "conforms read_schema sample_read" by code_simp
  show "outside_sound sample_outside" by (rule sample_outside_sound)
qed

definition contract_env :: "files turn_env" where
  "contract_env =
     \<lparr>te_complete = (\<lambda>ms defs sys p w. (([], Some ''no answer'', 0, 0), w)),
      te_exec = (\<lambda>n j w. (Inr [], w)), te_parse = (\<lambda>s. None),
      te_cancelled = (\<lambda>w. (False, w)), te_connected = (\<lambda>w. (False, w)),
      te_register_read = (\<lambda>p w. w), te_report_write = (\<lambda>p w. w),
      te_sys_world = (\<lambda>w. sample_world)\<rparr>"

definition sample_state :: "files turn_state" where
  "sample_state =
     \<lparr>ts_agent = script_agent\<lparr>ag_registry := register_builtin_tools (to_definition (\<lambda>n. [])) []\<rparr>,
      ts_sink = [], ts_world = Map.empty\<rparr>"

definition cut_call :: active_call where
  "cut_call = \<lparr>ac_id = ''c1'', ac_name = ''read'', ac_input_json = ''{file_path:''\<rparr>"

theorem malformed_call_is_undefined_witness:
  "fst (run_tool (builtin_env sample_outside contract_env) cut_call (call_input contract_env cut_call) sample_state) =
     Some Undefined"
proof (rule malformed_call_is_undefined)
  show "te_parse contract_env (ac_input_json cut_call) = None" by (simp add: contract_env_def)
  show "(ac_name cut_call, ''file_path'') \<in> set unguarded_reads"
    by (simp add: cut_call_def unguarded_reads_def)
  show "registry_get (ag_registry (ts_agent sample_state)) (ac_name cut_call) \<noteq> None"
    by (simp add: sample_state_def cut_call_def register_builtin_tools_def builtin_tool_names_def
        registry_get_register to_definition_def)
qed

theorem conforming_step_is_answered_witness:
  "list_all conforming_call [(cut_call, sample_read)] \<and>
   fst (run_tools (builtin_env sample_outside contract_env) [(cut_call, sample_read)]
     (push_message (assistant_message [] [(cut_call, sample_read)]) sample_state)) = None"
proof -
  let ?c = "[(cut_call, sample_read)]"
  let ?st = "push_message (assistant_message [] ?c) sample_state"
  obtain r st' where r: "run_tools (builtin_env sample_outside contract_env) ?c ?st = (r, st')" by fastforce
  have c: "list_all conforming_call ?c" by code_simp
  have "no_undefined contract_env" by (simp add: no_undefined_def contract_env_def)
  moreover have "opened ?st = Some (map (ac_id \<circ> fst) ?c)"
    by (simp add: push_message_def add_message_def sample_state_def script_agent_def assistant_message_def
        open_after_message_def)
  ultimately have "r = None"
    using conforming_step_is_answered[OF c sample_outside_sound _ r] by blast
  with c r show ?thesis by simp
qed



end
