(* ===== verification/Tui_Wrap.thy ===== *)
theory Tui_Wrap
  imports Markdown Prompt_Editor Agent_State
begin

text \<open>
  The text layout of the terminal interface (the first part of \<open>src/tui/tui.cpp\<close>): trimming, the blank
  rows of a block, the argument shown with a tool call, and \<open>wrap_line\<close>, which lays a styled line out
  in rows of the terminal. A glyph is what \<open>pe_glyph_len\<close> of the prompt editor takes for one.
\<close>

section \<open>Small helpers\<close>

definition trim_string :: "string \<Rightarrow> string" where
  "trim_string s = trim_of [CHR '' '', tab, cr, nl] s"

text \<open>The interface has its own copies of \<open>collapse_ws\<close>, \<open>clamp_front\<close> and this search over the keys.\<close>

definition tui_tool_argument :: "json \<Rightarrow> string" where
  "tui_tool_argument args = first_argument [''file_path'', ''command'', ''pattern'', ''path''] args"

definition line_is_blank :: "md_line \<Rightarrow> bool" where
  "line_is_blank l \<longleftrightarrow> list_all (\<lambda>s. list_all is_blank (sp_text s)) (ln_spans l)"

definition trim_blank_edges :: "md_line list \<Rightarrow> md_line list" where
  "trim_blank_edges block = rev (dropWhile line_is_blank (rev (dropWhile line_is_blank block)))"

section \<open>Wrapping\<close>

function glyphs_of :: "string \<Rightarrow> string list" where
  "glyphs_of [] = []"
| "glyphs_of (c # cs) = take (lead_len c) (c # cs) # glyphs_of (drop (lead_len c) (c # cs))"
  by pat_completeness auto
termination
  by (relation "measure length") (auto simp: lead_len_pos)

definition glyph_cells :: "string \<Rightarrow> nat" where
  "glyph_cells g = pe_glyph_width g 0"

text \<open>The rows already finished, the row being filled and its width.\<close>

record wrapper =
  wr_rows :: "md_line list"
  wr_row :: md_line
  wr_width :: nat

definition empty_row :: "bool \<Rightarrow> md_line" where
  "empty_row g = \<lparr>ln_spans = [], ln_gutter = g\<rparr>"

definition append_glyph :: "string \<Rightarrow> md_span \<Rightarrow> md_line \<Rightarrow> md_line" where
  "append_glyph g style r =
     (if ln_spans r \<noteq> [] \<and> same_style (last (ln_spans r)) style then
        r\<lparr>ln_spans := butlast (ln_spans r) @ [(last (ln_spans r))\<lparr>sp_text := sp_text (last (ln_spans r)) @ g\<rparr>]\<rparr>
      else r\<lparr>ln_spans := ln_spans r @ [style\<lparr>sp_text := g\<rparr>]\<rparr>)"

definition push_row :: "bool \<Rightarrow> wrapper \<Rightarrow> wrapper" where
  "push_row gut w =
     (if ln_spans (wr_row w) \<noteq> [] then
        \<lparr>wr_rows = wr_rows w @ [wr_row w], wr_row = empty_row gut, wr_width = 0\<rparr>
      else w)"

definition put_glyph :: "string \<times> md_span \<Rightarrow> wrapper \<Rightarrow> wrapper" where
  "put_glyph gs w = w\<lparr>wr_row := append_glyph (fst gs) (snd gs) (wr_row w),
     wr_width := wr_width w + glyph_cells (fst gs)\<rparr>"

definition hard_put :: "bool \<Rightarrow> nat \<Rightarrow> string \<times> md_span \<Rightarrow> wrapper \<Rightarrow> wrapper" where
  "hard_put gut limit gs w =
     put_glyph gs (if 0 < wr_width w \<and> limit < wr_width w + glyph_cells (fst gs) then push_row gut w else w)"

definition word_cells :: "(string \<times> md_span) list \<Rightarrow> nat" where
  "word_cells word = sum_list (map (\<lambda>gs. glyph_cells (fst gs)) word)"

definition add_word :: "bool \<Rightarrow> nat \<Rightarrow> (string \<times> md_span) list \<Rightarrow> wrapper \<Rightarrow> wrapper" where
  "add_word gut limit word w =
     (if 0 < wr_width w \<and> wr_width w + 1 + word_cells word \<le> limit then
        fold put_glyph word (put_glyph ('' '', snd (hd word)) w)
      else (let w1 = (if 0 < wr_width w then push_row gut w else w) in
        if limit < word_cells word then fold (hard_put gut limit) word w1 else fold put_glyph word w1))"

definition flush_word :: "bool \<Rightarrow> nat \<Rightarrow> (string \<times> md_span) list \<Rightarrow> wrapper \<Rightarrow> wrapper" where
  "flush_word gut limit word w = (if word \<noteq> [] then add_word gut limit word w else w)"

fun wrap_glyph_list ::
  "bool \<Rightarrow> nat \<Rightarrow> (string \<times> md_span) list \<Rightarrow> (string \<times> md_span) list \<Rightarrow> wrapper \<Rightarrow> wrapper" where
  "wrap_glyph_list gut limit word [] w = push_row gut (flush_word gut limit word w)"
| "wrap_glyph_list gut limit word (gs # rest) w =
     (if fst gs = '' '' \<or> fst gs = [tab] then wrap_glyph_list gut limit [] rest (flush_word gut limit word w)
      else wrap_glyph_list gut limit (word @ [gs]) rest w)"

definition styled_glyphs :: "md_span list \<Rightarrow> (string \<times> md_span) list" where
  "styled_glyphs spans = concat (map (\<lambda>s. map (\<lambda>g. (g, s)) (glyphs_of (sp_text s))) spans)"

definition safe_limit :: "int \<Rightarrow> nat" where
  "safe_limit limit = (let l = (if limit \<le> 0 then 100 else limit) in nat (max 1 (l - 1)))"

definition text_line :: "string \<Rightarrow> md_line" where
  "text_line t = md_plain_line t ColDefault False False"

definition wrap_line :: "md_line \<Rightarrow> int \<Rightarrow> md_line list" where
  "wrap_line line limit =
     (let gut = ln_gutter line;
          w = wrap_glyph_list gut (safe_limit limit) [] (styled_glyphs (ln_spans line))
                \<lparr>wr_rows = [], wr_row = empty_row gut, wr_width = 0\<rparr> in
      if wr_rows w = [] then [text_line []] else wr_rows w)"

section \<open>Width of the rows\<close>

text \<open>The columns of a text: one for ASCII, two for any other character, none for the bytes behind a
  lead byte.\<close>

definition columns :: "string \<Rightarrow> nat" where
  "columns s = sum_list (map (\<lambda>c. if byte c < 0x80 then 1 else if is_cont c then 0 else 2) s)"

definition text_of_row :: "md_line \<Rightarrow> string" where
  "text_of_row l = concat (map sp_text (ln_spans l))"

lemma columns_simps [simp]: "columns [] = 0" "columns (a @ b) = columns a + columns b"
  by (simp_all add: columns_def)

lemma columns_concat: "columns (concat xs) = sum_list (map columns xs)"
  by (induction xs) simp_all

lemma columns_glyph: "glyph g \<Longrightarrow> columns g = glyph_cells g"
proof -
  have conts: "list_all is_cont cs \<Longrightarrow> sum_list (map (\<lambda>c. if byte c < 0x80 then 1 else if is_cont c then 0 else (2::nat)) cs) = 0" for cs
    by (induction cs) (auto simp: is_cont_range)
  assume "glyph g"
  then obtain c cs where g: "g = c # cs" "lead_len c = length g" "list_all is_cont cs" "\<not> is_cont c"
    by (cases g) auto
  then show ?thesis
    by (simp add: columns_def conts glyph_cells_def pe_glyph_width_def lead_width_def)
qed


lemma glyph_cells_range: "0 < glyph_cells g" "glyph_cells g \<le> 2"
  by (simp_all add: glyph_cells_def pe_glyph_width_def lead_width_def)

lemma row_text_append: "text_of_row (append_glyph g style r) = text_of_row r @ g"
proof (cases "ln_spans r \<noteq> [] \<and> same_style (last (ln_spans r)) style")
  case True
  then obtain ss s where r: "ln_spans r = ss @ [s]" by (metis append_butlast_last_id)
  with True show ?thesis by (simp add: append_glyph_def text_of_row_def)
qed (auto simp: append_glyph_def text_of_row_def)

lemma append_glyph_keeps [simp]: "ln_spans (append_glyph g style r) \<noteq> []"
    "ln_gutter (append_glyph g style r) = ln_gutter r"
  by (simp_all add: append_glyph_def)

lemma empty_row_simps [simp]: "ln_spans (empty_row g) = []" "ln_gutter (empty_row g) = g"
    "text_of_row (empty_row g) = []"
  by (simp_all add: empty_row_def text_of_row_def)

lemma put_glyph_simps [simp]:
  "wr_rows (put_glyph gs w) = wr_rows w"
  "wr_row (put_glyph gs w) = append_glyph (fst gs) (snd gs) (wr_row w)"
  "wr_width (put_glyph gs w) = wr_width w + glyph_cells (fst gs)"
  by (simp_all add: put_glyph_def)

definition row_fits :: "bool \<Rightarrow> nat \<Rightarrow> md_line \<Rightarrow> bool" where
  "row_fits gut limit r \<longleftrightarrow> columns (text_of_row r) \<le> max 2 limit \<and> ln_gutter r = gut"

definition wrapper_ok :: "bool \<Rightarrow> nat \<Rightarrow> wrapper \<Rightarrow> bool" where
  "wrapper_ok gut limit w \<longleftrightarrow> list_all (row_fits gut limit) (wr_rows w) \<and> row_fits gut limit (wr_row w) \<and>
     columns (text_of_row (wr_row w)) = wr_width w \<and> (ln_spans (wr_row w) = [] \<longleftrightarrow> wr_width w = 0)"

definition glyph_word :: "(string \<times> md_span) list \<Rightarrow> bool" where
  "glyph_word word \<longleftrightarrow> list_all (\<lambda>gs. glyph (fst gs)) word"

lemma word_simps [simp]: "glyph_word []" "glyph_word (gs # word) \<longleftrightarrow> glyph (fst gs) \<and> glyph_word word"
    "glyph_word (word @ word') \<longleftrightarrow> glyph_word word \<and> glyph_word word'"
    "word_cells [] = 0" "word_cells (gs # word) = glyph_cells (fst gs) + word_cells word"
    "word_cells (word @ word') = word_cells word + word_cells word'"
  by (simp_all add: glyph_word_def word_cells_def)

lemma put_glyph_ok:
  "wrapper_ok gut limit w \<Longrightarrow> glyph (fst gs) \<Longrightarrow> wr_width w + glyph_cells (fst gs) \<le> max 2 limit \<Longrightarrow>
   wrapper_ok gut limit (put_glyph gs w)"
  using glyph_cells_range(1)[of "fst gs"]
  by (auto simp: wrapper_ok_def row_fits_def row_text_append columns_glyph)

lemma put_word_ok:
  "wrapper_ok gut limit w \<Longrightarrow> glyph_word word \<Longrightarrow> wr_width w + word_cells word \<le> max 2 limit \<Longrightarrow>
   wrapper_ok gut limit (fold put_glyph word w)"
  by (induction word arbitrary: w) (simp_all add: put_glyph_ok)

lemma push_row_ok: "wrapper_ok gut limit w \<Longrightarrow> wrapper_ok gut limit (push_row gut w)"
    "wrapper_ok gut limit w \<Longrightarrow> wr_width (push_row gut w) = 0"
  by (auto simp: push_row_def wrapper_ok_def row_fits_def)

lemma hard_put_ok:
  assumes "wrapper_ok gut limit w" "glyph (fst gs)"
  shows "wrapper_ok gut limit (hard_put gut limit gs w)"
proof (cases "0 < wr_width w \<and> limit < wr_width w + glyph_cells (fst gs)")
  case True
  with assms show ?thesis
    using push_row_ok[OF assms(1)] glyph_cells_range[of "fst gs"]
    by (simp add: hard_put_def put_glyph_ok)
next
  case False
  with assms show ?thesis
    using glyph_cells_range[of "fst gs"] by (auto simp: hard_put_def intro!: put_glyph_ok)
qed

lemma hard_word_ok:
  "wrapper_ok gut limit w \<Longrightarrow> glyph_word word \<Longrightarrow> wrapper_ok gut limit (fold (hard_put gut limit) word w)"
  by (induction word arbitrary: w) (simp_all add: hard_put_ok)

lemma glyph_space: "glyph '' ''" "glyph_cells '' '' = 1"
  by (simp_all add: glyph_cells_def pe_glyph_width_def lead_width_def lead_len_def is_cont_range)

lemma add_word_ok:
  assumes "wrapper_ok gut limit w" "glyph_word word"
  shows "wrapper_ok gut limit (add_word gut limit word w)"
proof -
  define w1 where "w1 = (if 0 < wr_width w then push_row gut w else w)"
  have w1: "wrapper_ok gut limit w1" "wr_width w1 = 0"
    using push_row_ok[OF assms(1)] assms(1) by (simp_all add: w1_def)
  have "wrapper_ok gut limit (if limit < word_cells word then fold (hard_put gut limit) word w1 else fold put_glyph word w1)"
    using w1 assms(2) by (simp add: hard_word_ok put_word_ok)
  moreover have "wrapper_ok gut limit (fold put_glyph word (put_glyph ('' '', snd (hd word)) w))"
    if "wr_width w + 1 + word_cells word \<le> limit"
    using that assms
    by (intro put_word_ok put_glyph_ok) (simp_all add: glyph_space lead_len_def is_cont_range)
  ultimately show ?thesis by (simp add: add_word_def w1_def[symmetric] Let_def)
qed

lemma wrap_glyph_list_ok:
  "wrapper_ok gut limit w \<Longrightarrow> glyph_word word \<Longrightarrow> glyph_word gs \<Longrightarrow>
   wrapper_ok gut limit (wrap_glyph_list gut limit word gs w)"
  by (induction gut limit word gs w rule: wrap_glyph_list.induct)
    (simp_all add: push_row_ok flush_word_def add_word_ok)

lemma glyphs_of_glyphs: "list_all glyph gs \<Longrightarrow> glyphs_of (concat gs) = gs"
proof (induction gs)
  case (Cons g gs)
  then obtain c cs where g: "g = c # cs" "lead_len c = Suc (length cs)" by (cases g) auto
  with Cons show ?case by simp
qed simp

lemma styled_glyphs_ok:
  "list_all (\<lambda>s. utf8_valid (sp_text s)) spans \<Longrightarrow> glyph_word (styled_glyphs spans)"
proof (induction spans)
  case (Cons s spans)
  then obtain gs where gs: "list_all glyph gs" "concat gs = sp_text s" using utf8_glyphs by fastforce
  then have "glyphs_of (sp_text s) = gs" using glyphs_of_glyphs by metis
  with gs(1) have "glyph_word (map (\<lambda>g. (g, s)) (glyphs_of (sp_text s)))"
    by (simp add: glyph_word_def list_all_length)
  with Cons show ?case by (simp add: styled_glyphs_def)
qed (simp add: styled_glyphs_def)

lemma wrapped_rows_fit:
  assumes "list_all (\<lambda>s. utf8_valid (sp_text s)) (ln_spans line)"
  shows "list_all (\<lambda>r. columns (text_of_row r) \<le> max 2 (safe_limit limit) \<and>
    (ln_gutter r = ln_gutter line \<or> r = text_line [])) (wrap_line line limit)"
proof -
  have "wrapper_ok (ln_gutter line) (safe_limit limit)
      (wrap_glyph_list (ln_gutter line) (safe_limit limit) [] (styled_glyphs (ln_spans line))
        \<lparr>wr_rows = [], wr_row = empty_row (ln_gutter line), wr_width = 0\<rparr>)"
    by (rule wrap_glyph_list_ok) (simp_all add: wrapper_ok_def row_fits_def styled_glyphs_ok assms)
  then show ?thesis
    by (simp add: wrap_line_def Let_def wrapper_ok_def row_fits_def list_all_length text_line_def
        md_plain_line_def line_of_def mk_span_def text_of_row_def)
qed

section \<open>Text of the rows\<close>

text \<open>The bytes of a line with the style each is shown in.\<close>

definition styled_text :: "md_line \<Rightarrow> (char \<times> md_span) list" where
  "styled_text l = concat (map (\<lambda>s. map (\<lambda>c. (c, s\<lparr>sp_text := []\<rparr>)) (sp_text s)) (ln_spans l))"

definition visible :: "char \<times> md_span \<Rightarrow> bool" where
  "visible cs \<longleftrightarrow> \<not> is_blank (fst cs)"

definition wrapper_text :: "wrapper \<Rightarrow> (char \<times> md_span) list" where
  "wrapper_text w = filter visible (concat (map styled_text (wr_rows w)) @ styled_text (wr_row w))"

definition word_text :: "(string \<times> md_span) list \<Rightarrow> (char \<times> md_span) list" where
  "word_text word = filter visible (concat (map (\<lambda>gs. map (\<lambda>c. (c, (snd gs)\<lparr>sp_text := []\<rparr>)) (fst gs)) word))"

lemma styled_append: "styled_text (append_glyph g style r) = styled_text r @ map (\<lambda>c. (c, style\<lparr>sp_text := []\<rparr>)) g"
proof (cases "ln_spans r \<noteq> [] \<and> same_style (last (ln_spans r)) style")
  case True
  then obtain ss s where r: "ln_spans r = ss @ [s]" by (metis append_butlast_last_id)
  with True have "s\<lparr>sp_text := []\<rparr> = style\<lparr>sp_text := []\<rparr>" by (simp add: same_style_def)
  with True r show ?thesis by (simp add: append_glyph_def styled_text_def)
qed (auto simp: append_glyph_def styled_text_def)

lemma word_text_simps [simp]: "word_text [] = []"
    "word_text (gs # word) = filter visible (map (\<lambda>c. (c, (snd gs)\<lparr>sp_text := []\<rparr>)) (fst gs)) @ word_text word"
    "word_text (word @ word') = word_text word @ word_text word'"
  by (simp_all add: word_text_def)

lemma put_glyph_text: "wrapper_text (put_glyph gs w) = wrapper_text w @ word_text [gs]"
  by (simp add: wrapper_text_def styled_append)

lemma push_row_text: "wrapper_text (push_row gut w) = wrapper_text w"
  by (simp add: push_row_def wrapper_text_def styled_text_def)

lemma hard_put_text: "wrapper_text (hard_put gut limit gs w) = wrapper_text w @ word_text [gs]"
  by (simp add: hard_put_def put_glyph_text push_row_text)

lemma fold_text:
  "(\<And>gs w. wrapper_text (f gs w) = wrapper_text w @ word_text [gs]) \<Longrightarrow>
   wrapper_text (fold f word w) = wrapper_text w @ word_text word"
  by (induction word arbitrary: w) simp_all

lemma add_word_text: "wrapper_text (add_word gut limit word w) = wrapper_text w @ word_text word"
  by (simp add: add_word_def Let_def fold_text put_glyph_text hard_put_text push_row_text visible_def is_blank_def)

lemma wrap_glyph_list_text:
  "wrapper_text (wrap_glyph_list gut limit word gs w) = wrapper_text w @ word_text (word @ gs)"
  by (induction gut limit word gs w rule: wrap_glyph_list.induct)
    (auto simp: push_row_text flush_word_def add_word_text visible_def is_blank_def)

lemma wrap_glyph_list_ends: "ln_spans (wr_row (wrap_glyph_list gut limit word gs w)) = []"
  by (induction gut limit word gs w rule: wrap_glyph_list.induct) (simp_all add: push_row_def)

lemma glyphs_of_concat: "concat (glyphs_of s) = s"
  by (induction s rule: glyphs_of.induct) simp_all

lemma styled_glyphs_text: "word_text (styled_glyphs spans) = filter visible (styled_text \<lparr>ln_spans = spans, ln_gutter = g\<rparr>)"
proof (induction spans)
  case (Cons s spans)
  have "word_text (map (\<lambda>g. (g, s)) (glyphs_of (sp_text s))) = filter visible (map (\<lambda>c. (c, s\<lparr>sp_text := []\<rparr>)) (sp_text s))"
    by (simp add: word_text_def comp_def glyphs_of_concat map_concat[symmetric])
  with Cons show ?case by (simp add: styled_glyphs_def styled_text_def)
qed (simp add: styled_glyphs_def styled_text_def)

text \<open>C34: wrapping loses, repeats, reorders and restyles nothing that can be seen: the visible bytes of
  the rows, each with its style, are those of the line.\<close>

theorem wrap_line_keeps_text:
  "filter visible (concat (map styled_text (wrap_line line limit))) = filter visible (styled_text line)"
proof -
  define w where "w = wrap_glyph_list (ln_gutter line) (safe_limit limit) [] (styled_glyphs (ln_spans line))
        \<lparr>wr_rows = [], wr_row = empty_row (ln_gutter line), wr_width = 0\<rparr>"
  have "wrapper_text w = filter visible (styled_text line)"
    using styled_glyphs_text[of "ln_spans line" "ln_gutter line"]
    unfolding w_def wrap_glyph_list_text by (simp add: wrapper_text_def) (simp add: styled_text_def)
  moreover have "ln_spans (wr_row w) = []" by (simp add: w_def wrap_glyph_list_ends)
  ultimately have "filter visible (concat (map styled_text (wr_rows w))) = filter visible (styled_text line)"
    by (simp add: wrapper_text_def styled_text_def)
  then show ?thesis
    by (auto simp: wrap_line_def w_def[symmetric] Let_def text_line_def md_plain_line_def line_of_def mk_span_def styled_text_def)
qed


section \<open>Words\<close>

text \<open>The words of a line: the longest runs of glyphs without a space or tab.\<close>

fun words_of :: "(string \<times> md_span) list \<Rightarrow> (string \<times> md_span) list \<Rightarrow> (string \<times> md_span) list list" where
  "words_of word [] = (if word = [] then [] else [word])"
| "words_of word (gs # rest) =
     (if fst gs = '' '' \<or> fst gs = [tab] then (if word = [] then [] else [word]) @ words_of [] rest
      else words_of (word @ [gs]) rest)"

definition line_words :: "md_line \<Rightarrow> (string \<times> md_span) list list" where
  "line_words l = words_of [] (styled_glyphs (ln_spans l))"

definition plain_word :: "(string \<times> md_span) list \<Rightarrow> string" where
  "plain_word word = concat (map fst word)"

definition row_texts :: "wrapper \<Rightarrow> string list" where
  "row_texts w = map text_of_row (wr_rows w @ (if wr_width w = 0 then [] else [wr_row w]))"

definition filling :: "wrapper \<Rightarrow> bool" where
  "filling w \<longleftrightarrow> (ln_spans (wr_row w) = [] \<longleftrightarrow> wr_width w = 0)"

lemma row_text_Nil: "ln_spans r = [] \<Longrightarrow> text_of_row r = []"
  by (simp add: text_of_row_def)

lemma join_snoc: "join_with sep (xs @ [y]) = (if xs = [] then y else join_with sep xs @ sep @ y)"
  by (induction xs) (auto simp: join_with_Cons)

lemma join_append:
  "xs \<noteq> [] \<Longrightarrow> join_with sep (xs @ zs) = join_with sep xs @ (if zs = [] then [] else sep @ join_with sep zs)"
  by (induction xs) (auto simp: join_with_Cons)

lemma join_same_front:
  "join_with sep xs = join_with sep ys \<Longrightarrow> xs \<noteq> [] \<Longrightarrow> ys \<noteq> [] \<Longrightarrow>
   join_with sep (xs @ zs) = join_with sep (ys @ zs)"
  by (simp add: join_append)

lemma join_two: "join_with sep (xs @ [y, z]) = join_with sep (xs @ [y @ sep @ z])"
  using join_snoc[of sep "xs @ [y]" z] by (simp add: join_snoc)

lemma put_word_rows:
  "wr_rows (fold put_glyph word w) = wr_rows w"
  "text_of_row (wr_row (fold put_glyph word w)) = text_of_row (wr_row w) @ plain_word word"
  "wr_width (fold put_glyph word w) = wr_width w + word_cells word"
  "word \<noteq> [] \<Longrightarrow> ln_spans (wr_row (fold put_glyph word w)) \<noteq> []"
  by (induction word arbitrary: w) (simp_all add: row_text_append plain_word_def, metis append_glyph_keeps(1) fold_simps(1) put_glyph_simps(2))

lemma word_cells_pos: "word \<noteq> [] \<Longrightarrow> 0 < word_cells word"
  using glyph_cells_range(1) by (cases word) auto

lemma add_word_rows:
  assumes "filling w" "word \<noteq> []" "word_cells word \<le> limit"
  shows "filling (add_word gut limit word w) \<and> row_texts (add_word gut limit word w) \<noteq> [] \<and>
    join_with '' '' (row_texts (add_word gut limit word w)) = join_with '' '' (row_texts w @ [plain_word word])"
proof (cases "0 < wr_width w \<and> wr_width w + 1 + word_cells word \<le> limit")
  case True
  with assms show ?thesis
    using word_cells_pos[OF assms(2)]
    by (simp add: add_word_def filling_def row_texts_def put_word_rows row_text_append join_two)
next
  case False
  define w1 where "w1 = (if 0 < wr_width w then push_row gut w else w)"
  have w1: "map text_of_row (wr_rows w1) = row_texts w" "wr_width w1 = 0" "text_of_row (wr_row w1) = []"
    using assms(1) by (auto simp: w1_def push_row_def filling_def row_texts_def row_text_Nil)
  have "add_word gut limit word w = fold put_glyph word w1"
    using False assms(3) by (auto simp: add_word_def w1_def)
  with w1 show ?thesis
    using word_cells_pos[OF assms(2)] assms(2) by (simp add: filling_def row_texts_def put_word_rows)
qed

lemma push_row_rows: "filling w \<Longrightarrow> map text_of_row (wr_rows (push_row gut w)) = row_texts w"
  by (auto simp: push_row_def filling_def row_texts_def)

lemma wrap_glyph_list_rows:
  "filling w \<Longrightarrow> list_all (\<lambda>x. word_cells x \<le> limit) (words_of word gs) \<Longrightarrow>
   join_with '' '' (map text_of_row (wr_rows (wrap_glyph_list gut limit word gs w))) =
   join_with '' '' (row_texts w @ map plain_word (words_of word gs))"
proof (induction word gs arbitrary: w rule: words_of.induct)
  case (1 word)
  then show ?case
    using add_word_rows[of w word limit gut] by (auto simp: flush_word_def push_row_rows)
next
  case (2 word g rest)
  show ?case
  proof (cases "fst g = '' '' \<or> fst g = [tab]")
    case blank: True
    show ?thesis
    proof (cases "word = []")
      case True
      with blank 2 show ?thesis by (simp add: flush_word_def)
    next
      case False
      let ?w = "add_word gut limit word w"
      have a: "filling ?w" "row_texts ?w \<noteq> []" "join_with '' '' (row_texts ?w) = join_with '' '' (row_texts w @ [plain_word word])"
        using add_word_rows[of w word limit gut] False 2(3,4) blank by simp_all
      have "list_all (\<lambda>x. word_cells x \<le> limit) (words_of [] rest)" using 2(4) blank False by simp
      then have "join_with '' '' (map text_of_row (wr_rows (wrap_glyph_list gut limit [] rest ?w))) =
          join_with '' '' (row_texts ?w @ map plain_word (words_of [] rest))"
        using 2(1)[OF blank a(1)] by simp
      also have "\<dots> = join_with '' '' ((row_texts w @ [plain_word word]) @ map plain_word (words_of [] rest))"
        using a(3,2) by (rule join_same_front) simp
      finally show ?thesis using blank False by (simp add: flush_word_def)
    qed
  next
    case False
    with 2 show ?thesis by simp
  qed
qed


text \<open>wrapping breaks a line between words only: when every word fits a row, the rows joined by
  single spaces are the words of the line joined by single spaces.\<close>

theorem wrap_line_breaks_between_words:
  assumes "list_all (\<lambda>w. word_cells w \<le> safe_limit limit) (line_words line)"
  shows "join_with '' '' (map text_of_row (wrap_line line limit)) = join_with '' '' (map plain_word (line_words line))"
proof -
  define w where "w = wrap_glyph_list (ln_gutter line) (safe_limit limit) [] (styled_glyphs (ln_spans line))
        \<lparr>wr_rows = [], wr_row = empty_row (ln_gutter line), wr_width = 0\<rparr>"
  have "join_with '' '' (map text_of_row (wr_rows w)) = join_with '' '' (map plain_word (line_words line))"
    using wrap_glyph_list_rows[of "\<lparr>wr_rows = [], wr_row = empty_row (ln_gutter line), wr_width = 0\<rparr>" "safe_limit limit" "[]"] assms
    by (simp add: w_def line_words_def filling_def row_texts_def)
  then show ?thesis
    by (auto simp: wrap_line_def w_def[symmetric] Let_def text_line_def md_plain_line_def line_of_def mk_span_def text_of_row_def)
qed

theorem wrap_line_breaks_between_words_witness:
  "join_with '' '' (map text_of_row (wrap_line (text_line ''  to be   or not'') 8)) = ''to be or not''"
proof -
  have "list_all (\<lambda>w. word_cells w \<le> safe_limit 8) (line_words (text_line ''  to be   or not''))" by code_simp
  from wrap_line_breaks_between_words[OF this] show ?thesis by (rule trans) code_simp
qed

text \<open>What the layout does to text whose spacing matters: indentation and runs of spaces are lost, as in
  the lines of a code block or the columns of a table; a newline inside a line is no row break; and the
  row of an empty quoted line has no gutter, though blank rows are to carry it.\<close>

lemma wrapping_collapses_spaces: "map text_of_row (wrap_line (text_line ''    if x:  y'') 40) = [''if x: y'']"
  by code_simp

lemma newline_is_no_break: "map text_of_row (wrap_line (text_line (''one'' @ NL @ ''two'')) 40) = [''one'' @ NL @ ''two'']"
  by code_simp

lemma blank_row_has_no_gutter:
  "map ln_gutter (wrap_line \<lparr>ln_spans = [mk_span '' '' ColDefault False False False], ln_gutter = True\<rparr> 40) = [False]"
  by code_simp

end
