(* ===== verification/Tui_Transcript.thy ===== *)
theory Tui_Transcript
  imports Tui_Wrap
begin

text \<open>
  The transcript of the terminal interface (\<open>struct Tui::Impl\<close> of \<open>src/tui/tui.cpp\<close>): the logical lines,
  the live region that streamed text is rendered into, the line of the pending tool call, the physical
  rows cached for drawing and the viewport. Each operation holds the mutex while it runs, so threads
  interleave them as steps; waking the screen changes nothing here. An index that is \<open>kNone\<close> or a view
  row that is the largest \<open>size_t\<close> is \<open>None\<close>.
\<close>

section \<open>State\<close>

record transcript =
  tx_lines :: "md_line list"
  tx_live_index :: "nat option"
  tx_live_count :: nat
  tx_live_text :: string
  tx_pending :: bool
  tx_tool_index :: "nat option"
  tx_follow :: bool
  tx_view :: "nat option"
  tx_physical :: "md_line list"
  tx_width :: int
  tx_box :: box

definition new_transcript :: "box \<Rightarrow> transcript" where
  "new_transcript b =
     \<lparr>tx_lines = [], tx_live_index = None, tx_live_count = 0, tx_live_text = [], tx_pending = False,
      tx_tool_index = None, tx_follow = True, tx_view = Some 0, tx_physical = [], tx_width = -1, tx_box = b\<rparr>"

definition coloured :: "string \<Rightarrow> md_color \<Rightarrow> md_line" where
  "coloured t c = md_plain_line t c False False"

text \<open>The glyphs the lines start with.\<close>

definition call_mark :: string where "call_mark = [CHR 0xE2, CHR 0x96, CHR 0xB8] @ '' ''"
definition dot_mark :: string where "dot_mark = '' '' @ [CHR 0xC2, CHR 0xB7] @ '' ''"
definition return_mark :: string where "return_mark = [CHR 0xE2, CHR 0x86, CHR 0xA9] @ '' ''"
definition cross_mark :: string where "cross_mark = [CHR 0xE2, CHR 0x9C, CHR 0x96] @ '' ''"

section \<open>Geometry\<close>

definition transcript_width :: "transcript \<Rightarrow> int" where
  "transcript_width t =
     (let b = tx_box t; w = (if x_min b < x_max b then x_max b - x_min b + 1 else 100) in max 1 w)"

definition page_height :: "transcript \<Rightarrow> nat" where
  "page_height t = (let h = y_max (tx_box t) - y_min (tx_box t) + 1 in if 1 < h then nat h else 15)"

definition wrap_all :: "int \<Rightarrow> md_line list \<Rightarrow> md_line list" where
  "wrap_all width ls =
     concat (map (\<lambda>l. wrap_line l (if ln_gutter l then max 1 (width - 2) else width)) ls)"

definition rebuild_physical_lines :: "int \<Rightarrow> transcript \<Rightarrow> transcript" where
  "rebuild_physical_lines width t =
     (let w = (if width \<le> 0 then 100 else width) in t\<lparr>tx_physical := wrap_all w (tx_lines t), tx_width := w\<rparr>)"

definition ensure_physical_lines :: "int \<Rightarrow> transcript \<Rightarrow> transcript" where
  "ensure_physical_lines width t = (if tx_width t \<noteq> width then rebuild_physical_lines width t else t)"

definition max_view_row :: "transcript \<Rightarrow> nat" where
  "max_view_row t =
     (let height = max 1 (page_height t); n = length (tx_physical t) in if n \<le> height then 0 else n - height)"

section \<open>Adding lines\<close>

definition ensure_leading_gap :: "transcript \<Rightarrow> transcript" where
  "ensure_leading_gap t =
     (if tx_lines t = [] \<or> \<not> line_is_blank (last (tx_lines t))
      then t\<lparr>tx_lines := tx_lines t @ [text_line []]\<rparr> else t)"

definition mark_dirty :: "transcript \<Rightarrow> transcript" where
  "mark_dirty t = t\<lparr>tx_width := -1, tx_view := (if tx_follow t then None else tx_view t)\<rparr>"

definition add_lines :: "md_line list \<Rightarrow> transcript \<Rightarrow> transcript" where
  "add_lines ls t = t\<lparr>tx_lines := tx_lines t @ ls\<rparr>"

definition append_block :: "md_line list \<Rightarrow> transcript \<Rightarrow> transcript" where
  "append_block block t =
     (let b = trim_blank_edges block in
      if b = [] then t else mark_dirty (add_lines (b @ [text_line []]) (ensure_leading_gap t)))"

definition append_one :: "md_line \<Rightarrow> transcript \<Rightarrow> transcript" where
  "append_one l t = append_block [l] t"

definition set_live_lines :: "md_line list \<Rightarrow> transcript \<Rightarrow> transcript" where
  "set_live_lines rendered t =
     (let r = trim_blank_edges rendered in
      if r = [] then t
      else (let block = r @ [text_line []] in
        mark_dirty
          (case tx_live_index t of
             None \<Rightarrow> (let t1 = ensure_leading_gap t in
               (add_lines block t1)\<lparr>tx_live_index := Some (length (tx_lines t1)), tx_live_count := length block\<rparr>)
           | Some i \<Rightarrow> (let stop = min (i + tx_live_count t) (length (tx_lines t)) in
               t\<lparr>tx_lines := take i (tx_lines t) @ block @ drop stop (tx_lines t),
                 tx_live_count := length block\<rparr>))))"

definition flush_live_text :: "transcript \<Rightarrow> transcript" where
  "flush_live_text t = mark_dirty (t\<lparr>tx_live_text := [], tx_live_index := None, tx_live_count := 0\<rparr>)"

definition swarm_live :: "string \<Rightarrow> transcript \<Rightarrow> transcript" where
  "swarm_live s t =
     mark_dirty (add_lines [coloured s ColMagenta, text_line []] (ensure_leading_gap (flush_live_text t)))"

section \<open>The callbacks of a turn\<close>

definition call_text :: "string \<Rightarrow> json \<Rightarrow> string" where
  "call_text name args =
     (let arg = tui_tool_argument args in
      call_mark @ name @ (if arg \<noteq> [] then '' ['' @ arg @ '']'' else []))"

definition on_tool_call :: "string \<Rightarrow> json \<Rightarrow> transcript \<Rightarrow> transcript" where
  "on_tool_call name args t =
     (let t1 = add_lines [md_plain_line (call_text name args) ColYellow True False] (flush_live_text t) in
      mark_dirty (t1\<lparr>tx_tool_index := Some (length (tx_lines t1) - 1), tx_pending := True\<rparr>))"

definition result_span :: "string \<Rightarrow> bool \<Rightarrow> md_span" where
  "result_span preview is_error =
     mk_span (dot_mark @ preview) (if is_error then ColRedLight else ColGrayLight) False (\<not> is_error) False"

definition add_span :: "md_span \<Rightarrow> md_line \<Rightarrow> md_line" where
  "add_span s l = l\<lparr>ln_spans := ln_spans l @ [s]\<rparr>"

definition on_tool_result :: "string \<Rightarrow> bool \<Rightarrow> transcript \<Rightarrow> transcript" where
  "on_tool_result preview is_error t =
     (case (tx_pending t, tx_tool_index t) of
        (True, Some i) \<Rightarrow>
          (if i < length (tx_lines t) then
             mark_dirty (t\<lparr>tx_lines := (tx_lines t)[i := add_span (result_span preview is_error) (tx_lines t ! i)],
               tx_pending := False, tx_tool_index := None\<rparr>)
           else mark_dirty (add_lines [coloured (return_mark @ preview) (if is_error then ColRedLight else ColGreen)]
             (ensure_leading_gap t)))
      | _ \<Rightarrow> mark_dirty (add_lines [coloured (return_mark @ preview) (if is_error then ColRedLight else ColGreen)]
             (ensure_leading_gap t)))"

fun tui_call :: "sink_call \<Rightarrow> transcript \<Rightarrow> transcript" where
  "tui_call (SinkHeader provider model) t =
     append_one (coloured (provider @ dot_mark @ model) ColGrayLight) (flush_live_text t)"
| "tui_call (SinkTextDelta s) t =
     (let t1 = t\<lparr>tx_live_text := tx_live_text t @ s\<rparr> in set_live_lines (render_markdown (tx_live_text t1)) t1)"
| "tui_call (SinkToolStart name) t = t"
| "tui_call (SinkToolCall name args) t = on_tool_call name args t"
| "tui_call (SinkToolResult preview is_error) t = on_tool_result preview is_error t"
| "tui_call (SinkSummary model pt ct) t = t"
| "tui_call (SinkWarning s) t = append_one (coloured (cross_mark @ s) ColRedLight) (flush_live_text t)"

text \<open>\<open>/clear\<close>, without the line that reports it.\<close>

definition clear_transcript :: "transcript \<Rightarrow> transcript" where
  "clear_transcript t =
     t\<lparr>tx_lines := [], tx_live_text := [], tx_live_index := None, tx_live_count := 0,
       tx_physical := [], tx_width := -1, tx_follow := True, tx_view := Some 0\<rparr>"

section \<open>Drawing and scrolling\<close>

text \<open>The state after layout, and the rows that are drawn.\<close>

definition draw_transcript :: "transcript \<Rightarrow> transcript \<times> md_line list" where
  "draw_transcript t =
     (let height = page_height t;
          t1 = ensure_physical_lines (transcript_width t) t;
          count = length (tx_physical t1);
          max_first = (if height < count then count - height else 0);
          first = (case tx_view t1 of
              None \<Rightarrow> max_first
            | Some v \<Rightarrow> if tx_follow t1 then max_first else if max_first < v then max_first else v);
          stop = min count (first + height)
      in (t1\<lparr>tx_view := Some first\<rparr>, take (stop - first) (drop first (tx_physical t1))))"

datatype scroll_key = PageUp | PageDown | WheelUp | WheelDown | OtherKey

definition scroll_amount :: "transcript \<Rightarrow> scroll_key \<Rightarrow> int" where
  "scroll_amount t k =
     (case k of
        PageUp \<Rightarrow> - int (max 1 (page_height t))
      | PageDown \<Rightarrow> int (max 1 (page_height t))
      | WheelUp \<Rightarrow> -3
      | WheelDown \<Rightarrow> 3
      | OtherKey \<Rightarrow> 0)"

definition scroll_event :: "scroll_key \<Rightarrow> transcript \<Rightarrow> bool \<times> transcript" where
  "scroll_event k t =
     (let step = scroll_amount t k in
      if step = 0 then (False, t)
      else (let t1 = ensure_physical_lines (transcript_width t) t; max_first = max_view_row t1 in
        if tx_physical t1 = [] then (False, t1)
        else if step < 0 then
          (let v = (case tx_view t1 of None \<Rightarrow> max_first | Some v \<Rightarrow> if tx_follow t1 then max_first else v);
               amount = nat (- step) in
           (True, t1\<lparr>tx_view := Some (if amount < v then v - amount else 0), tx_follow := False\<rparr>))
        else if tx_follow t1 then (False, t1)
        else (let v = the (tx_view t1); amount = nat step in
          if max_first \<le> v + amount then (True, t1\<lparr>tx_view := Some max_first, tx_follow := True\<rparr>)
          else (True, t1\<lparr>tx_view := Some (v + amount)\<rparr>))))"


section \<open>Steps\<close>

text \<open>What the threads of the interface do to the transcript, one step per critical section.\<close>

datatype tui_event =
    TuiSink sink_call
  | TuiBlock "md_line list"
  | TuiSwarm string
  | TuiFlush
  | TuiClear
  | TuiDraw
  | TuiScroll scroll_key
  | TuiBox box

fun tui_step :: "tui_event \<Rightarrow> transcript \<Rightarrow> transcript" where
  "tui_step (TuiSink c) t = tui_call c t"
| "tui_step (TuiBlock ls) t = append_block ls t"
| "tui_step (TuiSwarm s) t = swarm_live s t"
| "tui_step TuiFlush t = flush_live_text t"
| "tui_step TuiClear t = clear_transcript t"
| "tui_step TuiDraw t = fst (draw_transcript t)"
| "tui_step (TuiScroll k) t = snd (scroll_event k t)"
| "tui_step (TuiBox b) t = t\<lparr>tx_box := b\<rparr>"

definition tui_run :: "tui_event list \<Rightarrow> transcript \<Rightarrow> transcript" where
  "tui_run es t = fold tui_step es t"

section \<open>The cached rows\<close>

definition cache_ok :: "transcript \<Rightarrow> bool" where
  "cache_ok t \<longleftrightarrow> (tx_width t = -1 \<or> tx_physical t = wrap_all (tx_width t) (tx_lines t)) \<and>
     (tx_view t \<noteq> None \<or> tx_follow t)"

lemma width_pos: "0 < transcript_width t"
  by (simp add: transcript_width_def Let_def)

lemma dirty_cache: "tx_view t \<noteq> None \<or> tx_follow t \<Longrightarrow> cache_ok (mark_dirty t)"
  by (auto simp: cache_ok_def mark_dirty_def)

named_theorems view_frame

lemma frame_simps [view_frame]:
  "tx_view (ensure_leading_gap t) = tx_view t" "tx_follow (ensure_leading_gap t) = tx_follow t"
  "tx_view (add_lines ls t) = tx_view t" "tx_follow (add_lines ls t) = tx_follow t"
  "tx_follow (mark_dirty t) = tx_follow t" "tx_view (mark_dirty t) = (if tx_follow t then None else tx_view t)"
  by (simp_all add: ensure_leading_gap_def add_lines_def mark_dirty_def)

lemma append_block_cache: "cache_ok t \<Longrightarrow> cache_ok (append_block ls t)"
  by (simp add: append_block_def Let_def dirty_cache view_frame cache_ok_def[of t])

lemma flush_cache: "cache_ok t \<Longrightarrow> cache_ok (flush_live_text t)"
  by (simp add: flush_live_text_def dirty_cache cache_ok_def[of t])

lemma view_ok: "cache_ok t \<Longrightarrow> tx_view t \<noteq> None \<or> tx_follow t"
  by (simp add: cache_ok_def)

lemma live_cache:
  assumes "tx_view t \<noteq> None \<or> tx_follow t" "trim_blank_edges ls \<noteq> [] \<or> cache_ok t"
  shows "cache_ok (set_live_lines ls t)"
  using assms by (auto simp: set_live_lines_def Let_def view_frame intro!: dirty_cache split: option.splits)

lemma tui_call_cache: "cache_ok t \<Longrightarrow> cache_ok (tui_call c t)"
proof (cases c)
  case (SinkTextDelta s)
  moreover assume "cache_ok t"
  ultimately have ok: "cache_ok (t\<lparr>tx_live_text := tx_live_text t @ s\<rparr>)" by (simp add: cache_ok_def)
  show ?thesis using SinkTextDelta live_cache[OF view_ok[OF ok] disjI2[OF ok]] by (simp add: Let_def)
next
  case (SinkToolCall name args)
  moreover assume "cache_ok t"
  ultimately show ?thesis
    using view_ok[OF flush_cache[of t]] by (auto simp: on_tool_call_def Let_def view_frame intro!: dirty_cache)
next
  case (SinkToolResult p e)
  moreover assume "cache_ok t"
  ultimately show ?thesis
    using view_ok[of t]
    by (auto simp: on_tool_result_def view_frame intro!: dirty_cache split: bool.splits option.splits)
qed (simp_all add: append_one_def append_block_cache flush_cache)

lemma ensure_cache: "cache_ok t \<Longrightarrow> cache_ok (ensure_physical_lines (transcript_width t) t)"
    "cache_ok t \<Longrightarrow> tx_physical (ensure_physical_lines (transcript_width t) t) = wrap_all (transcript_width t) (tx_lines t)"
    "tx_lines (ensure_physical_lines w t) = tx_lines t" "tx_follow (ensure_physical_lines w t) = tx_follow t"
    "tx_view (ensure_physical_lines w t) = tx_view t" "tx_box (ensure_physical_lines w t) = tx_box t"
  using width_pos[of t]
  by (auto simp: ensure_physical_lines_def rebuild_physical_lines_def cache_ok_def Let_def)

lemma tui_step_cache: "cache_ok t \<Longrightarrow> cache_ok (tui_step e t)"
proof (cases e)
  case (TuiScroll k)
  moreover assume ok: "cache_ok t"
  ultimately show ?thesis
    using ensure_cache(1)[OF ok] view_ok[OF ok]
    by (auto simp: scroll_event_def Let_def cache_ok_def)
next
  case TuiDraw
  moreover assume ok: "cache_ok t"
  ultimately show ?thesis
    using ensure_cache(1)[OF ok] by (simp add: draw_transcript_def Let_def cache_ok_def)
next
  case (TuiSwarm s)
  moreover assume ok: "cache_ok t"
  ultimately show ?thesis
    using view_ok[OF flush_cache[OF ok]] by (auto simp: swarm_live_def view_frame intro!: dirty_cache)
next
  case (TuiBox b)
  moreover assume ok: "cache_ok t"
  ultimately show ?thesis by (simp add: cache_ok_def)
qed (auto simp: tui_call_cache append_block_cache flush_cache, simp add: cache_ok_def clear_transcript_def)

lemma tui_run_cache: "cache_ok t \<Longrightarrow> cache_ok (tui_run es t)"
  unfolding tui_run_def by (induction es arbitrary: t) (simp_all add: tui_step_cache)

lemma new_cache: "cache_ok (new_transcript b)"
  by (simp add: cache_ok_def new_transcript_def)

lemma page_height_pos: "0 < page_height t"
  by (simp add: page_height_def Let_def)

lemma draw_window:
  assumes "cache_ok t"
  shows "\<exists>first. first \<le> length (wrap_all (transcript_width t) (tx_lines t)) - page_height t \<and>
    snd (draw_transcript t) = take (page_height t) (drop first (wrap_all (transcript_width t) (tx_lines t))) \<and>
    (tx_follow t \<longrightarrow> first = length (wrap_all (transcript_width t) (tx_lines t)) - page_height t)"
proof -
  define rows where "rows = wrap_all (transcript_width t) (tx_lines t)"
  define first where "first = (case tx_view t of None \<Rightarrow> length rows - page_height t
      | Some v \<Rightarrow> if tx_follow t \<or> length rows - page_height t < v then length rows - page_height t else v)"
  have "snd (draw_transcript t) = take (page_height t) (drop first rows)"
    using ensure_cache(2)[OF assms]
    by (auto simp: draw_transcript_def Let_def rows_def[symmetric] ensure_cache first_def min_def split: option.splits)
  moreover have "first \<le> length rows - page_height t" "tx_follow t \<longrightarrow> first = length rows - page_height t"
    by (auto simp: first_def split: option.splits)
  ultimately show ?thesis unfolding rows_def by blast
qed

text \<open>whatever happened before, drawing shows a window of the wrapped current lines, of the height of
  the page and within the text; while the view follows the bottom, it is the last one.\<close>

theorem drawing_shows_current_lines:
  "let t = tui_run es (new_transcript b); rows = wrap_all (transcript_width t) (tx_lines t) in
   \<exists>first. first \<le> length rows - page_height t \<and>
     snd (draw_transcript t) = take (page_height t) (drop first rows) \<and>
     (tx_follow t \<longrightarrow> first = length rows - page_height t)"
  using draw_window[OF tui_run_cache[OF new_cache]] by (simp add: Let_def)


section \<open>The live region\<close>

definition live_block :: "string \<Rightarrow> md_line list" where
  "live_block s = trim_blank_edges (render_markdown s)"






text \<open>\<open>t'\<close> differs from \<open>t\<close> in nothing but lines added behind the others and in the view.\<close>

definition grown :: "transcript \<Rightarrow> transcript \<Rightarrow> bool" where
  "grown t t' \<longleftrightarrow> (\<exists>ls. tx_lines t' = tx_lines t @ ls) \<and> tx_live_index t' = tx_live_index t \<and>
     tx_live_count t' = tx_live_count t \<and> tx_live_text t' = tx_live_text t \<and>
     tx_pending t' = tx_pending t \<and> tx_tool_index t' = tx_tool_index t"

lemma grown_trans: "grown t u \<Longrightarrow> grown u v \<Longrightarrow> grown t v"
  by (auto simp: grown_def)

lemma grown_refl: "grown t t"
  by (simp add: grown_def)

lemma grown_ops: "grown t (ensure_leading_gap t)" "grown t (add_lines ls t)" "grown t (mark_dirty t)"
  by (simp_all add: grown_def ensure_leading_gap_def add_lines_def mark_dirty_def)

lemma grown_append: "grown t (append_block ls t)"
proof -
  have "grown t (mark_dirty (add_lines xs (ensure_leading_gap t)))" for xs
    using grown_trans[OF grown_trans[OF grown_ops(1) grown_ops(2)] grown_ops(3)] .
  then show ?thesis by (simp add: append_block_def Let_def grown_refl)
qed

lemma grown_draw: "grown t (fst (draw_transcript t))"
  by (simp add: draw_transcript_def Let_def grown_def ensure_physical_lines_def rebuild_physical_lines_def)

lemma grown_scroll: "grown t (snd (scroll_event k t))"
  by (simp add: scroll_event_def Let_def grown_def ensure_physical_lines_def rebuild_physical_lines_def)











section \<open>Streaming\<close>

lemma gap_text: "tx_live_text (ensure_leading_gap t) = tx_live_text t"
  by (simp add: ensure_leading_gap_def)

lemma streaming_block:
  assumes "tx_live_index t = None" "tx_live_text t = []"
  shows "let u = tui_run (map (\<lambda>d. TuiSink (SinkTextDelta d)) ds) t; l1 = tx_lines (ensure_leading_gap t) in
    tx_live_text u = concat ds \<and>
    (tx_live_index u = None \<and> tx_lines u = tx_lines t \<and> live_block (concat ds) = [] \<or>
     (\<exists>block. tx_live_index u = Some (length l1) \<and> tx_live_count u = length block \<and> tx_lines u = l1 @ block \<and>
        (live_block (concat ds) \<noteq> [] \<longrightarrow> block = live_block (concat ds) @ [text_line []])))"
proof (induction ds rule: rev_induct)
  case Nil
  have "live_block [] = []" by code_simp
  with assms show ?case by (simp add: tui_run_def)
next
  case (snoc d ds)
  define u where "u = tui_run (map (\<lambda>d. TuiSink (SinkTextDelta d)) ds) t"
  define l1 where "l1 = tx_lines (ensure_leading_gap t)"
  have step: "tui_run (map (\<lambda>d. TuiSink (SinkTextDelta d)) (ds @ [d])) t = tui_call (SinkTextDelta d) u"
    by (simp add: tui_run_def u_def)
  have streamed: "tx_live_text u = concat ds" using snoc by (simp add: u_def Let_def)
  have gap: "\<And>v. tx_lines u = tx_lines t \<Longrightarrow> tx_lines v = tx_lines u \<Longrightarrow> tx_lines (ensure_leading_gap v) = l1"
    by (simp add: l1_def ensure_leading_gap_def)
  from snoc have "tx_live_index u = None \<and> tx_lines u = tx_lines t \<and> live_block (concat ds) = [] \<or>
     (\<exists>block. tx_live_index u = Some (length l1) \<and> tx_live_count u = length block \<and> tx_lines u = l1 @ block \<and>
        (live_block (concat ds) \<noteq> [] \<longrightarrow> block = live_block (concat ds) @ [text_line []]))"
    by (simp add: u_def l1_def Let_def)
  then show ?case
  proof
    assume a: "tx_live_index u = None \<and> tx_lines u = tx_lines t \<and> live_block (concat ds) = []"
    then show ?thesis
      unfolding step Let_def l1_def[symmetric] using streamed gap[of "u\<lparr>tx_live_text := concat ds @ d\<rparr>"]
      by (auto simp: set_live_lines_def live_block_def Let_def mark_dirty_def add_lines_def gap_text)
  next
    assume "\<exists>block. tx_live_index u = Some (length l1) \<and> tx_live_count u = length block \<and> tx_lines u = l1 @ block \<and>
        (live_block (concat ds) \<noteq> [] \<longrightarrow> block = live_block (concat ds) @ [text_line []])"
    then show ?thesis
      unfolding step Let_def l1_def[symmetric] using streamed
      by (auto simp: set_live_lines_def live_block_def Let_def mark_dirty_def)
  qed
qed

text \<open>streaming is incremental rendering: however the text is cut into deltas, the transcript ends up
  with the lines that appending the rendering of the whole text as one block gives.\<close>

theorem streaming_equals_block:
  assumes "tx_live_index t = None" "tx_live_text t = []" "live_block (concat ds) \<noteq> []"
  shows "tx_lines (tui_run (map (\<lambda>d. TuiSink (SinkTextDelta d)) ds) t) =
    tx_lines (append_block (render_markdown (concat ds)) t)"
proof -
  have "tx_lines (append_block (render_markdown (concat ds)) t) =
      tx_lines (ensure_leading_gap t) @ live_block (concat ds) @ [text_line []]"
    using assms(3) by (simp add: append_block_def Let_def live_block_def[symmetric] mark_dirty_def add_lines_def)
  then show ?thesis using streaming_block[OF assms(1,2), of ds] assms(3) by (auto simp: Let_def)
qed


section \<open>Tool lines\<close>

text \<open>Steps between a call and its result: no other call or result, and no clearing.\<close>

definition bystander :: "tui_event \<Rightarrow> bool" where
  "bystander e = (case e of TuiSink (SinkToolCall n a) \<Rightarrow> False | TuiSink (SinkToolResult p x) \<Rightarrow> False
     | TuiClear \<Rightarrow> False | _ \<Rightarrow> True)"

definition call_line :: "string \<Rightarrow> json \<Rightarrow> md_line" where
  "call_line name args = md_plain_line (call_text name args) ColYellow True False"

text \<open>The call's line ends the first \<open>lines\<close>, which no live region touches.\<close>

definition call_open :: "md_line list \<Rightarrow> transcript \<Rightarrow> bool" where
  "call_open ls t \<longleftrightarrow> ls \<noteq> [] \<and> prefix ls (tx_lines t) \<and> tx_pending t \<and> tx_tool_index t = Some (length ls - 1) \<and>
     (\<forall>i. tx_live_index t = Some i \<longrightarrow> length ls \<le> i \<and> i \<le> length (tx_lines t))"

lemma grown_call_open: "grown t t' \<Longrightarrow> call_open ls t \<Longrightarrow> call_open ls t'"
  by (fastforce simp: grown_def call_open_def prefix_def)

lemma flush_call_open: "call_open ls t \<Longrightarrow> call_open ls (flush_live_text t)"
  by (simp add: call_open_def flush_live_text_def mark_dirty_def)

lemma set_live_call_open:
  assumes "call_open ls t"
  shows "call_open ls (set_live_lines r (t\<lparr>tx_live_text := s\<rparr>))"
proof (cases "trim_blank_edges r = []")
  case True
  with assms show ?thesis by (simp add: set_live_lines_def call_open_def)
next
  case False
  from assms obtain rest where rest: "tx_lines t = ls @ rest" by (auto simp: call_open_def prefix_def)
  show ?thesis
  proof (cases "tx_live_index t")
    case None
    with False assms rest show ?thesis
      by (auto simp: set_live_lines_def call_open_def Let_def mark_dirty_def add_lines_def ensure_leading_gap_def)
  next
    case (Some i)
    with assms have i: "length ls \<le> i" "i \<le> length (tx_lines t)" by (auto simp: call_open_def)
    then have "take i (tx_lines t) = ls @ take (i - length ls) rest" by (simp add: rest)
    moreover have "i \<le> length (take i (tx_lines t) @ xs)" for xs using i by simp
    ultimately show ?thesis
      using False assms Some i
      by (simp add: set_live_lines_def call_open_def Let_def mark_dirty_def prefix_def del: length_append length_take)
  qed
qed

lemma step_call_open:
  assumes "call_open ls t" "bystander e"
  shows "call_open ls (tui_step e t)"
proof (cases e)
  case (TuiSink c)
  with assms grown_call_open[OF grown_append flush_call_open[OF assms(1)]] show ?thesis
    by (cases c) (simp_all add: append_one_def Let_def set_live_call_open bystander_def)
next
  case (TuiSwarm s)
  have "grown (flush_live_text t) (swarm_live s t)"
    unfolding swarm_live_def using grown_trans[OF grown_trans[OF grown_ops(1) grown_ops(2)] grown_ops(3)] .
  with TuiSwarm show ?thesis using grown_call_open[OF _ flush_call_open[OF assms(1)]] by simp
next
  case (TuiBox b)
  with assms show ?thesis by (simp add: call_open_def)
qed (use assms in \<open>simp_all add: bystander_def flush_call_open grown_call_open[OF grown_append assms(1)]
    grown_call_open[OF grown_draw assms(1)] grown_call_open[OF grown_scroll assms(1)]\<close>)

lemma run_call_open: "call_open ls t \<Longrightarrow> list_all bystander es \<Longrightarrow> call_open ls (tui_run es t)"
  unfolding tui_run_def by (induction es arbitrary: t) (simp_all add: step_call_open)

lemma tool_call_open: "call_open (tx_lines t @ [call_line name args]) (on_tool_call name args t)"
  by (simp add: on_tool_call_def call_open_def call_line_def Let_def mark_dirty_def add_lines_def flush_live_text_def)

text \<open>C36: the result of a tool call is put behind the call on the call's own line, whatever was streamed,
  announced, drawn or scrolled in between, and changes no other line.\<close>

theorem tool_result_joins_its_call:
  assumes "list_all bystander es"
  shows "\<exists>rest. tx_lines (tui_run es (on_tool_call name args t)) = tx_lines t @ call_line name args # rest \<and>
    tx_lines (on_tool_result preview e (tui_run es (on_tool_call name args t))) =
      tx_lines t @ add_span (result_span preview e) (call_line name args) # rest"
proof -
  let ?u = "tui_run es (on_tool_call name args t)"
  have c: "call_open (tx_lines t @ [call_line name args]) ?u" by (rule run_call_open[OF tool_call_open assms])
  then obtain rest where rest: "tx_lines ?u = tx_lines t @ call_line name args # rest"
    by (auto simp: call_open_def prefix_def)
  from c have "tx_lines (on_tool_result preview e ?u) =
      (tx_lines ?u)[length (tx_lines t) := add_span (result_span preview e) (tx_lines ?u ! length (tx_lines t))]"
    by (auto simp: call_open_def on_tool_result_def mark_dirty_def rest)
  with rest show ?thesis by simp
qed

section \<open>Paging\<close>

definition row_count :: "transcript \<Rightarrow> nat" where
  "row_count t = length (wrap_all (transcript_width t) (tx_lines t))"

text \<open>The view is held at row \<open>v\<close>, which following the bottom does at the last page.\<close>

definition views :: "transcript \<Rightarrow> nat \<Rightarrow> bool" where
  "views t v \<longleftrightarrow> cache_ok t \<and> v \<le> row_count t - page_height t \<and>
     (if tx_follow t then v = row_count t - page_height t else tx_view t = Some v)"

lemma views_draw:
  assumes "views t v"
  shows "snd (draw_transcript t) = take (page_height t) (drop v (wrap_all (transcript_width t) (tx_lines t)))"
proof (cases "tx_follow t")
  case True
  with assms show ?thesis using draw_window[of t] by (auto simp: views_def row_count_def)
next
  case False
  with assms show ?thesis
    by (auto simp: views_def draw_transcript_def Let_def ensure_cache row_count_def min_def)
qed

definition same_text :: "transcript \<Rightarrow> transcript \<Rightarrow> bool" where
  "same_text t t' \<longleftrightarrow> tx_lines t' = tx_lines t \<and> tx_box t' = tx_box t"

lemma scroll_same: "same_text t (snd (scroll_event k t))"
  by (simp add: scroll_event_def same_text_def Let_def ensure_physical_lines_def rebuild_physical_lines_def)

lemma ensure_same: "same_text t (ensure_physical_lines w t)"
  by (simp add: same_text_def ensure_cache)

lemma same_geometry: "same_text t t' \<Longrightarrow> row_count t' = row_count t" "same_text t t' \<Longrightarrow> page_height t' = page_height t"
    "same_text t t' \<Longrightarrow> transcript_width t' = transcript_width t"
  by (simp_all add: same_text_def row_count_def page_height_def transcript_width_def)

lemma max_view_row_count: "cache_ok t \<Longrightarrow>
    max_view_row (ensure_physical_lines (transcript_width t) t) = row_count t - page_height t"
  using page_height_pos[of t]
  by (auto simp: max_view_row_def Let_def row_count_def ensure_cache page_height_def)

lemma page_up:
  assumes "views t v"
  shows "views (snd (scroll_event PageUp t)) (v - page_height t)"
proof -
  have ok: "cache_ok t" using assms by (simp add: views_def)
  have ok': "cache_ok (snd (scroll_event PageUp t))" using tui_step_cache[OF ok, of "TuiScroll PageUp"] by simp
  show ?thesis
  proof (cases "wrap_all (transcript_width t) (tx_lines t) = []")
    case True
    then have "row_count t = 0" by (simp add: row_count_def)
    with assms have "v = 0" by (simp add: views_def)
    have "scroll_event PageUp t = (False, ensure_physical_lines (transcript_width t) t)"
      using page_height_pos[of t] True ensure_cache(2)[OF ok] by (simp add: scroll_event_def scroll_amount_def Let_def)
    with assms \<open>v = 0\<close> ok' same_geometry[OF ensure_same] show ?thesis
      by (simp add: views_def ensure_cache)
  next
    case False
    with page_height_pos[of t] ok have "snd (scroll_event PageUp t) =
        (ensure_physical_lines (transcript_width t) t)\<lparr>tx_view := Some (v - page_height t), tx_follow := False\<rparr>"
      using assms view_ok[OF ok]
      by (auto simp: scroll_event_def scroll_amount_def Let_def ensure_cache max_view_row_count views_def split: option.splits)
    moreover have "v - page_height t \<le> row_count t - page_height t"
      using assms by (auto simp: views_def intro: le_trans[OF diff_le_self])
    ultimately show ?thesis
      using ok' same_geometry[OF scroll_same[of t PageUp]] by (simp add: views_def)
  qed
qed

lemma page_down:
  assumes "views t v"
  shows "views (snd (scroll_event PageDown t)) (min (row_count t - page_height t) (v + page_height t))"
proof -
  have ok: "cache_ok t" using assms by (simp add: views_def)
  have ok': "cache_ok (snd (scroll_event PageDown t))" using tui_step_cache[OF ok, of "TuiScroll PageDown"] by simp
  show ?thesis
  proof (cases "wrap_all (transcript_width t) (tx_lines t) = [] \<or> tx_follow t")
    case True
    then have "row_count t = 0 \<or> tx_follow t" by (auto simp: row_count_def)
    with assms have v: "min (row_count t - page_height t) (v + page_height t) = v" by (auto simp: views_def)
    have "scroll_event PageDown t = (False, ensure_physical_lines (transcript_width t) t)"
      using page_height_pos[of t] True ensure_cache(2)[OF ok]
      by (auto simp: scroll_event_def scroll_amount_def Let_def ensure_cache)
    with assms v ok' same_geometry[OF ensure_same] show ?thesis
      by (simp add: views_def ensure_cache)
  next
    case False
    with assms have "tx_view t = Some v" by (simp add: views_def)
    with False page_height_pos[of t] ok have "snd (scroll_event PageDown t) =
        (let t1 = ensure_physical_lines (transcript_width t) t; m = row_count t - page_height t in
         if m \<le> v + page_height t then t1\<lparr>tx_view := Some m, tx_follow := True\<rparr>
         else t1\<lparr>tx_view := Some (v + page_height t)\<rparr>)"
      by (simp add: scroll_event_def scroll_amount_def Let_def ensure_cache max_view_row_count)
    with False assms ok' same_geometry[OF scroll_same[of t PageDown]] show ?thesis
      by (auto simp: views_def Let_def ensure_cache min_def)
  qed
qed


lemma pages_keep: "same_text t (tui_run (replicate n (TuiScroll k)) t)"
  unfolding tui_run_def
proof (induction n arbitrary: t)
  case (Suc n)
  then show ?case using scroll_same[of t k] by (simp add: same_text_def)
qed (simp add: same_text_def)

lemma pages_up: "views t v \<Longrightarrow> views (tui_run (replicate n (TuiScroll PageUp)) t) (v - n * page_height t)"
  unfolding tui_run_def
proof (induction n arbitrary: t v)
  case (Suc n)
  then show ?case
    using Suc.IH[OF page_up[OF Suc.prems]] same_geometry(2)[OF scroll_same[of t PageUp]] by (simp add: diff_diff_left)
qed simp

lemma pages_down:
  "views t v \<Longrightarrow> views (tui_run (replicate n (TuiScroll PageDown)) t) (min (row_count t - page_height t) (v + n * page_height t))"
  unfolding tui_run_def
proof (induction n arbitrary: t v)
  case 0
  then show ?case by (simp add: views_def min_absorb2)
next
  case (Suc n)
  have "min m (min m (v + p) + n * p) = min m (v + (p + n * p))" for m v p n :: nat by (simp add: min_def)
  then show ?case
    using Suc.IH[OF page_down[OF Suc.prems]] same_geometry[OF scroll_same[of t PageDown]] by simp
qed

text \<open>from the bottom, \<open>n\<close> pages up and then \<open>m\<close> pages down show the page that many rows away, never
  before the first or behind the last; so enough pages up reach the top, and as many down return.\<close>

theorem paging_moves_by_pages:
  assumes "tx_follow (tui_run es (new_transcript b))"
  shows "let t = tui_run es (new_transcript b); rows = wrap_all (transcript_width t) (tx_lines t);
      bottom = length rows - page_height t in
    snd (draw_transcript (tui_run (replicate n (TuiScroll PageUp) @ replicate m (TuiScroll PageDown)) t)) =
      take (page_height t) (drop (min bottom (bottom - n * page_height t + m * page_height t)) rows)"
proof -
  define t where "t = tui_run es (new_transcript b)"
  define bottom where "bottom = row_count t - page_height t"
  define u where "u = tui_run (replicate n (TuiScroll PageUp)) t"
  define v where "v = tui_run (replicate m (TuiScroll PageDown)) u"
  have "views t bottom"
    using tui_run_cache[OF new_cache] assms by (simp add: views_def t_def bottom_def)
  from pages_up[OF this] have "views u (bottom - n * page_height t)" by (simp add: u_def)
  from pages_down[OF this, of m]
  have "views v (min (row_count u - page_height u) (bottom - n * page_height t + m * page_height u))" by (simp add: v_def)
  moreover have same: "same_text t u" "same_text u v" by (simp_all add: u_def v_def pages_keep)
  ultimately have "views v (min bottom (bottom - n * page_height t + m * page_height t))"
    by (simp add: same_geometry[OF same(1)] bottom_def)
  from views_draw[OF this] have "snd (draw_transcript v) = take (page_height t)
      (drop (min bottom (bottom - n * page_height t + m * page_height t)) (wrap_all (transcript_width t) (tx_lines t)))"
    using same by (simp add: same_geometry[OF same(2)] same_geometry[OF same(1)]) (simp add: same_text_def)
  then show ?thesis by (simp add: Let_def t_def v_def u_def tui_run_def bottom_def row_count_def)
qed

section \<open>Width\<close>

definition line_valid :: "md_line \<Rightarrow> bool" where
  "line_valid l \<longleftrightarrow> list_all (\<lambda>s. utf8_valid (sp_text s)) (ln_spans l)"

text \<open>the rows drawn, with the two columns of the gutter where there is one, stay within the width of
  the transcript, for any width of at least five columns and any valid text.\<close>

theorem drawn_rows_fit:
  assumes "t = tui_run es (new_transcript b)" "list_all line_valid (tx_lines t)"
    and "5 \<le> transcript_width t" "row \<in> set (snd (draw_transcript t))"
  shows "int (columns (text_of_row row)) + (if ln_gutter row then 2 else 0) < transcript_width t"
proof -
  have "cache_ok t" unfolding assms(1) by (rule tui_run_cache[OF new_cache])
  from draw_window[OF this] have "row \<in> set (wrap_all (transcript_width t) (tx_lines t))"
    using assms(4) by (metis in_set_takeD in_set_dropD)
  then obtain l where l: "l \<in> set (tx_lines t)"
      "row \<in> set (wrap_line l (if ln_gutter l then max 1 (transcript_width t - 2) else transcript_width t))"
    by (auto simp: wrap_all_def)
  have "line_valid l" using assms(2) l(1) by (simp add: list_all_iff)
  from wrapped_rows_fit[of l "if ln_gutter l then max 1 (transcript_width t - 2) else transcript_width t"] this l(2)
  have "columns (text_of_row row) \<le> max 2 (safe_limit (if ln_gutter l then max 1 (transcript_width t - 2) else transcript_width t))"
    "ln_gutter row = ln_gutter l \<or> row = text_line []"
    by (simp_all add: line_valid_def list_all_iff)
  then show ?thesis
    using assms(3) by (auto simp: safe_limit_def Let_def text_line_def md_plain_line_def line_of_def split: if_splits)
qed


section \<open>Examples\<close>

definition demo_box :: box where
  "demo_box = \<lparr>x_min = 0, x_max = 19, y_min = 0, y_max = 2\<rparr>"

definition demo_steps :: "tui_event list" where
  "demo_steps = [TuiSink (SinkTextDelta ''Hello ''), TuiDraw, TuiBlock [coloured ''note'' ColCyan],
     TuiSink (SinkTextDelta ''**world**'')]"

text \<open>The transcript after them: a gap, the live region of two rows, and the block.\<close>

lemma demo_run:
  "map text_of_row (tx_lines (tui_run demo_steps (new_transcript demo_box))) = [[], ''Hello world'', [], ''note'', []]"
  "tx_live_index (tui_run demo_steps (new_transcript demo_box)) = Some 1"
  "tx_live_text (tui_run demo_steps (new_transcript demo_box)) = ''Hello **world**''"
  "tx_follow (tui_run demo_steps (new_transcript demo_box))"
  by code_simp+

lemma drawing_shows_current_lines_witness:
  "let t = tui_run demo_steps (new_transcript demo_box); rows = wrap_all (transcript_width t) (tx_lines t) in
   snd (draw_transcript t) = drop (length rows - page_height t) rows"
proof -
  have "page_height (tui_run demo_steps (new_transcript demo_box)) = 3"
    "length (wrap_all (transcript_width (tui_run demo_steps (new_transcript demo_box)))
       (tx_lines (tui_run demo_steps (new_transcript demo_box)))) = 5"
    by code_simp+
  with drawing_shows_current_lines[of demo_steps demo_box] demo_run(4) show ?thesis by (auto simp: Let_def)
qed


lemma streaming_equals_block_witness:
  "tx_lines (tui_run (map (\<lambda>d. TuiSink (SinkTextDelta d)) [''# He'', ''llo'' @ NL @ ''-'', '' one'']) (new_transcript demo_box)) =
   tx_lines (append_block (render_markdown (''# Hello'' @ NL @ ''- one'')) (new_transcript demo_box))"
proof -
  have a: "tx_live_index (new_transcript demo_box) = None" "tx_live_text (new_transcript demo_box) = []"
    by (simp_all add: new_transcript_def)
  have b: "live_block (concat [''# He'', ''llo'' @ NL @ ''-'', '' one'']) \<noteq> []" by code_simp
  from streaming_equals_block[OF a b] show ?thesis by simp
qed

lemma tool_result_joins_its_call_witness:
  "\<exists>rest. tx_lines (on_tool_result ''3 lines'' False (tui_run [TuiSwarm ''hi'', TuiSink (SinkTextDelta ''ok'')]
      (on_tool_call ''read'' (JObj []) (new_transcript demo_box)))) =
    add_span (result_span ''3 lines'' False) (call_line ''read'' (JObj [])) # rest"
proof -
  have "list_all bystander [TuiSwarm ''hi'', TuiSink (SinkTextDelta ''ok'')]" by code_simp
  from tool_result_joins_its_call[OF this, of "''read''" "JObj []" "new_transcript demo_box" "''3 lines''" False]
  show ?thesis by (auto simp: new_transcript_def)
qed

lemma paging_moves_by_pages_witness:
  "snd (draw_transcript (tui_run [TuiScroll PageUp] (tui_run demo_steps (new_transcript demo_box)))) =
   take 3 (wrap_all 20 (tx_lines (tui_run demo_steps (new_transcript demo_box))))"
proof -
  have "page_height (tui_run demo_steps (new_transcript demo_box)) = 3"
    "transcript_width (tui_run demo_steps (new_transcript demo_box)) = 20"
    "length (wrap_all 20 (tx_lines (tui_run demo_steps (new_transcript demo_box)))) = 5"
    by code_simp+
  with paging_moves_by_pages[OF demo_run(4), of 1 0] show ?thesis by (simp add: Let_def)
qed

lemma drawn_rows_fit_witness:
  "int (columns (text_of_row (md_plain_line ''Hello world'' ColDefault False False))) < 20"
proof -
  let ?t = "tui_run [TuiBlock [md_plain_line ''Hello world'' ColDefault False False]] (new_transcript demo_box)"
  have v: "list_all line_valid (tx_lines ?t)" and w: "transcript_width ?t = 20"
    and m: "md_plain_line ''Hello world'' ColDefault False False \<in> set (snd (draw_transcript ?t))"
    by code_simp+
  have "5 \<le> transcript_width ?t" unfolding w by simp
  from drawn_rows_fit[OF refl v this m] show ?thesis
    unfolding w by (simp add: md_plain_line_def line_of_def)
qed

end
