(* ===== verification/Tui_Screen.thy ===== *)
theory Tui_Screen
  imports Tui_Transcript Remote_Client Auth
begin

text \<open>
  The input side of the terminal interface (\<open>src/tui/tui.cpp\<close>): the completion of slash commands, the
  prompt history, the commands, the connect dialog, the events of the screen and the thread that runs
  a turn. The agent is the argument \<open>agent_ops\<close>, with \<open>RemoteAgent\<close> as its instance; the component
  library is left out, so an event the screen does not handle itself ends in \<open>Passed\<close>.
\<close>

section \<open>State\<close>

text \<open>The virtual functions of \<open>Agent\<close> the screen calls.\<close>

record 'a agent_ops =
  ao_model :: "'a \<Rightarrow> string"
  ao_set_model :: "string \<Rightarrow> 'a \<Rightarrow> 'a"
  ao_tools :: "'a \<Rightarrow> tool_definition list"
  ao_tool :: "string \<Rightarrow> 'a \<Rightarrow> tool_definition option \<times> 'a"
  ao_clear :: "'a \<Rightarrow> 'a"
  ao_set_credentials :: "string \<Rightarrow> string \<Rightarrow> 'a \<Rightarrow> bool \<times> 'a"
  ao_cancel :: "'a \<Rightarrow> 'a"
  ao_peer :: "'a peer_ops"

definition remote_agent_ops :: "(json \<Rightarrow> bool) \<Rightarrow> remote agent_ops" where
  "remote_agent_ops ok =
     \<lparr>ao_model = ra_model, ao_set_model = remote_set_model ok, ao_tools = ra_tools, ao_tool = remote_tool,
      ao_clear = remote_clear ok, ao_set_credentials = remote_set_credentials ok, ao_cancel = remote_cancel ok,
      ao_peer = remote_ops ok\<rparr>"

text \<open>What else the screen is given: the JSON library, the home directory and the answers of the system
  calls of one save.\<close>

record 'a screen_env =
  se_ops :: "'a agent_ops"
  se_dump :: "json \<Rightarrow> string"
  se_parse :: "string \<Rightarrow> json option"
  se_home :: "string option"
  se_save :: save_env

record connect_dialog =
  cn_active :: bool
  cn_step :: nat
  cn_provider :: int
  cn_key :: string
  cn_cursor :: int
  cn_saved :: string
  cn_has_key :: bool

text \<open>How far the thread of a turn has come: in \<open>run_turn\<close>, after \<open>flush_live_text\<close>, or after it has put
  \<open>busy_\<close> back.\<close>

datatype turn_phase = InTurn | Flushed | Released

record 'a screen =
  sn_agent :: 'a
  sn_view :: transcript
  sn_input :: string
  sn_cursor :: int
  sn_busy :: bool
  sn_armed :: bool
  sn_history :: "string list"
  sn_pos :: "nat option"
  sn_draft :: string
  sn_choices :: "string list"
  sn_key :: string
  sn_index :: nat
  sn_ctx :: int
  sn_refreshing :: nat
  sn_dialog :: connect_dialog
  sn_files :: "string \<rightharpoonup> string"
  sn_threads :: "(string \<times> turn_phase) list"
  sn_exit :: bool

definition show_block :: "md_line list \<Rightarrow> 'a screen \<Rightarrow> 'a screen" where
  "show_block ls s = s\<lparr>sn_view := append_block ls (sn_view s)\<rparr>"

definition show_line :: "md_line \<Rightarrow> 'a screen \<Rightarrow> 'a screen" where
  "show_line l s = s\<lparr>sn_view := append_one l (sn_view s)\<rparr>"

section \<open>Completion\<close>

definition command_choices :: "string list" where
  "command_choices = [''/connect'', ''/model'', ''/tools'', ''/clear'', ''/agents'', ''/msg'', ''/help'', ''/exit'', ''/quit'']"

definition command_desc :: "string \<Rightarrow> string" where
  "command_desc name =
     (case map_of
        [(''/connect'', ''pick a provider and store your api key''),
         (''/model'', ''show or set the current model''),
         (''/tools'', ''list registered tools & schemas''),
         (''/clear'', ''clear conversation history''),
         (''/agents'', ''list swarm-connected agents''),
         (''/msg'', ''message an agent (all, repo, or id)''),
         (''/help'', ''show this help''),
         (''/exit'', ''leave the TUI''),
         (''/quit'', ''leave the TUI'')] name of
        Some d \<Rightarrow> d | None \<Rightarrow> [])"

text \<open>\<open>std::tolower\<close> in the C locale.\<close>

definition tolower_char :: "char \<Rightarrow> char" where
  "tolower_char c = (if 65 \<le> byte c \<and> byte c \<le> 90 then char_of (byte c + 32) else c)"

definition lower :: "string \<Rightarrow> string" where "lower s = map tolower_char s"

definition prefix_of_input :: "string \<Rightarrow> string" where
  "prefix_of_input input =
     (let t = trim_string input in
      case t of
        [] \<Rightarrow> []
      | c # _ \<Rightarrow> if c \<noteq> CHR ''/'' then []
          else (case split_at (CHR '' '') t of None \<Rightarrow> t | Some (w, _) \<Rightarrow> w))"

definition command_prefix :: "'a screen \<Rightarrow> string" where
  "command_prefix s = prefix_of_input (sn_input s)"

definition suggestion :: "string \<Rightarrow> string \<Rightarrow> bool" where
  "suggestion pre choice \<longleftrightarrow>
     (if starts_with choice pre then True
      else (let body = tl pre in
        if body = [] then False
        else contains_sub (lower choice) (lower body) \<or> contains_sub (lower (command_desc choice)) (lower body)))"

definition suggestions_for :: "string \<Rightarrow> string list" where
  "suggestions_for pre = (if pre = [] then [] else filter (suggestion pre) command_choices)"

definition current_suggestions :: "'a screen \<Rightarrow> string list" where
  "current_suggestions s = suggestions_for (command_prefix s)"

definition refresh_suggestions :: "'a screen \<Rightarrow> 'a screen" where
  "refresh_suggestions s =
     (let fresh = current_suggestions s;
          s1 = (if fresh \<noteq> [] \<and> command_prefix s \<noteq> sn_key s
                then s\<lparr>sn_key := command_prefix s, sn_index := 0\<rparr> else s) in
      s1\<lparr>sn_choices := fresh\<rparr>)"

definition accept_suggestion :: "'a screen \<Rightarrow> 'a screen" where
  "accept_suggestion s =
     (if sn_choices s = [] then s
      else (let i = (if length (sn_choices s) \<le> sn_index s then length (sn_choices s) - 1 else sn_index s);
                w = sn_choices s ! i;
                s1 = s\<lparr>sn_input := w, sn_cursor := int (length w), sn_key := w, sn_index := 0\<rparr> in
            s1\<lparr>sn_choices := current_suggestions s1\<rparr>))"

text \<open>The direction is added as a 64-bit word.\<close>

definition cycle_suggestion :: "int \<Rightarrow> 'a screen \<Rightarrow> bool \<times> 'a screen" where
  "cycle_suggestion dir s0 =
     (let s = refresh_suggestions s0 in
      if sn_choices s = [] then (False, s)
      else (let n = length (sn_choices s) in
        (True, s\<lparr>sn_index := nat ((int (sn_index s) + int n + dir) mod 2 ^ 64) mod n\<rparr>)))"

section \<open>History\<close>

definition record_history :: "string \<Rightarrow> 'a screen \<Rightarrow> 'a screen" where
  "record_history prompt s =
     (let h = sn_history s;
          h1 = (if h = [] \<or> last h \<noteq> prompt then
                  (let h' = h @ [prompt] in if 200 < length h' then tl h' else h') else h) in
      s\<lparr>sn_history := h1, sn_pos := None, sn_draft := []\<rparr>)"

definition recall :: "string \<Rightarrow> 'a screen \<Rightarrow> 'a screen" where
  "recall w s = s\<lparr>sn_input := w, sn_cursor := int (length w)\<rparr>"

definition history_previous :: "'a screen \<Rightarrow> 'a screen" where
  "history_previous s =
     (if sn_history s = [] then s
      else (case sn_pos s of
          None \<Rightarrow> (let i = length (sn_history s) - 1 in
            recall (sn_history s ! i) (s\<lparr>sn_draft := sn_input s, sn_pos := Some i\<rparr>))
        | Some i \<Rightarrow> if 0 < i then recall (sn_history s ! (i - 1)) (s\<lparr>sn_pos := Some (i - 1)\<rparr>) else s))"

definition history_next :: "'a screen \<Rightarrow> 'a screen" where
  "history_next s =
     (case sn_pos s of
        None \<Rightarrow> s
      | Some i \<Rightarrow> if i + 1 < length (sn_history s)
          then recall (sn_history s ! (i + 1)) (s\<lparr>sn_pos := Some (i + 1)\<rparr>)
          else recall (sn_draft s) (s\<lparr>sn_pos := None\<rparr>))"

section \<open>The connect dialog\<close>

definition change_dialog :: "(connect_dialog \<Rightarrow> connect_dialog) \<Rightarrow> 'a screen \<Rightarrow> 'a screen" where
  "change_dialog f s = s\<lparr>sn_dialog := f (sn_dialog s)\<rparr>"

definition selected_provider :: "'a screen \<Rightarrow> provider_info option" where
  "selected_provider s =
     (let i = cn_provider (sn_dialog s) in
      if 0 \<le> i \<and> i < int (length supported_providers) then Some (supported_providers ! nat i)
      else if supported_providers = [] then None else Some (hd supported_providers))"

fun provider_index :: "string \<Rightarrow> nat \<Rightarrow> provider_info list \<Rightarrow> int" where
  "provider_index saved i [] = 0"
| "provider_index saved i (p # ps) = (if pi_id p = saved then int i else provider_index saved (Suc i) ps)"

definition open_connect :: "'a screen_env \<Rightarrow> 'a screen \<Rightarrow> 'a screen outcome" where
  "open_connect env s =
     bind_outcome (load_credentials (se_parse env) (se_home env) (sn_files s)) (\<lambda>(_, provider, key).
       Inr (s\<lparr>sn_dialog := \<lparr>cn_active = True, cn_step = 0,
         cn_provider = provider_index provider 0 supported_providers, cn_key = [], cn_cursor = 0,
         cn_saved = provider, cn_has_key = (key \<noteq> [])\<rparr>\<rparr>))"

definition advance_to_key_step :: "'a screen \<Rightarrow> 'a screen" where
  "advance_to_key_step s = change_dialog (\<lambda>d. d\<lparr>cn_step := 1\<rparr>) s"

definition close_connect :: "'a screen \<Rightarrow> 'a screen" where
  "close_connect s = change_dialog (\<lambda>d. d\<lparr>cn_active := False, cn_step := 0\<rparr>) s"

definition save_connect :: "'a screen_env \<Rightarrow> 'a screen \<Rightarrow> 'a screen" where
  "save_connect env s =
     (case selected_provider s of
        None \<Rightarrow> close_connect s
      | Some p \<Rightarrow>
          (let key = trim_string (cn_key (sn_dialog s)) in
           if key = [] then show_line (coloured ''api key cannot be empty'' ColRedLight) s
           else (let (saved, fs) = save_credentials (se_dump env) (se_save env) (se_home env) (pi_id p) key (sn_files s);
                     s1 = s\<lparr>sn_files := fs\<rparr> in
             if \<not> saved then show_line (coloured (''failed to write '' @ auth_file_path (se_home env)) ColRedLight) s1
             else (let s2 = s1\<lparr>sn_agent := snd (ao_set_credentials (se_ops env) (pi_id p) key (sn_agent s1))\<rparr>;
                       s3 = change_dialog (\<lambda>d. d\<lparr>cn_saved := pi_id p, cn_has_key := True\<rparr>) s2 in
               close_connect (show_block
                 [md_plain_line (''connected: '' @ pi_display_name p) ColGreen True False,
                  coloured (''saved api key to '' @ auth_file_path (se_home env)) ColGrayLight] s3)))))"


section \<open>Commands\<close>

definition grey_bold :: "string \<Rightarrow> md_line" where "grey_bold t = md_plain_line t ColGrayLight True False"
definition cyan_bold :: "string \<Rightarrow> md_line" where "cyan_bold t = md_plain_line t ColCyan True False"
definition plain_bold :: "string \<Rightarrow> md_line" where "plain_bold t = md_plain_line t ColDefault True False"

definition still_running :: md_line where
  "still_running = coloured ''still running a turn...'' ColGrayLight"

definition no_server :: md_line where
  "no_server = coloured ''not connected to a swarm server (start one with `zvmh --server start`)'' ColRedLight"

definition msg_usage :: md_line where
  "msg_usage = coloured ''usage: /msg <all|repo|<agent id>> <text>'' ColYellow"

definition model_command :: "'a screen_env \<Rightarrow> string \<Rightarrow> 'a screen \<Rightarrow> 'a screen" where
  "model_command env cmd s =
     (let arg = trim_string (drop 6 cmd); ops = se_ops env in
      if arg = [] then
        show_block [cyan_bold (''current model: '' @ ao_model ops (sn_agent s)),
          grey_bold ''set a new model with: /model <name>''] s
      else (let s1 = s\<lparr>sn_agent := ao_set_model ops arg (sn_agent s), sn_ctx := 0,
                 sn_refreshing := sn_refreshing s + 1\<rparr> in
        show_line (cyan_bold (''model set to: '' @ ao_model ops (sn_agent s1))) s1))"

definition tool_line :: "tool_definition \<Rightarrow> md_line" where
  "tool_line d = plain_bold (''  - '' @ td_name d @ ''  '' @ td_description d)"

definition tools_command :: "'a screen_env \<Rightarrow> string \<Rightarrow> 'a screen \<Rightarrow> 'a screen" where
  "tools_command env cmd s =
     (let arg = trim_string (drop 6 cmd); ops = se_ops env; first = cyan_bold ''registered tools:'' in
      if arg = [] then show_block (first # map tool_line (ao_tools ops (sn_agent s))) s
      else (case ao_tool ops arg (sn_agent s) of
          (Some d, a) \<Rightarrow>
            show_block [first, tool_line d,
              coloured (''      schema: '' @ se_dump env (td_input_schema d)) ColGrayLight] (s\<lparr>sn_agent := a\<rparr>)
        | (None, a) \<Rightarrow>
            show_block [first, coloured (''  unknown tool: '' @ [squote] @ arg @ [squote]) ColRedLight]
              (s\<lparr>sn_agent := a\<rparr>)))"

definition clear_command :: "'a screen_env \<Rightarrow> 'a screen \<Rightarrow> 'a screen" where
  "clear_command env s =
     show_line (coloured ''conversation cleared.'' ColGrayLight)
       (s\<lparr>sn_agent := ao_clear (se_ops env) (sn_agent s), sn_view := clear_transcript (sn_view s)\<rparr>)"

fun agent_lines :: "json list \<Rightarrow> md_line list outcome" where
  "agent_lines [] = Inr []"
| "agent_lines (p # ps) =
     bind_outcome (value_str p ''id'' ''?'') (\<lambda>i.
     bind_outcome (value_str p ''name'' ''?'') (\<lambda>n.
     bind_outcome (value_str p ''repo'' ''?'') (\<lambda>r.
     bind_outcome (agent_lines ps) (\<lambda>rest.
       Inr (text_line (''  '' @ i @ ''  '' @ n @ ''  ('' @ r @ '')'') # rest)))))"

definition agents_command :: "'a screen_env \<Rightarrow> 'a screen \<Rightarrow> 'a screen outcome" where
  "agents_command env s =
     (let peer = ao_peer (se_ops env) in
      if \<not> po_connected peer (sn_agent s) then Inr (show_line no_server s)
      else (let ps = po_peers peer (sn_agent s) in
        bind_outcome (if ps = [] then Inr [coloured ''  (none connected yet)'' ColGrayLight] else agent_lines ps) (\<lambda>ls.
          let s1 = show_block (cyan_bold ''swarm agents:'' # ls) s in
          Inr (s1\<lparr>sn_agent := snd (po_request peer (sn_agent s1))\<rparr>))))"

definition msg_command :: "'a screen_env \<Rightarrow> string \<Rightarrow> 'a screen \<Rightarrow> 'a screen" where
  "msg_command env cmd s =
     (let rest = trim_string (drop 4 cmd); peer = ao_peer (se_ops env) in
      if \<not> po_connected peer (sn_agent s) then show_line no_server s
      else (case split_at (CHR '' '') rest of
          None \<Rightarrow> show_line msg_usage s
        | Some (a, b) \<Rightarrow>
            (let to = trim_string a; t = trim_string b in
             if to \<noteq> ''all'' \<and> to \<noteq> ''repo'' \<and> \<not> po_knows peer to (sn_agent s) then
               show_line (coloured (''no peer with id '' @ [squote] @ to @ [squote] @
                 '' is connected (use /agents)'') ColRedLight) s
             else if t = [] then show_line msg_usage s
             else show_line (coloured (''msg sent to '' @ to) ColGrayLight)
               (s\<lparr>sn_agent := snd (po_send peer to t (sn_agent s))\<rparr>))))"

definition help_lines :: "md_line list" where
  "help_lines = map text_line
     [''/connect           pick a provider and store your api key'',
      ''/model             show current model'',
      ''/model <name>      switch model (e.g. /model minimax/minimax-m3:free)'',
      ''/tools             list tools'',
      ''/tools <name>      show tool schema'',
      ''/clear             clear conversation history'',
      ''/agents            list swarm-connected agents'',
      ''/msg <to> <text>   message a peer (all, repo, or an agent id)'',
      ''/exit, /quit       leave the TUI'',
      ''/help              show this help'']"

definition handle_command :: "'a screen_env \<Rightarrow> string \<Rightarrow> 'a screen \<Rightarrow> 'a screen outcome" where
  "handle_command env cmd s =
     (if starts_with cmd ''/model'' then Inr (model_command env cmd s)
      else if cmd = ''/connect'' then (if sn_busy s then Inr (show_line still_running s) else open_connect env s)
      else if cmd = ''/tools'' \<or> starts_with cmd ''/tools '' then Inr (tools_command env cmd s)
      else if cmd = ''/clear'' then Inr (clear_command env s)
      else if cmd = ''/agents'' then agents_command env s
      else if cmd = ''/msg'' \<or> starts_with cmd ''/msg '' then Inr (msg_command env cmd s)
      else if cmd = ''/help'' then Inr (show_block help_lines s)
      else if cmd = ''/exit'' \<or> cmd = ''/quit'' then Inr (s\<lparr>sn_exit := True\<rparr>)
      else Inr (show_line (coloured (''  unknown command: '' @ [squote] @ cmd @ [squote] @
             ''   (try /help)'') ColRedLight) s))"

section \<open>Submitting\<close>

definition run_turn_async :: "string \<Rightarrow> 'a screen \<Rightarrow> 'a screen" where
  "run_turn_async prompt s = s\<lparr>sn_busy := True, sn_threads := sn_threads s @ [(prompt, InTurn)]\<rparr>"

definition prompt_line :: "string \<Rightarrow> md_line" where
  "prompt_line p = \<lparr>ln_spans = [mk_span p ColDefault False False False], ln_gutter = True\<rparr>"

definition submit :: "'a screen_env \<Rightarrow> 'a screen \<Rightarrow> 'a screen outcome" where
  "submit env s =
     (if sn_busy s then Inr (show_line still_running s)
      else (let prompt = trim_string (sn_input s) in
        if prompt = [] then Inr s
        else (let s1 = s\<lparr>sn_input := [], sn_cursor := 0\<rparr> in
          if hd prompt = CHR ''/'' then handle_command env prompt s1
          else Inr (run_turn_async prompt (show_line (prompt_line prompt) (record_history prompt s1))))))"

section \<open>Events\<close>

datatype screen_key = SkEscape | SkReturn | SkTab | SkUp | SkDown | SkScroll scroll_key | SkOther

datatype reply = Handled | Ignored | Passed

definition cancelling :: md_line where
  "cancelling = coloured ([CHR 0xE2, CHR 0x80, CHR 0xBA] @ '' cancelling turn...'') ColGrayLight"

definition press_again :: md_line where
  "press_again = coloured ([CHR 0xE2, CHR 0x80, CHR 0xBA] @ '' press Esc again to cancel'') ColGrayLight"

text \<open>The dialog handles Escape, and Return on its first step; the rest goes to the menu or the key editor.\<close>

definition connect_event :: "screen_key \<Rightarrow> 'a screen \<Rightarrow> reply \<times> 'a screen" where
  "connect_event k s =
     (if cn_step (sn_dialog s) = 0 then
        (if k = SkEscape then (Handled, close_connect s)
         else if k = SkReturn then (Handled, advance_to_key_step s)
         else (Passed, s))
      else if k = SkEscape then (Handled, change_dialog (\<lambda>d. d\<lparr>cn_step := 0\<rparr>) s)
      else (Passed, s))"

definition enter_command :: "'a screen_env \<Rightarrow> 'a screen \<Rightarrow> (reply \<times> 'a screen) outcome" where
  "enter_command env s0 =
     (let s = refresh_suggestions s0 in
      if sn_choices s = [] then Inr (Passed, s)
      else (let sel = sn_choices s ! sn_index s in
        if sel = sn_input s then bind_outcome (submit env (accept_suggestion s)) (\<lambda>s1. Inr (Handled, s1))
        else if length (sn_input s) < length sel \<and> starts_with sel (sn_input s) then
          Inr (Handled, accept_suggestion s)
        else bind_outcome (submit env s) (\<lambda>s1. Inr (Handled, s1))))"

definition complete_event :: "'a screen_env \<Rightarrow> screen_key \<Rightarrow> 'a screen \<Rightarrow> (reply \<times> 'a screen) outcome" where
  "complete_event env k s =
     (case k of
        SkTab \<Rightarrow> (let s1 = refresh_suggestions s in
          if sn_choices s1 \<noteq> [] then Inr (Handled, accept_suggestion s1) else Inr (Passed, s1))
      | SkDown \<Rightarrow> (case cycle_suggestion 1 s of (True, s1) \<Rightarrow> Inr (Handled, s1) | (False, s1) \<Rightarrow> Inr (Passed, s1))
      | SkUp \<Rightarrow> (case cycle_suggestion (-1) s of (True, s1) \<Rightarrow> Inr (Handled, s1) | (False, s1) \<Rightarrow> Inr (Passed, s1))
      | SkReturn \<Rightarrow> enter_command env s
      | _ \<Rightarrow> Inr (Passed, s))"

definition scroll_screen :: "scroll_key \<Rightarrow> 'a screen \<Rightarrow> reply \<times> 'a screen" where
  "scroll_screen k s =
     (case scroll_event k (sn_view s) of (b, v) \<Rightarrow> (if b then Handled else Ignored, s\<lparr>sn_view := v\<rparr>))"

definition escape_busy :: "'a screen_env \<Rightarrow> 'a screen \<Rightarrow> 'a screen" where
  "escape_busy env s =
     (if sn_armed s then
        show_line cancelling (s\<lparr>sn_armed := False, sn_agent := ao_cancel (se_ops env) (sn_agent s)\<rparr>)
      else show_line press_again (s\<lparr>sn_armed := True\<rparr>))"

definition screen_event :: "'a screen_env \<Rightarrow> screen_key \<Rightarrow> 'a screen \<Rightarrow> (reply \<times> 'a screen) outcome" where
  "screen_event env k s =
     (if cn_active (sn_dialog s) then Inr (connect_event k s)
      else if k = SkEscape \<and> sn_busy s then Inr (Handled, escape_busy env s)
      else (let s1 = (if k = SkEscape then s\<lparr>sn_armed := False\<rparr> else s) in
        case k of
          SkScroll x \<Rightarrow> Inr (scroll_screen x s1)
        | _ \<Rightarrow> if sn_input s1 \<noteq> [] \<and> hd (sn_input s1) = CHR ''/'' then complete_event env k s1
               else Inr (Passed, s1)))"


section \<open>The threads of the screen\<close>

text \<open>
  One step per event of the loop, per callback of the prompt editor and the key editor, per drawing and
  per piece of work of another thread: the turn's thread, the one that asks for the context window, the
  reader that brings swarm lines and the one that hints at \<open>/connect\<close>. The editor may leave any text and
  cursor; the agent may change at any time.
\<close>

inductive screen_step :: "'a screen_env \<Rightarrow> 'a screen \<Rightarrow> 'a screen \<Rightarrow> bool" for env where
  key: "screen_event env k s = Inr (r, s') \<Longrightarrow> screen_step env s s'"
| edit: "screen_step env s (s\<lparr>sn_input := i, sn_cursor := c\<rparr>)"
| enter: "submit env s = Inr s' \<Longrightarrow> screen_step env s s'"
| previous: "screen_step env s (history_previous s)"
| following: "screen_step env s (history_next s)"
| dialog: "cn_active (sn_dialog s) \<Longrightarrow>
    screen_step env s (change_dialog (\<lambda>d. d\<lparr>cn_provider := p, cn_key := k, cn_cursor := c\<rparr>) s)"
| save: "cn_active (sn_dialog s) \<Longrightarrow> cn_step (sn_dialog s) = 1 \<Longrightarrow> screen_step env s (save_connect env s)"
| draw: "screen_step env s ((refresh_suggestions s)\<lparr>sn_view := tui_step TuiDraw (sn_view s)\<rparr>)"
| resized: "screen_step env s (s\<lparr>sn_view := tui_step (TuiBox b) (sn_view s)\<rparr>)"
| context_known: "0 < sn_refreshing s \<Longrightarrow>
    screen_step env s (s\<lparr>sn_ctx := n, sn_refreshing := sn_refreshing s - 1\<rparr>)"
| agent_changes: "screen_step env s (s\<lparr>sn_agent := a\<rparr>)"
| swarm_line: "screen_step env s (s\<lparr>sn_view := tui_step (TuiSwarm t) (sn_view s)\<rparr>)"
| hint: "screen_step env s (show_line (md_plain_line t ColYellowLight True False) s)"
| turn_call: "sn_threads s = xs @ (p, InTurn) # ys \<Longrightarrow>
    screen_step env s (s\<lparr>sn_view := tui_step (TuiSink c) (sn_view s)\<rparr>)"
| turn_flush: "sn_threads s = xs @ (p, InTurn) # ys \<Longrightarrow>
    screen_step env s (s\<lparr>sn_view := tui_step TuiFlush (sn_view s), sn_threads := xs @ (p, Flushed) # ys\<rparr>)"
| turn_release: "sn_threads s = xs @ (p, Flushed) # ys \<Longrightarrow>
    screen_step env s (s\<lparr>sn_busy := False, sn_threads := xs @ (p, Released) # ys\<rparr>)"
| turn_disarm: "sn_threads s = xs @ (p, Released) # ys \<Longrightarrow>
    screen_step env s (s\<lparr>sn_armed := False, sn_threads := xs @ ys\<rparr>)"

definition new_screen :: "'a \<Rightarrow> box \<Rightarrow> (string \<rightharpoonup> string) \<Rightarrow> 'a screen" where
  "new_screen a b fs =
     \<lparr>sn_agent = a, sn_view = new_transcript b, sn_input = [], sn_cursor = 0, sn_busy = False, sn_armed = False,
      sn_history = [], sn_pos = None, sn_draft = [], sn_choices = [], sn_key = [], sn_index = 0, sn_ctx = 0,
      sn_refreshing = 1,
      sn_dialog = \<lparr>cn_active = False, cn_step = 0, cn_provider = 0, cn_key = [], cn_cursor = 0, cn_saved = [],
        cn_has_key = False\<rparr>,
      sn_files = fs, sn_threads = [], sn_exit = False\<rparr>"

definition screen_reachable :: "'a screen_env \<Rightarrow> 'a screen \<Rightarrow> bool" where
  "screen_reachable env s \<longleftrightarrow> (\<exists>a b fs. (screen_step env)\<^sup>*\<^sup>* (new_screen a b fs) s)"

section \<open>What the operations leave alone\<close>

text \<open>The parts of the state the invariants speak of.\<close>

definition running :: "'a screen \<Rightarrow> nat" where
  "running s = length (filter (\<lambda>t. snd t \<noteq> Released) (sn_threads s))"

definition turns_ok :: "'a screen \<Rightarrow> bool" where
  "turns_ok s \<longleftrightarrow> running s = (if sn_busy s then 1 else 0)"

definition completion_ok :: "'a screen \<Rightarrow> bool" where
  "completion_ok s \<longleftrightarrow> sn_key s = [] \<and> sn_index s = 0 \<or> sn_index s < length (suggestions_for (sn_key s))"

definition history_ok :: "'a screen \<Rightarrow> bool" where
  "history_ok s \<longleftrightarrow> length (sn_history s) \<le> 200 \<and> (\<forall>i. sn_pos s = Some i \<longrightarrow> i < length (sn_history s))"

definition screen_ok :: "'a screen \<Rightarrow> bool" where
  "screen_ok s \<longleftrightarrow> turns_ok s \<and> completion_ok s \<and> history_ok s"

definition core :: "'a screen \<Rightarrow> bool \<times> (string \<times> turn_phase) list \<times> string \<times> nat \<times> string list \<times> nat option" where
  "core s = (sn_busy s, sn_threads s, sn_key s, sn_index s, sn_history s, sn_pos s)"

lemma core_ok: "core s' = core s \<Longrightarrow> screen_ok s' = screen_ok s"
  by (simp add: core_def screen_ok_def turns_ok_def running_def completion_ok_def history_ok_def)

named_theorems core_frame

lemma core_updates [core_frame]:
  "core (s\<lparr>sn_view := v\<rparr>) = core s" "core (s\<lparr>sn_agent := a\<rparr>) = core s" "core (s\<lparr>sn_input := i\<rparr>) = core s"
  "core (s\<lparr>sn_cursor := c\<rparr>) = core s" "core (s\<lparr>sn_armed := b\<rparr>) = core s" "core (s\<lparr>sn_draft := i\<rparr>) = core s"
  "core (s\<lparr>sn_choices := cs\<rparr>) = core s" "core (s\<lparr>sn_ctx := n\<rparr>) = core s" "core (s\<lparr>sn_refreshing := m\<rparr>) = core s"
  "core (s\<lparr>sn_dialog := d\<rparr>) = core s" "core (s\<lparr>sn_files := fs\<rparr>) = core s" "core (s\<lparr>sn_exit := b\<rparr>) = core s"
  by (simp_all add: core_def)

lemma core_shows [core_frame]: "core (show_line l s) = core s" "core (show_block ls s) = core s"
    "core (change_dialog f s) = core s"
  by (simp_all add: show_line_def show_block_def change_dialog_def core_frame)

lemma core_commands [core_frame]:
  "core (model_command env cmd s) = core s" "core (tools_command env cmd s) = core s"
  "core (clear_command env s) = core s" "core (msg_command env cmd s) = core s"
  "core (save_connect env s) = core s" "core (escape_busy env s) = core s" "core (snd (scroll_screen k s)) = core s"
  "core (snd (connect_event sk s)) = core s"
  by (simp_all add: model_command_def tools_command_def clear_command_def msg_command_def save_connect_def
      escape_busy_def scroll_screen_def connect_event_def close_connect_def advance_to_key_step_def Let_def
      core_frame split: option.splits prod.splits)

lemma bind_Inr: "bind_outcome x f = Inr y \<Longrightarrow> \<exists>z. x = Inr z \<and> f z = Inr y"
  by (cases x) simp_all

definition keeps_core :: "'a screen outcome \<Rightarrow> 'a screen \<Rightarrow> bool" where
  "keeps_core x s \<longleftrightarrow> (\<forall>s'. x = Inr s' \<longrightarrow> core s' = core s)"

lemma keeps_core_intros: "core s' = core s \<Longrightarrow> keeps_core (Inr s') s"
    "keeps_core x s \<Longrightarrow> keeps_core y s \<Longrightarrow> keeps_core (if b then x else y) s"
    "(\<And>z. keeps_core (f z) s) \<Longrightarrow> keeps_core (bind_outcome o' f) s"
  by (auto simp: keeps_core_def dest!: bind_Inr)

lemma keeps_agents: "keeps_core (agents_command env s) s"
  unfolding agents_command_def Let_def by (intro keeps_core_intros) (simp_all add: core_frame)

lemma keeps_open: "keeps_core (open_connect env s) s"
  unfolding open_connect_def
  by (intro keeps_core_intros, simp only: split_beta) (rule keeps_core_intros, simp add: core_frame)

lemma keeps_handle: "keeps_core (handle_command env cmd s) s"
  unfolding handle_command_def
  by (intro keeps_core_intros keeps_agents keeps_open core_frame)

section \<open>Invariants\<close>

lemma choice_facts: "list_all (\<lambda>w. starts_with w w \<and> w \<noteq> [] \<and> hd w = CHR ''/'' \<and> trim_string w = w \<and>
    split_at (CHR '' '') w = None) command_choices"
  by code_simp

lemma choices_self: "w \<in> set command_choices \<Longrightarrow> w \<in> set (suggestions_for w) \<and> prefix_of_input w = w"
  using choice_facts by (cases w) (auto simp: list_all_iff suggestions_for_def suggestion_def prefix_of_input_def)

lemma suggestion_is_command: "w \<in> set (suggestions_for p) \<Longrightarrow> w \<in> set command_choices"
  by (auto simp: suggestions_for_def split: if_splits)

lemma refresh_index:
  assumes "completion_ok s" "sn_choices (refresh_suggestions s) \<noteq> []"
  shows "sn_index (refresh_suggestions s) < length (sn_choices (refresh_suggestions s))"
    and "sn_key (refresh_suggestions s) = command_prefix s"
  using assms by (auto simp: refresh_suggestions_def Let_def current_suggestions_def completion_ok_def)

lemma refresh_ok: "screen_ok s \<Longrightarrow> screen_ok (refresh_suggestions s)"
  by (auto simp: screen_ok_def refresh_suggestions_def Let_def turns_ok_def running_def history_ok_def
      completion_ok_def current_suggestions_def)

lemma refresh_choices: "sn_choices (refresh_suggestions s) = suggestions_for (command_prefix s)"
  by (simp add: refresh_suggestions_def Let_def current_suggestions_def)

lemma accept_ok:
  assumes "screen_ok s" "set (sn_choices s) \<subseteq> set command_choices"
  shows "screen_ok (accept_suggestion s)"
proof (cases "sn_choices s = []")
  case False
  define w where "w = sn_choices s ! (if length (sn_choices s) \<le> sn_index s then length (sn_choices s) - 1 else sn_index s)"
  have "w \<in> set (sn_choices s)" using False unfolding w_def by (intro nth_mem) auto
  with assms(2) have "w \<in> set (suggestions_for w)" using choices_self by blast
  then have "0 < length (suggestions_for w)" by (cases "suggestions_for w") auto
  with assms(1) False show ?thesis
    by (simp add: accept_suggestion_def Let_def w_def[symmetric] screen_ok_def turns_ok_def running_def
        history_ok_def completion_ok_def del: length_greater_0_conv)
qed (use assms in \<open>simp add: accept_suggestion_def\<close>)

lemma cycle_ok:
  assumes "screen_ok s"
  shows "screen_ok (snd (cycle_suggestion dir s))"
proof (cases "sn_choices (refresh_suggestions s) = []")
  case True
  with refresh_ok[OF assms] show ?thesis by (simp add: cycle_suggestion_def Let_def)
next
  case False
  let ?r = "refresh_suggestions s"
  have "sn_key ?r = command_prefix s" using refresh_index(2) assms False by (auto simp: screen_ok_def)
  moreover have "0 < length (suggestions_for (command_prefix s))" using False refresh_choices[of s] by simp
  ultimately have "completion_ok (snd (cycle_suggestion dir s))"
    using False by (simp add: cycle_suggestion_def Let_def completion_ok_def refresh_choices)
  with refresh_ok[OF assms] show ?thesis
    using False by (simp add: cycle_suggestion_def Let_def screen_ok_def turns_ok_def running_def history_ok_def)
qed

lemma record_ok: "screen_ok s \<Longrightarrow> screen_ok (record_history p s)"
  by (auto simp: screen_ok_def record_history_def Let_def turns_ok_def running_def history_ok_def completion_ok_def)

lemma submit_ok:
  assumes "screen_ok s" "submit env s = Inr s'"
  shows "screen_ok s'"
proof -
  consider "core s' = core s" | "handle_command env (trim_string (sn_input s)) (s\<lparr>sn_input := [], sn_cursor := 0\<rparr>) = Inr s'"
    | "\<not> sn_busy s" "s' = run_turn_async (trim_string (sn_input s)) (show_line (prompt_line (trim_string (sn_input s)))
        (record_history (trim_string (sn_input s)) (s\<lparr>sn_input := [], sn_cursor := 0\<rparr>)))"
  proof (cases "sn_busy s \<or> trim_string (sn_input s) = []")
    case True
    then have "core s' = core s"
      using assms(2) core_shows(1)[of still_running s] by (cases "sn_busy s") (simp_all add: submit_def)
    then show thesis by (rule that(1))
  next
    case False
    then show thesis
      using assms(2) that(2,3) by (cases "hd (trim_string (sn_input s)) = CHR ''/''") (simp_all add: submit_def Let_def)
  qed
  then show ?thesis
  proof cases
    case 1
    then show ?thesis using core_ok assms(1) by blast
  next
    case 2
    then have "core s' = core s" using keeps_handle by (fastforce simp: keeps_core_def core_frame)
    then show ?thesis using core_ok assms(1) by blast
  next
    case 3
    let ?u = "show_line (prompt_line (trim_string (sn_input s)))
        (record_history (trim_string (sn_input s)) (s\<lparr>sn_input := [], sn_cursor := 0\<rparr>))"
    have "screen_ok (record_history (trim_string (sn_input s)) (s\<lparr>sn_input := [], sn_cursor := 0\<rparr>))"
      using assms(1) core_ok[of "s\<lparr>sn_input := [], sn_cursor := 0\<rparr>" s] by (intro record_ok) (simp add: core_frame)
    then have u: "screen_ok ?u" using core_ok core_frame(13) by blast
    have "\<not> sn_busy ?u" using 3(1) by (simp add: show_line_def record_history_def Let_def)
    with u show ?thesis unfolding 3(2)
      by (simp add: screen_ok_def turns_ok_def running_def run_turn_async_def history_ok_def completion_ok_def)
  qed
qed


lemma refreshed_commands: "set (sn_choices (refresh_suggestions s)) \<subseteq> set command_choices"
  unfolding refresh_choices using suggestion_is_command by blast

lemma enter_ok:
  assumes "screen_ok s" "enter_command env s = Inr (r, s')"
  shows "screen_ok s'"
proof -
  let ?r = "refresh_suggestions s"
  have r: "screen_ok ?r" by (rule refresh_ok[OF assms(1)])
  have a: "screen_ok (accept_suggestion ?r)" by (rule accept_ok[OF r refreshed_commands])
  consider "s' = ?r" | "s' = accept_suggestion ?r" | "submit env (accept_suggestion ?r) = Inr s'" | "submit env ?r = Inr s'"
    using assms(2) by (auto simp: enter_command_def Let_def split: if_split_asm dest!: bind_Inr)
  then show ?thesis using r a submit_ok by cases auto
qed

lemma complete_ok:
  assumes "screen_ok s" "complete_event env k s = Inr (r, s')"
  shows "screen_ok s'"
proof -
  consider "s' = s" | "s' = refresh_suggestions s" | "s' = accept_suggestion (refresh_suggestions s)"
    | dir b where "cycle_suggestion dir s = (b, s')" | "enter_command env s = Inr (r, s')"
    using assms(2) by (cases k) (auto simp: complete_event_def Let_def split: if_split_asm prod.split_asm bool.split_asm)
  then show ?thesis
  proof cases
    case 3
    then show ?thesis using accept_ok[OF refresh_ok[OF assms(1)] refreshed_commands] by simp
  next
    case (4 dir b)
    then show ?thesis using cycle_ok[OF assms(1), of dir] by simp
  qed (use assms(1) refresh_ok enter_ok in auto)
qed

lemma event_ok:
  assumes "screen_ok s" "screen_event env k s = Inr (r, s')"
  shows "screen_ok s'"
proof -
  let ?u = "s\<lparr>sn_armed := False\<rparr>"
  have u: "screen_ok ?u" using assms(1) core_ok core_frame(5) by blast
  consider "core s' = core s" | "complete_event env k s = Inr (r, s')" | "complete_event env k ?u = Inr (r, s')"
  proof (cases "cn_active (sn_dialog s)")
    case True
    then have "s' = snd (connect_event k s)" using assms(2) by (simp add: screen_event_def)
    then show thesis using that(1) core_commands(8) by blast
  next
    case False
    show thesis
    proof (cases k)
      case (SkScroll x)
      then have "s' = snd (scroll_screen x s)" using assms(2) False by (simp add: screen_event_def)
      then show thesis using that(1) core_commands(7) by blast
    qed (use False assms(2) that core_frame in
        \<open>auto simp: screen_event_def Let_def core_frame split: if_split_asm\<close>)
  qed
  then show ?thesis using core_ok assms(1) complete_ok u by cases blast+
qed

lemma history_moves_ok: "screen_ok s \<Longrightarrow> screen_ok (history_previous s)" "screen_ok s \<Longrightarrow> screen_ok (history_next s)"
  by (auto simp: history_previous_def history_next_def recall_def Let_def screen_ok_def turns_ok_def running_def
      completion_ok_def history_ok_def split: option.splits)

lemma step_ok: "screen_step env s s' \<Longrightarrow> screen_ok s \<Longrightarrow> screen_ok s'"
proof (induction rule: screen_step.induct)
  case (draw s)
  then show ?case using refresh_ok core_ok core_frame(1) by blast
next
  case (turn_flush s xs p ys)
  then show ?case by (auto simp: screen_ok_def turns_ok_def running_def completion_ok_def history_ok_def)
next
  case (turn_release s xs p ys)
  then show ?case by (auto simp: screen_ok_def turns_ok_def running_def completion_ok_def history_ok_def split: if_splits)
next
  case (turn_disarm s xs p ys)
  then show ?case by (auto simp: screen_ok_def turns_ok_def running_def completion_ok_def history_ok_def)
next
  case (save s)
  then show ?case using core_ok core_commands(5) by blast
qed (use event_ok submit_ok history_moves_ok in \<open>auto simp: core_frame dest: core_ok[rotated] intro: core_ok[THEN iffD2, rotated]\<close>)


lemma new_ok: "screen_ok (new_screen a b fs)"
  by (simp add: new_screen_def screen_ok_def turns_ok_def running_def completion_ok_def history_ok_def)

lemma screen_reachable_ok: "screen_reachable env s \<Longrightarrow> screen_ok s"
  unfolding screen_reachable_def
proof (elim exE)
  fix a b fs
  assume "(screen_step env)\<^sup>*\<^sup>* (new_screen a b fs) s"
  then show "screen_ok s" by (induction rule: rtranclp_induct) (simp_all add: new_ok step_ok)
qed

text \<open>C37: turns never overlap: at any time one thread is running a turn while the screen is busy, and none
  while it is idle, however keys, commands and the threads' own steps interleave.\<close>

theorem turns_do_not_overlap:
  assumes "screen_reachable env s"
  shows "running s = (if sn_busy s then 1 else 0)"
  using screen_reachable_ok[OF assms] by (simp add: screen_ok_def turns_ok_def)

text \<open>every index the screen reads a list at is in range: the highlighted suggestion after the
  suggestions are computed afresh, and the place in the history, which holds 200 prompts at most.\<close>

theorem screen_reads_in_range:
  assumes "screen_reachable env s"
  shows "(sn_choices (refresh_suggestions s) = [] \<or>
      sn_index (refresh_suggestions s) < length (sn_choices (refresh_suggestions s))) \<and>
    length (sn_history s) \<le> 200 \<and> (case sn_pos s of None \<Rightarrow> True | Some i \<Rightarrow> i < length (sn_history s))"
  using screen_reachable_ok[OF assms] refresh_index(1)[of s] by (auto simp: screen_ok_def history_ok_def split: option.split)

section \<open>Recalling prompts\<close>

lemma previous_at:
  assumes "sn_pos s = None" "0 < k" "k \<le> length (sn_history s)"
  shows "(history_previous ^^ k) s =
    s\<lparr>sn_pos := Some (length (sn_history s) - k), sn_draft := sn_input s,
      sn_input := sn_history s ! (length (sn_history s) - k),
      sn_cursor := int (length (sn_history s ! (length (sn_history s) - k)))\<rparr>"
  using assms
proof (induction k)
  case (Suc k)
  show ?case
  proof (cases "k = 0")
    case True
    with Suc.prems show ?thesis by (auto simp: history_previous_def recall_def Let_def)
  next
    case False
    with Suc show ?thesis by (simp add: history_previous_def recall_def)
  qed
qed simp

lemma next_at:
  assumes "sn_pos s = Some i" "i + k < length (sn_history s)"
  shows "\<exists>t c. (history_next ^^ k) s = s\<lparr>sn_pos := Some (i + k), sn_input := t, sn_cursor := c\<rparr>"
  using assms(2)
proof (induction k)
  case 0
  show ?case using assms(1) by (intro exI[of _ "sn_input s"] exI[of _ "sn_cursor s"]) simp
next
  case (Suc k)
  then obtain t c where "(history_next ^^ k) s = s\<lparr>sn_pos := Some (i + k), sn_input := t, sn_cursor := c\<rparr>" by auto
  from this Suc.prems show ?case
    unfolding funpow.simps comp_apply by (auto simp only:) (auto simp: history_next_def recall_def)
qed

text \<open>the \<open>k\<close>-th Up shows the \<open>k\<close>-th last prompt, and as many Downs bring back what was being typed.\<close>

theorem history_recalls_prompts:
  assumes "sn_pos s = None" "0 < k" "k \<le> length (sn_history s)"
  shows "sn_input ((history_previous ^^ k) s) = rev (sn_history s) ! (k - 1) \<and>
    sn_input ((history_next ^^ k) ((history_previous ^^ k) s)) = sn_input s \<and>
    sn_pos ((history_next ^^ k) ((history_previous ^^ k) s)) = None"
proof -
  let ?u = "(history_previous ^^ k) s"
  note u = previous_at[OF assms]
  obtain k' where k: "k = Suc k'" using assms(2) by (cases k) auto
  have "sn_pos ?u = Some (length (sn_history s) - k)" "length (sn_history s) - k + k' < length (sn_history ?u)"
    using assms u k by simp_all
  from next_at[OF this] obtain t c where
    "(history_next ^^ k') ?u = ?u\<lparr>sn_pos := Some (length (sn_history s) - k + k'), sn_input := t, sn_cursor := c\<rparr>" by auto
  moreover have "length (sn_history s) - k + k' + 1 = length (sn_history s)" using assms(3) k by simp
  moreover have "(history_next ^^ k) ?u = history_next ((history_next ^^ k') ?u)" using k by simp
  ultimately show ?thesis
    using assms u by (simp add: history_next_def recall_def rev_nth)
qed

section \<open>Commands that are typed out\<close>

lemma dropWhile_word:
  assumes "w \<noteq> []" "\<not> P (hd w)" "\<not> P (last w)"
  shows "rev (dropWhile P (rev (dropWhile P (w @ r)))) = w @ rev (dropWhile P (rev r))"
proof -
  have "dropWhile P (w @ r) = w @ r" using assms(1,2) by (cases w) simp_all
  moreover have "dropWhile P (rev r @ rev w) = dropWhile P (rev r) @ rev w"
  proof (cases "\<forall>c\<in>set (rev r). P c")
    case True
    then have "dropWhile P (rev r) = []" by (simp only: dropWhile_eq_Nil_conv)
    moreover have "dropWhile P (rev w) = rev w" using assms(1,3) by (cases w rule: rev_cases) simp_all
    moreover have "dropWhile P (rev r @ rev w) = dropWhile P (rev w)" using True by (intro dropWhile_append2) auto
    ultimately show ?thesis by (simp only: append_Nil)
  next
    case False
    then show ?thesis by (meson dropWhile_append1)
  qed
  ultimately show ?thesis by simp
qed

lemma trim_string_word:
  "w \<noteq> [] \<Longrightarrow> trim_string w = w \<Longrightarrow> trim_string (w @ r) = w @ rev (dropWhile (\<lambda>c. c \<in> set [CHR '' '', tab, cr, nl]) (rev r))"
  unfolding trim_string_def trim_of_def[of _ "w @ r"]
  using trim_of_hd[of "[CHR '' '', tab, cr, nl]" w] trim_of_last[of "[CHR '' '', tab, cr, nl]" w]
  by (intro dropWhile_word) simp_all

lemma prefix_of_input_hd:
  "prefix_of_input s = (let t = trim_string s in
     if t = [] \<or> hd t \<noteq> CHR ''/'' then [] else case split_at (CHR '' '') t of None \<Rightarrow> t | Some (w, _) \<Rightarrow> w)"
  by (simp add: prefix_of_input_def Let_def split: list.split del: split_at.simps)

lemma typed_prefix:
  assumes "w \<in> set command_choices" "rest = [] \<or> hd rest = CHR '' ''"
  shows "prefix_of_input (w @ rest) = w"
proof -
  have w: "w \<noteq> []" "hd w = CHR ''/''" "trim_string w = w" "split_at (CHR '' '') w = None"
    using choice_facts assms(1) by (auto simp: list_all_iff)
  define r where "r = rev (dropWhile (\<lambda>c. c \<in> set [CHR '' '', tab, cr, nl]) (rev rest))"
  have "suffix (dropWhile (\<lambda>c. c \<in> set [CHR '' '', tab, cr, nl]) (rev rest)) (rev rest)" by (rule suffix_dropWhile)
  then have "prefix r rest" unfolding r_def by (simp add: suffix_to_prefix)
  then have "r = [] \<or> hd r = CHR '' ''" using assms(2) by (cases r; cases rest) auto
  moreover have "split_at (CHR '' '') (w @ CHR '' '' # x) = Some (w, x)" for x
    using w(4) by (simp add: split_at_Some split_at_None)
  ultimately have "(case split_at (CHR '' '') (w @ r) of None \<Rightarrow> w @ r | Some (v, _) \<Rightarrow> v) = w"
    using w(4) by (cases r) auto
  moreover define t where "t = w @ r"
  moreover have "trim_string (w @ rest) = w @ r" unfolding r_def by (rule trim_string_word[OF w(1,3)])
  moreover have "w @ r \<noteq> []" "hd (w @ r) = CHR ''/''" using w(1,2) by simp_all
  ultimately have "trim_string (w @ rest) = t" "t \<noteq> []" "hd t = CHR ''/''"
    "(case split_at (CHR '' '') t of None \<Rightarrow> t | Some (v, _) \<Rightarrow> v) = w" unfolding t_def by blast+
  then show ?thesis by (simp add: prefix_of_input_hd)
qed

lemma no_longer_command: "list_all (\<lambda>v. list_all (\<lambda>w. prefix w v = (v = w)) command_choices) command_choices"
  by code_simp


lemma submitted_command:
  assumes "\<not> sn_busy s" "trim_string (sn_input s) \<noteq> []" "hd (trim_string (sn_input s)) = CHR ''/''"
  shows "submit env s = handle_command env (trim_string (sn_input s)) (s\<lparr>sn_input := [], sn_cursor := 0\<rparr>)"
  using assms by (simp add: submit_def Let_def)

text \<open>What completion may change of a screen.\<close>

lemma refresh_update: "\<exists>k i cs. refresh_suggestions s = s\<lparr>sn_key := k, sn_index := i, sn_choices := cs\<rparr>"
  by (intro exI[of _ "sn_key (refresh_suggestions s)"] exI[of _ "sn_index (refresh_suggestions s)"]
      exI[of _ "sn_choices (refresh_suggestions s)"]) (simp add: refresh_suggestions_def Let_def)

lemma accept_update:
  assumes "sn_index s < length (sn_choices s)"
  shows "\<exists>cs. accept_suggestion s = s\<lparr>sn_input := sn_choices s ! sn_index s,
    sn_cursor := int (length (sn_choices s ! sn_index s)), sn_key := sn_choices s ! sn_index s, sn_index := 0, sn_choices := cs\<rparr>"
proof -
  have "sn_choices s \<noteq> []" using assms by auto
  then have acc: "accept_suggestion s = (let s1 = s\<lparr>sn_input := sn_choices s ! sn_index s,
      sn_cursor := int (length (sn_choices s ! sn_index s)), sn_key := sn_choices s ! sn_index s, sn_index := 0\<rparr>
    in s1\<lparr>sn_choices := current_suggestions s1\<rparr>)"
    using assms by (simp add: accept_suggestion_def Let_def)
  show ?thesis unfolding acc Let_def by (rule exI) (rule refl)
qed

lemma submit_update:
  assumes "u = s\<lparr>sn_input := sn_input s, sn_cursor := c, sn_key := k, sn_index := i, sn_choices := cs\<rparr>"
    and "\<not> sn_busy s" "trim_string (sn_input s) \<noteq> []" "hd (trim_string (sn_input s)) = CHR ''/''"
  shows "\<exists>k i cs. submit env u = handle_command env (trim_string (sn_input s))
    (s\<lparr>sn_input := [], sn_cursor := 0, sn_key := k, sn_index := i, sn_choices := cs\<rparr>)"
proof -
  have u: "sn_busy u = sn_busy s" "sn_input u = sn_input s"
    "u\<lparr>sn_input := [], sn_cursor := 0\<rparr> =
       s\<lparr>sn_input := [], sn_cursor := 0, sn_key := k, sn_index := i, sn_choices := cs\<rparr>"
    unfolding assms(1) by simp_all
  have "submit env u = handle_command env (trim_string (sn_input s)) (u\<lparr>sn_input := [], sn_cursor := 0\<rparr>)"
    by (rule submitted_command[of u env, unfolded u(1,2), OF assms(2-4)])
  then show ?thesis unfolding u(3) by blast
qed

text \<open>No command continues another one, with or without arguments.\<close>

lemma not_continued:
  assumes "w \<in> set command_choices" "sel \<in> set command_choices" "sel \<noteq> w @ rest"
  shows "\<not> starts_with sel (w @ rest)"
proof
  assume "starts_with sel (w @ rest)"
  then have p: "prefix (w @ rest) sel" by (simp add: starts_with_def)
  then have "prefix w sel" by (simp add: prefix_def) blast
  then have "sel = w" using no_longer_command assms(1,2) by (simp add: list_all_iff)
  with p assms(3) show False by (simp add: prefix_def)
qed

text \<open>C39: Enter on a command that is typed out, alone or with arguments, runs what was typed, whatever
  suggestion is highlighted; only the state of the completion changes besides.\<close>

theorem enter_runs_typed_command:
  assumes "screen_reachable env s" "\<not> cn_active (sn_dialog s)" "\<not> sn_busy s"
    and "sn_input s = w @ rest" "w \<in> set command_choices" "rest = [] \<or> hd rest = CHR '' ''"
  shows "\<exists>k i cs. screen_event env SkReturn s =
    bind_outcome (handle_command env (trim_string (sn_input s))
      (s\<lparr>sn_input := [], sn_cursor := 0, sn_key := k, sn_index := i, sn_choices := cs\<rparr>)) (\<lambda>s'. Inr (Handled, s'))"
proof -
  define r where "r = refresh_suggestions s"
  have w: "w \<noteq> []" "hd w = CHR ''/''" "trim_string w = w"
    using choice_facts assms(5) by (auto simp: list_all_iff)
  obtain k0 i0 c0 where r: "r = s\<lparr>sn_key := k0, sn_index := i0, sn_choices := c0\<rparr>"
    unfolding r_def using refresh_update[of s] by blast
  have "command_prefix s = w" using typed_prefix[OF assms(5,6)] assms(4) by (simp add: command_prefix_def)
  then have choices: "sn_choices r = suggestions_for w" by (simp add: r_def refresh_choices)
  then have ne: "sn_choices r \<noteq> []" using choices_self assms(5) by force
  define sel where "sel = sn_choices r ! sn_index r"
  have index: "sn_index r < length (sn_choices r)"
    using refresh_index(1)[of s] screen_reachable_ok[OF assms(1)] ne by (simp add: r_def screen_ok_def)
  then have sel: "sel \<in> set command_choices" using suggestion_is_command choices nth_mem unfolding sel_def by metis
  have typed: "trim_string (sn_input s) \<noteq> []" "hd (trim_string (sn_input s)) = CHR ''/''"
    using trim_string_word[OF w(1,3), of rest] w(1,2) by (simp_all add: assms(4))
  have "\<exists>u c k i cs. screen_event env SkReturn s = bind_outcome (submit env u) (\<lambda>s'. Inr (Handled, s')) \<and>
      u = s\<lparr>sn_input := sn_input s, sn_cursor := c, sn_key := k, sn_index := i, sn_choices := cs\<rparr>"
  proof -
    have event: "screen_event env SkReturn s = enter_command env s"
      using assms(2,3,4) w(1,2) by (simp add: screen_event_def complete_event_def Let_def)
    have input: "sn_input r = sn_input s" by (simp add: r)
    show ?thesis
    proof (cases "sel = sn_input s")
      case True
      obtain cs where cs: "accept_suggestion r = r\<lparr>sn_input := sn_input s, sn_cursor := int (length (sn_input s)),
          sn_key := sn_input s, sn_index := 0, sn_choices := cs\<rparr>"
        using accept_update[OF index] True unfolding sel_def by metis
      have "screen_event env SkReturn s = bind_outcome (submit env (accept_suggestion r)) (\<lambda>s'. Inr (Handled, s'))"
        using event ne True input by (simp add: enter_command_def r_def[symmetric] sel_def[symmetric])
      moreover have "accept_suggestion r = s\<lparr>sn_input := sn_input s, sn_cursor := int (length (sn_input s)),
          sn_key := sn_input s, sn_index := 0, sn_choices := cs\<rparr>" unfolding cs by (simp add: r)
      ultimately show ?thesis by (intro exI conjI)
    next
      case False
      then have "\<not> starts_with sel (sn_input s)" using not_continued[OF assms(5) sel] by (simp add: assms(4))
      then have "screen_event env SkReturn s = bind_outcome (submit env r) (\<lambda>s'. Inr (Handled, s'))"
        using event ne False input by (simp add: enter_command_def r_def[symmetric] sel_def[symmetric])
      moreover have "r = s\<lparr>sn_input := sn_input s, sn_cursor := sn_cursor s, sn_key := k0, sn_index := i0,
          sn_choices := c0\<rparr>" by (simp add: r)
      ultimately show ?thesis by (intro exI conjI)
    qed
  qed
  then show ?thesis using submit_update assms(3) typed by metis
qed

section \<open>Connecting\<close>

lemma selected_openrouter: "selected_provider s = Some \<lparr>pi_id = ''openrouter'', pi_display_name = ''OpenRouter''\<rparr>"
  by (simp add: selected_provider_def supported_providers_def Let_def)

text \<open>saving in the dialog closes it, hands the trimmed key to the agent and stores it, so that the
  dialog opened again knows the provider and that a key is saved.\<close>

theorem connect_stores_credentials:
  assumes "trim_string (cn_key (sn_dialog s)) = key" "key \<noteq> []"
    and "save_credentials (se_dump env) (se_save env) (se_home env) ''openrouter'' key (sn_files s) = (True, fs)"
    and "se_parse env (se_dump env (credentials_json ''openrouter'' key) @ NL) = Some (credentials_json ''openrouter'' key)"
  shows "\<not> cn_active (sn_dialog (save_connect env s)) \<and>
    sn_agent (save_connect env s) = snd (ao_set_credentials (se_ops env) ''openrouter'' key (sn_agent s)) \<and>
    (\<exists>s'. open_connect env (save_connect env s) = Inr s' \<and> cn_saved (sn_dialog s') = ''openrouter'' \<and>
      cn_has_key (sn_dialog s') \<and> selected_provider s' = selected_provider s)"
proof -
  have saved: "sn_files (save_connect env s) = fs" "\<not> cn_active (sn_dialog (save_connect env s))"
    "sn_agent (save_connect env s) = snd (ao_set_credentials (se_ops env) ''openrouter'' key (sn_agent s))"
    using assms(1-3)
    by (simp_all add: save_connect_def selected_openrouter Let_def close_connect_def change_dialog_def show_block_def)
  have "load_credentials (se_parse env) (se_home env) fs = Inr (True, ''openrouter'', key)"
    using save_credentials_file[OF assms(3)] assms(4)
    by (simp add: load_credentials_def credentials_json_def jobj_def value_of_def om_get_def)
  with saved assms(2) show ?thesis by (simp add: open_connect_def selected_openrouter)
qed

text \<open>A save that fails leaves the dialog, the stored credentials and the agent as they were.\<close>

lemma failed_connect_changes_nothing:
  assumes "save_credentials (se_dump env) (se_save env) (se_home env) ''openrouter'' (trim_string (cn_key (sn_dialog s))) (sn_files s)
    = (False, fs)"
  shows "sn_dialog (save_connect env s) = sn_dialog s \<and> sn_agent (save_connect env s) = sn_agent s \<and>
    sn_files (save_connect env s) (auth_file_path (se_home env)) = sn_files s (auth_file_path (se_home env))"
proof -
  have "fs (auth_file_path (se_home env)) = sn_files s (auth_file_path (se_home env))"
    using assms by (auto simp: save_credentials_def Let_def split: if_splits)
  with assms show ?thesis by (simp add: save_connect_def selected_openrouter Let_def show_line_def)
qed

section \<open>The agent the screen drives\<close>

text \<open>What the screen relies on: \<open>set_model\<close> is what \<open>model\<close> answers next, and nothing else it calls
  changes the model.\<close>

locale agent_facade =
  fixes ops :: "'a agent_ops"
  assumes model_set: "ao_model ops (ao_set_model ops m a) = m"
    and model_tool: "ao_model ops (snd (ao_tool ops n a)) = ao_model ops a"
    and model_clear: "ao_model ops (ao_clear ops a) = ao_model ops a"
    and model_credentials: "ao_model ops (snd (ao_set_credentials ops p k a)) = ao_model ops a"
    and model_cancel: "ao_model ops (ao_cancel ops a) = ao_model ops a"
    and model_send: "ao_model ops (snd (po_send (ao_peer ops) to t a)) = ao_model ops a"
    and model_request: "ao_model ops (snd (po_request (ao_peer ops) a)) = ao_model ops a"
begin

lemmas model_laws = model_set model_tool model_clear model_credentials model_cancel model_send model_request

lemma model_command_sets:
  assumes "se_ops env = ops" "trim_string (drop 6 cmd) \<noteq> []"
  shows "ao_model ops (sn_agent (model_command env cmd s)) = trim_string (drop 6 cmd) \<and>
    sn_view (model_command env cmd s) =
      append_one (cyan_bold (''model set to: '' @ trim_string (drop 6 cmd))) (sn_view s)"
  using assms by (simp add: model_command_def Let_def show_line_def model_laws)

lemma tools_command_keeps: "se_ops env = ops \<Longrightarrow>
    ao_model ops (sn_agent (tools_command env cmd s)) = ao_model ops (sn_agent s)"
  using model_tool[of "trim_string (drop 6 cmd)" "sn_agent s"]
  by (auto simp: tools_command_def Let_def show_block_def split: prod.split option.split)

lemma msg_command_keeps: "se_ops env = ops \<Longrightarrow>
    ao_model ops (sn_agent (msg_command env cmd s)) = ao_model ops (sn_agent s)"
  by (simp add: msg_command_def Let_def show_line_def model_laws split: option.split prod.split)

lemma agents_command_keeps:
  assumes "se_ops env = ops" "agents_command env s = Inr s'"
  shows "ao_model ops (sn_agent s') = ao_model ops (sn_agent s)"
  using assms(2) model_request[of "sn_agent s"] unfolding assms(1)[symmetric]
  by (auto simp: agents_command_def Let_def show_line_def show_block_def split: if_split_asm dest!: bind_Inr)

lemma save_connect_keeps: "se_ops env = ops \<Longrightarrow>
    ao_model ops (sn_agent (save_connect env s)) = ao_model ops (sn_agent s)"
  by (simp add: save_connect_def selected_openrouter Let_def close_connect_def change_dialog_def show_line_def show_block_def
      model_laws split: prod.split)

end

interpretation remote_facade: agent_facade "remote_agent_ops ok" for ok
  by unfold_locales
    (auto simp: remote_agent_ops_def remote_set_model_def remote_tool_def remote_clear_def remote_set_credentials_def
      remote_cancel_def remote_ops_def remote_send_message_def remote_request_peers_def client_send_model_def
      client_send_clear_def client_send_auth_def client_send_cancel_def client_send_message_def client_request_peers_def
      send_frame_def Let_def split: option.split)

text \<open>\<open>/model\<close> on the remote agent: the model is the trimmed argument, and the line shown says so.\<close>

lemma remote_model_command:
  assumes "se_ops env = remote_agent_ops ok" "trim_string (drop 6 cmd) \<noteq> []"
  shows "ra_model (sn_agent (model_command env cmd s)) = trim_string (drop 6 cmd)"
  using remote_facade.model_command_sets[OF assms, of s] by (simp add: remote_agent_ops_def)

section \<open>Status line\<close>

text \<open>\<open>ctx\<close> and \<open>used\<close> are \<open>int\<close>; the percentage beside the bar is a \<open>double\<close> and left out.\<close>

definition bar_filled :: "int \<Rightarrow> int \<Rightarrow> nat" where
  "bar_filled used ctx =
     (let f = sgn (to_int32 (used * 12)) * sgn ctx * (\<bar>to_int32 (used * 12)\<bar> div \<bar>ctx\<bar>) in nat (min 12 (max 0 f)))"

definition context_bar :: "int \<Rightarrow> int \<Rightarrow> string" where
  "context_bar used ctx =
     (let f = bar_filled used ctx in
      concat (replicate f [CHR 0xE2, CHR 0x96, CHR 0x88]) @ concat (replicate (12 - f) [CHR 0xE2, CHR 0x96, CHR 0x91]))"

definition loading_cell :: "nat \<Rightarrow> nat \<Rightarrow> string" where
  "loading_cell i pos =
     (let d = (if i < pos then pos - i else i - pos) in
      [CHR 0xE2, CHR 0x96, if d = 0 then CHR 0x88 else if d = 1 then CHR 0x93 else if d = 2 then CHR 0x92 else CHR 0x91])"

definition loading_bar :: "nat \<Rightarrow> string" where
  "loading_bar phase =
     (let cells = 8; period = 2 * (cells - 1); t = phase mod period;
          pos = (if t < cells then t else period - t) in
      concat (map (\<lambda>i. loading_cell i pos) [0..<cells]) @ '' typing'')"

definition format_tokens :: "nat \<Rightarrow> string" where
  "format_tokens n =
     (if 1000000 \<le> n then nat_str (n div 1000000) @ ''.'' @ nat_str (n div 100000 mod 10) @ ''m''
      else if 1000 \<le> n then nat_str (n div 1000) @ ''.'' @ nat_str (n div 100 mod 10) @ ''k''
      else nat_str n)"

lemma context_bar_length: "length (context_bar used ctx) = 36"
proof -
  have "bar_filled used ctx \<le> 12" by (simp add: bar_filled_def Let_def)
  moreover have "length (concat (replicate n xs)) = n * length xs" for n and xs :: string by (induction n) simp_all
  ultimately show ?thesis by (simp add: context_bar_def Let_def)
qed

section \<open>Examples\<close>

definition demo_peer :: "nat peer_ops" where
  "demo_peer = \<lparr>po_connected = (\<lambda>_. True), po_knows = (\<lambda>_ _. True), po_send = (\<lambda>_ _ a. (False, a)),
     po_request = (\<lambda>a. (True, a)), po_peers = (\<lambda>_. [])\<rparr>"

definition demo_ops :: "nat agent_ops" where
  "demo_ops = \<lparr>ao_model = (\<lambda>_. ''m''), ao_set_model = (\<lambda>_ a. a), ao_tools = (\<lambda>_. []), ao_tool = (\<lambda>_ a. (None, a)),
     ao_clear = (\<lambda>a. a), ao_set_credentials = (\<lambda>_ _ a. (True, a + 1)), ao_cancel = (\<lambda>a. a), ao_peer = demo_peer\<rparr>"

definition demo_env :: "nat screen_env" where
  "demo_env = \<lparr>se_ops = demo_ops, se_dump = (\<lambda>_. ''{..}''), se_parse = (\<lambda>_. Some (credentials_json ''openrouter'' ''k'')),
     se_home = None, se_save = \<lparr>sv_dirs_ok = True, sv_open_ok = True, sv_write_ok = True, sv_rename_ok = True\<rparr>\<rparr>"

definition demo_screen :: "string \<Rightarrow> nat screen" where
  "demo_screen t = (new_screen 0 demo_box Map.empty)\<lparr>sn_input := t, sn_cursor := 0\<rparr>"

lemma demo_reachable: "screen_reachable demo_env (demo_screen t)"
  unfolding screen_reachable_def demo_screen_def by (intro exI) (rule r_into_rtranclp, rule screen_step.edit)

definition prompted :: "nat screen" where
  "prompted = (case submit demo_env (demo_screen '' hi '') of Inr s \<Rightarrow> s | Inl _ \<Rightarrow> demo_screen [])"

lemma prompted_reachable: "screen_reachable demo_env prompted"
proof -
  have "(case submit demo_env (demo_screen '' hi '') of Inr s \<Rightarrow> True | Inl _ \<Rightarrow> False)" by code_simp
  then have "submit demo_env (demo_screen '' hi '') = Inr prompted"
    unfolding prompted_def by (cases "submit demo_env (demo_screen '' hi '')") simp_all
  then have "screen_step demo_env (demo_screen '' hi '') prompted" by (rule screen_step.enter)
  then show ?thesis using demo_reachable[of "'' hi ''"] unfolding screen_reachable_def by (meson rtranclp.rtrancl_into_rtrancl)
qed

lemma turns_do_not_overlap_witness: "sn_threads prompted = [(''hi'', InTurn)] \<and> running prompted = 1"
proof -
  have "sn_busy prompted" "sn_threads prompted = [(''hi'', InTurn)]" by code_simp+
  with turns_do_not_overlap[OF prompted_reachable] show ?thesis by simp
qed

lemma screen_reads_in_range_witness:
  "sn_index (refresh_suggestions (demo_screen ''/m'')) < length (sn_choices (refresh_suggestions (demo_screen ''/m'')))"
proof -
  have "sn_choices (refresh_suggestions (demo_screen ''/m'')) \<noteq> []" by code_simp
  with screen_reads_in_range[OF demo_reachable[of "''/m''"]] show ?thesis by simp
qed

lemma history_recalls_prompts_witness: "sn_input (history_previous prompted) = ''hi''"
proof -
  have "sn_pos prompted = None" "sn_history prompted = [''hi'']" by code_simp+
  with history_recalls_prompts[of prompted 1] show ?thesis by simp
qed

lemma enter_runs_typed_command_witness:
  "\<exists>s'. screen_event demo_env SkReturn (demo_screen ''/exit'') = Inr (Handled, s') \<and> sn_exit s'"
proof -
  have a: "\<not> cn_active (sn_dialog (demo_screen ''/exit''))" "\<not> sn_busy (demo_screen ''/exit'')"
    "sn_input (demo_screen ''/exit'') = ''/exit'' @ []" "''/exit'' \<in> set command_choices"
    by (simp_all add: demo_screen_def new_screen_def command_choices_def)
  have "trim_string ''/exit'' = ''/exit''" by code_simp
  with enter_runs_typed_command[OF demo_reachable a, of] show ?thesis
    using a(3) by (auto simp: handle_command_def starts_with_def)
qed

lemma connect_stores_credentials_witness:
  "sn_agent (save_connect demo_env (demo_screen []\<lparr>sn_dialog := (sn_dialog (demo_screen []))\<lparr>cn_key := ''k ''\<rparr>\<rparr>)) = 1"
proof -
  let ?s = "demo_screen []\<lparr>sn_dialog := (sn_dialog (demo_screen []))\<lparr>cn_key := ''k ''\<rparr>\<rparr>"
  have k: "trim_string (cn_key (sn_dialog ?s)) = ''k''" by code_simp
  let ?r = "save_credentials (se_dump demo_env) (se_save demo_env) (se_home demo_env) ''openrouter'' ''k'' (sn_files ?s)"
  have "fst ?r = True" by code_simp
  then have r: "?r = (True, snd ?r)" by (simp add: prod_eq_iff)
  have p: "se_parse demo_env (se_dump demo_env (credentials_json ''openrouter'' ''k'') @ NL) = Some (credentials_json ''openrouter'' ''k'')"
    by (simp add: demo_env_def)
  have "sn_agent ?s = 0" by code_simp
  with connect_stores_credentials[OF k _ r p] show ?thesis by (simp add: demo_env_def demo_ops_def)
qed

section \<open>What the screen does that it does not mean to\<close>

text \<open>A suggestion found by its description is highlighted, but Enter runs the letters typed: on \<open>/e\<close> with
  \<open>/connect\<close> highlighted it is an unknown command. The example \<open>/mg\<close> is completed to nothing.\<close>

lemma enter_ignores_the_highlight:
  "hd (suggestions_for ''/e'') = ''/connect''"
  "(case screen_event demo_env SkReturn (demo_screen ''/e'') of
      Inr (Handled, s) \<Rightarrow> map text_of_row (tx_lines (sn_view s)) | _ \<Rightarrow> []) =
   [[], ''  unknown command: '' @ [squote] @ ''/e'' @ [squote] @ ''   (try /help)'', []]"
  by code_simp+

lemma partial_word_example: "suggestions_for ''/mg'' = []"
  by code_simp

text \<open>Anything that begins with \<open>/model\<close> sets the model: \<open>/models\<close> sets it to \<open>s\<close>.\<close>

lemma models_sets_the_model: "handle_command env ''/models'' s = Inr (model_command env ''/models'' s)"
  by (simp add: handle_command_def starts_with_def)

lemma models_argument: "trim_string (drop 6 ''/models'') = ''s''"
  by code_simp

text \<open>A message is reported as sent when sending it failed.\<close>

lemma failed_message_is_reported_sent:
  "map text_of_row (tx_lines (sn_view (msg_command demo_env ''/msg all hi'' (demo_screen [])))) = [[], ''msg sent to all'', []]"
  by code_simp

text \<open>The armed Escape does not time out: a second Escape cancels however long after the first it comes.\<close>

lemma armed_until_used:
  "sn_armed (escape_busy env s) = (\<not> sn_armed s)" "sn_armed (show_line l s) = sn_armed s"
  "sn_armed (snd (scroll_screen k s)) = sn_armed s"
  by (simp_all add: escape_busy_def show_line_def scroll_screen_def split: prod.split)

end
