(* ===== verification/Tui_View.thy ===== *)
theory Tui_View
  imports Tui_Screen
begin

text \<open>
  What is drawn (\<open>src/tui/tui.cpp\<close>): the tree of elements that \<open>OnRender\<close> builds from the state of the
  screen. An element of the component library is a constructor; how the library lays a tree out on the
  terminal is not modelled, nor are its menu (an argument) and the focus.
\<close>

section \<open>Elements\<close>

datatype ink = Ink md_color | GreenLight | GrayDark

datatype decor =
    Bold | Dim | Italic | Inverted | Coloured ink
  | Flex | Frame | Indicator | Reflected | Rounded | ClearUnder | Centred
  | HeightOf nat | WiderThan nat | NarrowerThan nat

datatype element =
    Label string
  | Paragraph string
  | Filler
  | Separator
  | Deco decor element
  | HBox "element list"
  | VBox "element list"
  | Layers "element list"

fun texts :: "element \<Rightarrow> string list" where
  "texts (Label t) = [t]"
| "texts (Paragraph t) = [t]"
| "texts Filler = []"
| "texts Separator = []"
| "texts (Deco d e) = texts e"
| "texts (HBox es) = concat (map texts es)"
| "texts (VBox es) = concat (map texts es)"
| "texts (Layers es) = concat (map texts es)"

abbreviation inked :: "md_color \<Rightarrow> element \<Rightarrow> element" where
  "inked c e \<equiv> Deco (Coloured (Ink c)) e"

abbreviation dimmed :: "string \<Rightarrow> element" where
  "dimmed t \<equiv> Deco Dim (Label t)"

definition decorated :: "decor \<Rightarrow> bool \<Rightarrow> element \<Rightarrow> element" where
  "decorated d c e = (if c then Deco d e else e)"

section \<open>Rows\<close>

definition styled :: "md_span \<Rightarrow> element \<Rightarrow> element" where
  "styled sp e =
     decorated (Coloured (Ink (sp_color sp))) (sp_color sp \<noteq> ColDefault)
       (decorated Italic (sp_italic sp) (decorated Dim (sp_dim sp) (decorated Bold (sp_bold sp) e)))"

definition span_element :: "md_span \<Rightarrow> element" where
  "span_element sp = styled sp (Label (sp_text sp))"

definition gutter_bar :: string where "gutter_bar = [CHR 0xE2, CHR 0x96, CHR 0x8C]"

definition physical_line_element :: "md_line \<Rightarrow> element" where
  "physical_line_element row =
     (if ln_spans row = [] then Label []
      else HBox ((if ln_gutter row then [inked ColBlue (Label gutter_bar), Label '' ''] else []) @
        map span_element (ln_spans row)))"

definition line_element :: "md_line \<Rightarrow> int \<Rightarrow> element" where
  "line_element line width_limit =
     (case ln_spans line of
        [] \<Rightarrow> Label []
      | [sp] \<Rightarrow> styled sp (Paragraph (sp_text sp))
      | _ \<Rightarrow> VBox (map physical_line_element (wrap_line line width_limit)))"

definition transcript_element :: "transcript \<Rightarrow> element \<times> transcript" where
  "transcript_element t =
     (let (t', rows) = draw_transcript t;
          es = map physical_line_element rows
      in (HBox [inked ColDefault (Label '' ''),
            Deco Reflected (Deco Flex (Deco Frame (Deco Indicator (VBox (if es = [] then [Label []] else es))))),
            inked ColDefault (Label '' '')], t'))"

section \<open>The editors\<close>

definition block_glyph :: string where "block_glyph = [CHR 0xE2, CHR 0x96, CHR 0x88]"

definition cell_element :: "cell \<Rightarrow> element" where
  "cell_element c =
     (case c of
        Text t selected \<Rightarrow> decorated Inverted selected (Label t)
      | Caret \<Rightarrow> inked ColWhite (Deco Bold (Label block_glyph)))"

definition editor_element :: "bool \<Rightarrow> editor \<Rightarrow> element outcome" where
  "editor_element masked ed =
     bind_outcome (on_render masked ed) (\<lambda>rows.
       Inr (Deco Reflected (VBox (map (\<lambda>cells. HBox (map cell_element cells)) rows))))"

section \<open>The status line\<close>

text \<open>What the drawing asks the agent, the library's menu, the boxes of the last layout and the phase of the
  animation. An editor carries the anchor and the box of its component; text and cursor are the screen's.\<close>

record 'a view_info =
  vi_provider :: "'a \<Rightarrow> string"
  vi_usage :: "'a \<Rightarrow> int \<times> int"
  vi_menu :: "string list \<Rightarrow> int \<Rightarrow> element"
  vi_prompt :: editor
  vi_key :: editor
  vi_prompt_box :: box
  vi_phase :: nat

definition usage_text :: "int \<Rightarrow> string" where
  "usage_text n = (if n < 0 then int_str n else format_tokens (nat n))"

definition loading_element :: "nat \<Rightarrow> element" where
  "loading_element phase = HBox [dimmed '' '', inked ColYellow (Label (loading_bar phase)), dimmed '' '']"

definition usage_element :: "'a screen_env \<Rightarrow> 'a view_info \<Rightarrow> 'a screen \<Rightarrow> element" where
  "usage_element env info s =
     (let (used_in, used_out) = vi_usage info (sn_agent s) in
      HBox [dimmed (usage_text used_in @ '' in''), dimmed ('' '' @ middle_dot @ '' ''),
        dimmed (usage_text used_out @ '' out''), dimmed ('' '' @ middle_dot @ '' ''),
        dimmed (ao_model (se_ops env) (sn_agent s))])"

definition status_element :: "'a screen_env \<Rightarrow> 'a view_info \<Rightarrow> 'a screen \<Rightarrow> element" where
  "status_element env info s =
     HBox [Label '' '',
       Deco Flex (HBox
         [if sn_busy s then loading_element (vi_phase info)
          else inked ColGreen (Label ([CHR 0xE2, CHR 0x97, CHR 0x8B] @ '' idle'')),
          Filler, usage_element env info s]),
       Label '' '']"

text \<open>The percentage is computed in \<open>double\<close> and given as \<open>pct\<close>.\<close>

definition context_element :: "int \<Rightarrow> 'a view_info \<Rightarrow> 'a screen \<Rightarrow> element" where
  "context_element pct info s =
     (let ctx = sn_ctx s; used = fst (vi_usage info (sn_agent s)) in
      if ctx \<le> 0 then dimmed ''ctx: --''
      else HBox [dimmed ''ctx '',
        inked (if used < ctx div 2 then ColGreen else if used < to_int32 (ctx * 4) div 5 then ColYellow else ColRedLight)
          (Label (context_bar used ctx)),
        dimmed ('' '' @ int_str pct @ ''% '' @ int_str used @ ''/'' @ int_str ctx)])"

section \<open>Suggestions and the dialog\<close>

definition suggestion_mark :: string where "suggestion_mark = [CHR 0xE2, CHR 0x96, CHR 0xB8] @ '' ''"

definition suggestion_item :: "bool \<Rightarrow> string \<Rightarrow> element" where
  "suggestion_item sel name =
     (let c = Coloured (Ink (if sel then ColCyanLight else ColGrayLight)) in
      HBox [Deco Bold (Deco c (Label ((if sel then suggestion_mark else ''  '') @ name))),
            Deco c (Deco Dim (Label (''  '' @ command_desc name)))])"

definition suggestions_element :: "'a screen \<Rightarrow> element \<times> 'a screen" where
  "suggestions_element s0 =
     (let s = refresh_suggestions s0 in
      if sn_choices s = [] then (Label [], s)
      else (Deco (Coloured GrayDark) (Deco Rounded (Deco ClearUnder
        (VBox (map (\<lambda>(i, name). suggestion_item (i = sn_index s) name)
          (zip [0 ..< length (sn_choices s)] (sn_choices s)))))), s))"

definition key_editor :: "'a view_info \<Rightarrow> 'a screen \<Rightarrow> editor" where
  "key_editor info s =
     (vi_key info)\<lparr>ed_content := cn_key (sn_dialog s), ed_cursor := cn_cursor (sn_dialog s)\<rparr>"

definition connect_inner :: "'a view_info \<Rightarrow> 'a screen \<Rightarrow> element outcome" where
  "connect_inner info s =
     (if cn_step (sn_dialog s) = 0 then
        Inr (vi_menu info (map pi_display_name supported_providers) (cn_provider (sn_dialog s)))
      else editor_element True (key_editor info s))"

definition connect_title :: "'a screen \<Rightarrow> string" where
  "connect_title s =
     (let name = (case selected_provider s of Some p \<Rightarrow> pi_display_name p | None \<Rightarrow> ''?'') in
      if cn_step (sn_dialog s) = 0 then '' connect '' @ middle_dot @ '' choose provider ''
      else '' connect '' @ middle_dot @ '' '' @ name @ '' api key '')"

definition connect_hint :: "'a screen \<Rightarrow> string" where
  "connect_hint s =
     (let sep = '' '' @ middle_dot @ '' '' in
      if cn_step (sn_dialog s) = 0 then
        ''  '' @ [CHR 0xE2, CHR 0x86, CHR 0x91] @ ''/'' @ [CHR 0xE2, CHR 0x86, CHR 0x93] @ '' select'' @ sep @
        ''enter next'' @ sep @ ''esc cancel ''
      else ''  paste your api key'' @ sep @ ''enter save'' @ sep @ ''esc back '')"

definition connect_modal_element :: "'a view_info \<Rightarrow> 'a screen \<Rightarrow> element outcome" where
  "connect_modal_element info s =
     bind_outcome (connect_inner info s) (\<lambda>inner.
       let d = sn_dialog s;
           header = [HBox [dimmed '' '', inked ColCyanLight (Deco Bold (Label (connect_title s))), Filler]] @
             (if cn_step d = 0 then
                [HBox [dimmed '' '',
                   dimmed (if cn_has_key d then ''saved: '' @ cn_saved d @ '' (api key stored)''
                           else ''no saved credentials yet''), Filler]]
              else [])
       in Inr (Deco ClearUnder (Deco (NarrowerThan 76) (Deco (WiderThan 48) (Deco Rounded
            (VBox [VBox header, Separator, inner, Separator,
               HBox [dimmed '' '', dimmed (connect_hint s), Filler]]))))))"

section \<open>The screen\<close>

definition prompt_element :: "'a view_info \<Rightarrow> 'a screen \<Rightarrow> element outcome" where
  "prompt_element info s =
     bind_outcome (editor_element False ((vi_prompt info)\<lparr>ed_content := sn_input s, ed_cursor := sn_cursor s\<rparr>))
       (\<lambda>e. Inr (Deco Reflected (HBox
         [Deco Bold (Deco (Coloured (if sn_busy s then Ink ColYellow else GreenLight))
            (Label ((if sn_busy s then [CHR 0xE2, CHR 0x80, CHR 0xA6] else [CHR 0xE2, CHR 0x9D, CHR 0xAF]) @ '' ''))),
          Deco Flex e])))"

definition title_element :: "'a screen_env \<Rightarrow> 'a view_info \<Rightarrow> 'a screen \<Rightarrow> element" where
  "title_element env info s =
     HBox [Label '' '',
       Deco Flex (HBox [inked ColCyanLight (Deco Bold (Label ''ZVMH'')),
         dimmed ('' '' @ middle_dot @ '' coding agent''), Filler,
         dimmed (vi_provider info (sn_agent s) @ '' '' @ middle_dot @ '' '' @ ao_model (se_ops env) (sn_agent s))]),
       Label '' '']"

definition popup_margin :: "box \<Rightarrow> nat" where
  "popup_margin b = nat ((if 0 \<le> y_min b then y_max b - y_min b + 1 else 1) + 1 + 1)"

definition with_popup :: "'a view_info \<Rightarrow> element \<Rightarrow> 'a screen \<Rightarrow> element \<times> 'a screen" where
  "with_popup info body s0 =
     (let s = refresh_suggestions s0 in
      if sn_choices s = [] then (body, s)
      else (let (e, s') = suggestions_element s in
        (Layers [body, VBox [Filler, Deco ClearUnder e,
           Deco (HeightOf (popup_margin (vi_prompt_box info))) (Label [])]], s')))"

text \<open>\<open>OnRender\<close>: the tree and the state afterwards (the laid out transcript and the fresh suggestions).\<close>

definition render_screen :: "'a screen_env \<Rightarrow> 'a view_info \<Rightarrow> 'a screen \<Rightarrow> (element \<times> 'a screen) outcome" where
  "render_screen env info s0 =
     (let (t, view) = transcript_element (sn_view s0); s1 = s0\<lparr>sn_view := view\<rparr> in
      bind_outcome (prompt_element info s1) (\<lambda>p.
        let body = Deco Rounded (VBox [title_element env info s1, Separator, Deco Flex t, Separator,
              status_element env info s1, p]);
            (base, s) = with_popup info body s1
        in if cn_active (sn_dialog s) then
             bind_outcome (connect_modal_element info s) (\<lambda>d.
               Inr (Layers [base, Deco Centred (Deco ClearUnder d)], s))
           else Inr (base, s)))"

text \<open>The hint of a session without a provider: the name is asked for 25 times.\<close>

definition key_hint :: string where
  "key_hint = ''no api key set '' @ [CHR 0xE2, CHR 0x80, CHR 0x94] @ '' run /connect to pick a provider''"

definition startup_hint :: "(nat \<Rightarrow> string) \<Rightarrow> 'a screen \<Rightarrow> 'a screen" where
  "startup_hint provider_name s =
     (if list_ex (\<lambda>i. provider_name i \<noteq> []) [0 ..< 25] then s
      else show_line (md_plain_line key_hint ColYellowLight True False) s)"

section \<open>What a row shows\<close>

lemma styled_texts [simp]: "texts (styled sp e) = texts e"
  by (simp add: styled_def decorated_def)

text \<open>A row reads as its text, behind the bar and a blank when it has a gutter.\<close>

lemma row_element_text:
  "concat (texts (physical_line_element row)) =
     (if ln_spans row \<noteq> [] \<and> ln_gutter row then gutter_bar @ '' '' else []) @ text_of_row row"
proof -
  have "concat (concat (map (texts \<circ> span_element) sps)) = concat (map sp_text sps)" for sps
    by (induction sps) (simp_all add: span_element_def)
  then show ?thesis by (simp add: physical_line_element_def text_of_row_def)
qed

text \<open>The rows of the transcript are read top to bottom between two blanks.\<close>

lemma transcript_element_text:
  "concat (texts (fst (transcript_element t))) =
     '' '' @ concat (map (\<lambda>row. concat (texts (physical_line_element row))) (snd (draw_transcript t))) @ '' ''"
proof -
  have c: "concat (concat (map (texts \<circ> physical_line_element) rows)) =
      concat (map (\<lambda>row. concat (texts (physical_line_element row))) rows)" for rows
    by (induction rows) simp_all
  obtain t' rows where d: "draw_transcript t = (t', rows)" by fastforce
  show ?thesis by (cases "rows = []") (simp_all add: transcript_element_def Let_def d c[simplified])
qed

text \<open>A row of a prompt that is blank loses the bar: the gutter is drawn only beside text.\<close>

lemma blank_row_loses_gutter: "physical_line_element (empty_row True) = Label []"
  by (simp add: physical_line_element_def)

section \<open>The key is not shown\<close>

definition printable_char :: "char \<Rightarrow> bool" where
  "printable_char c \<longleftrightarrow> 32 \<le> byte c \<and> byte c < 127"

lemma printable_glyph:
  assumes "printable_char c"
  shows "lead_len c = 1" "lead_width c = 1" "c \<noteq> nl" "glyph [c]"
proof -
  show "lead_len c = 1" "lead_width c = 1" "c \<noteq> nl"
    using assms by (auto simp: printable_char_def lead_len_def lead_width_def)
  then show "glyph [c]" using assms by (auto simp: printable_char_def is_cont_range)
qed

lemma mask_printable:
  assumes "list_all printable_char s"
  shows "pe_mask s = concat (replicate (length s) bullet)"
proof -
  have "list_all glyph (map (\<lambda>c. [c]) s)" using assms by (auto simp: list_all_iff intro: printable_glyph(4) simp del: glyph.simps)
  from pe_mask_glyphs[OF this, of "[]"] show ?thesis
    by (simp add: pe_mask_def o_def map_replicate_const)
qed

lemma wrap_from_printable:
  "list_all printable_char k \<Longrightarrow> list_all printable_char k' \<Longrightarrow> length k = length k' \<Longrightarrow>
   wrap_from limit k start i w = wrap_from limit k' start i w"
proof (induction limit k start i w rule: wrap_from.induct)
  case (1 limit k start i w)
  show ?case
  proof (cases "i < length k")
    case True
    then have "printable_char (k ! i)" "printable_char (k' ! i)" using "1.prems" by (simp_all add: list_all_length)
    note facts = printable_glyph[OF this(1)] printable_glyph[OF this(2)]
    from True "1.prems" facts show ?thesis
      using "1.IH"(2)[OF True facts(3) refl refl] "1.IH"(3)[OF True facts(3) refl refl]
      by (subst (1 2) wrap_from.simps) (auto simp: pe_glyph_len_def pe_glyph_width_def Let_def)
  next
    case False
    with "1.prems" show ?thesis by (subst (1 2) wrap_from.simps) simp
  qed
qed

lemma render_row_masked:
  assumes "list_all printable_char line" "list_all printable_char line'" "length line = length line'"
  shows "render_row True line cur lo hi = render_row True line' cur lo hi"
proof -
  have sub: "set (part a b s) \<subseteq> set s" for a b and s :: string
    by (auto simp: Prompt_Editor.part_def dest!: in_set_takeD in_set_dropD)
  have "list_all printable_char (part a b line)" "list_all printable_char (part a b line')" for a b
    using assms(1,2) sub[of a b line] sub[of a b line'] by (auto simp: list_all_iff)
  moreover have "length (part a b line) = length (part a b line')" for a b
    by (simp add: Prompt_Editor.part_def assms(3))
  ultimately have "pe_mask (part a b line) = pe_mask (part a b line')" for a b by (simp add: mask_printable)
  then show ?thesis by (simp add: render_row_def assms(3) Let_def split: option.split)
qed

lemma on_render_masked:
  assumes "list_all printable_char k" "list_all printable_char k'" "length k = length k'"
  shows "on_render True (ed\<lparr>ed_content := k\<rparr>) = on_render True (ed\<lparr>ed_content := k'\<rparr>)"
proof -
  let ?e = "\<lambda>k. resize (ed\<lparr>ed_content := k\<rparr>)"
  have f: "ed_content (?e k) = k" "ed_cursor (?e k) = ed_cursor ed" "ed_anchor (?e k) = ed_anchor ed"
    "ed_avail (?e k) = ed_avail (resize ed)" for k by (simp_all add: resize_def)
  have w: "wrap (?e k) = wrap (?e k')"
    using assms by (auto simp: wrap_def wrap_limit_def f wrap_from_printable[OF assms])
  have p: "fst (cursor_position (?e k) rows) = fst (cursor_position (?e k') rows)"
    "fst (snd (cursor_position (?e k) rows)) = fst (snd (cursor_position (?e k') rows))" for rows
    by (simp_all add: cursor_position_def f split: option.split)
  have r: "render_row True (span k r) cur lo hi = render_row True (span k' r) cur lo hi" for r cur lo hi
    using assms by (intro render_row_masked)
      (auto simp: span_def list_all_iff dest!: in_set_takeD in_set_dropD)
  have a: "sel_active (?e k) = sel_active (?e k')" by (simp add: sel_active_def f)
  have e: "k = [] \<longleftrightarrow> k' = []" using assms(3) by auto
  obtain found crow c1 where c1: "cursor_position (?e k) (wrap (?e k')) = (found, crow, c1)"
    by (rule prod_cases3)
  obtain c2 where c2: "cursor_position (?e k') (wrap (?e k')) = (found, crow, c2)"
    using p[of "wrap (?e k')"] c1 by (cases "cursor_position (?e k') (wrap (?e k'))") simp
  show ?thesis
    unfolding on_render_def Let_def w c1 c2 prod.case f a e r ..
qed

text \<open>The dialog with another text in its key field.\<close>

definition type_key :: "string \<Rightarrow> 'a screen \<Rightarrow> 'a screen" where
  "type_key k s = change_dialog (\<lambda>d. d\<lparr>cn_key := k\<rparr>) s"

lemma type_key_fields [simp]:
  "sn_view (type_key k s) = sn_view s" "sn_agent (type_key k s) = sn_agent s" "sn_input (type_key k s) = sn_input s"
  "sn_cursor (type_key k s) = sn_cursor s" "sn_busy (type_key k s) = sn_busy s" "sn_key (type_key k s) = sn_key s"
  "sn_index (type_key k s) = sn_index s" "sn_choices (type_key k s) = sn_choices s" "sn_ctx (type_key k s) = sn_ctx s"
  "cn_step (sn_dialog (type_key k s)) = cn_step (sn_dialog s)"
  "cn_active (sn_dialog (type_key k s)) = cn_active (sn_dialog s)"
  "cn_provider (sn_dialog (type_key k s)) = cn_provider (sn_dialog s)"
  "cn_has_key (sn_dialog (type_key k s)) = cn_has_key (sn_dialog s)"
  "cn_saved (sn_dialog (type_key k s)) = cn_saved (sn_dialog s)"
  "cn_cursor (sn_dialog (type_key k s)) = cn_cursor (sn_dialog s)"
  "cn_key (sn_dialog (type_key k s)) = k"
  "sn_view_update f (type_key k s) = type_key k (sn_view_update f s)"
  by (simp_all add: type_key_def change_dialog_def)

lemma refresh_type_key: "refresh_suggestions (type_key k s) = type_key k (refresh_suggestions s)"
  by (simp add: refresh_suggestions_def Let_def current_suggestions_def command_prefix_def)
    (simp add: type_key_def change_dialog_def)

lemma connect_modal_masked:
  assumes "list_all printable_char k" "list_all printable_char k'" "length k = length k'"
  shows "connect_modal_element info (type_key k s) = connect_modal_element info (type_key k' s)"
proof -
  have "on_render True (key_editor info (type_key k s)) = on_render True (key_editor info (type_key k' s))"
  proof -
    have "key_editor info (type_key k s) = (vi_key info)\<lparr>ed_cursor := cn_cursor (sn_dialog s), ed_content := k\<rparr>" for k
      by (cases "vi_key info") (simp add: key_editor_def)
    then show ?thesis using on_render_masked[OF assms] by simp
  qed
  then have "connect_inner info (type_key k s) = connect_inner info (type_key k' s)"
    by (simp add: connect_inner_def editor_element_def)
  then show ?thesis
    by (simp add: connect_modal_element_def connect_title_def connect_hint_def selected_provider_def Let_def)
qed

lemma with_popup_type_key:
  "with_popup info body (type_key k s) = (fst (with_popup info body s), type_key k (snd (with_popup info body s)))"
  by (simp add: with_popup_def suggestions_element_def refresh_type_key Let_def)

definition shown :: "(element \<times> 'a screen) outcome \<Rightarrow> element outcome" where
  "shown r = bind_outcome r (\<lambda>(e, s). Inr e)"

text \<open>C38: the key field hides the key: whatever the state of the screen, two printable keys of the same length
  give the same picture.\<close>

theorem api_key_is_not_shown:
  assumes "list_all printable_char k" "list_all printable_char k'" "length k = length k'"
  shows "shown (render_screen env info (type_key k s)) = shown (render_screen env info (type_key k' s))"
proof -
  obtain t view where t: "transcript_element (sn_view s) = (t, view)" by fastforce
  let ?s = "s\<lparr>sn_view := view\<rparr>"
  have parts: "prompt_element info (type_key k ?s) = prompt_element info ?s"
    "title_element env info (type_key k ?s) = title_element env info ?s"
    "status_element env info (type_key k ?s) = status_element env info ?s" for k
    by (simp_all add: prompt_element_def title_element_def status_element_def usage_element_def)
  show ?thesis
    by (cases "prompt_element info ?s")
      (auto simp: render_screen_def t parts with_popup_type_key Let_def shown_def bind_outcome_def
        connect_modal_masked[OF assms] split: prod.split sum.split)
qed

section \<open>The popup marks what is taken\<close>

text \<open>The popup lists the suggestions for the typed word in order, and marks exactly one of them, the one
  Tab puts into the prompt.\<close>

theorem popup_marks_what_is_taken:
  assumes "screen_reachable env s" "sn_choices (refresh_suggestions s) \<noteq> []"
  shows "\<exists>i < length (suggestions_for (command_prefix s)).
      texts (fst (suggestions_element s)) =
        concat (map (\<lambda>k. let name = suggestions_for (command_prefix s) ! k in
          [(if k = i then suggestion_mark else ''  '') @ name, ''  '' @ command_desc name])
          [0 ..< length (suggestions_for (command_prefix s))]) \<and>
      sn_input (accept_suggestion (refresh_suggestions s)) = suggestions_for (command_prefix s) ! i"
proof -
  let ?r = "refresh_suggestions s"
  have c: "sn_choices ?r = suggestions_for (command_prefix s)" by (rule refresh_choices)
  have ok: "screen_ok s" by (rule screen_reachable_ok[OF assms(1)])
  then have i: "sn_index ?r < length (sn_choices ?r)"
    using refresh_index(1)[OF _ assms(2)] by (simp add: screen_ok_def)
  have item: "texts (suggestion_item b name) =
      [(if b then suggestion_mark else ''  '') @ name, ''  '' @ command_desc name]" for b name
    by (simp add: suggestion_item_def Let_def)
  have z: "zip [0 ..< length xs] xs = map (\<lambda>k. (k, xs ! k)) [0 ..< length xs]" for xs :: "string list"
    by (rule nth_equalityI) simp_all
  have "texts (fst (suggestions_element s)) =
      concat (map (\<lambda>k. texts (suggestion_item (k = sn_index ?r) (sn_choices ?r ! k))) [0 ..< length (sn_choices ?r)])"
    using assms(2) by (simp add: suggestions_element_def Let_def z o_def)
  moreover have "sn_input (accept_suggestion ?r) = sn_choices ?r ! sn_index ?r"
    using i assms(2) by (simp add: accept_suggestion_def Let_def)
  ultimately show ?thesis using i unfolding item c Let_def by blast
qed

section \<open>Layers\<close>

text \<open>The dialog, when it is open, is the topmost layer, and the popup is shown under it.\<close>

lemma dialog_is_on_top:
  assumes "render_screen env info s = Inr (e, s')" "cn_active (sn_dialog s)"
  shows "\<exists>base d. e = Layers [base, Deco Centred (Deco ClearUnder d)] \<and> connect_modal_element info s' = Inr d"
proof -
  obtain t view where t: "transcript_element (sn_view s) = (t, view)" by fastforce
  have d: "sn_dialog (snd (with_popup info body u)) = sn_dialog u" for body and u :: "'a screen"
    by (simp add: with_popup_def suggestions_element_def refresh_suggestions_def Let_def)
  show ?thesis
    using assms d[of _ "s\<lparr>sn_view := view\<rparr>"]
    by (auto simp: render_screen_def t Let_def bind_outcome_def split: prod.splits sum.splits if_splits)
      (metis snd_conv select_convs)+
qed

text \<open>The hint about a missing key appears at most once and only when no provider was ever seen.\<close>

lemma startup_hint_quiet: "i < 25 \<Longrightarrow> provider_name i \<noteq> [] \<Longrightarrow> startup_hint provider_name s = s"
  by (auto simp: startup_hint_def list_ex_iff)

section \<open>Witnesses\<close>

definition demo_info :: "nat view_info" where
  "demo_info =
     \<lparr>vi_provider = (\<lambda>_. ''openrouter''), vi_usage = (\<lambda>_. (3, 4)), vi_menu = (\<lambda>names i. VBox (map Label names)),
      vi_prompt = demo_editor, vi_key = demo_editor, vi_prompt_box = demo_box, vi_phase = 0\<rparr>"

definition demo_dialog :: "nat screen" where
  "demo_dialog = change_dialog (\<lambda>d. d\<lparr>cn_active := True, cn_step := 1, cn_cursor := 2\<rparr>) (demo_screen ''hi'')"

lemma demo_dialog_shown:
  "\<exists>e. shown (render_screen demo_env demo_info (type_key ''sk-1'' demo_dialog)) = Inr e"
proof -
  have r: "\<not> isl (on_render False (demo_editor\<lparr>ed_content := ''hi'', ed_cursor := 0\<rparr>))"
    "\<not> isl (on_render True (demo_editor\<lparr>ed_content := ''sk-1'', ed_cursor := 2\<rparr>))" by code_simp+
  have s: "sn_input demo_dialog = ''hi''" "sn_cursor demo_dialog = 0" "cn_step (sn_dialog demo_dialog) = 1"
    "cn_cursor (sn_dialog demo_dialog) = 2"
    by (simp_all add: demo_dialog_def change_dialog_def demo_screen_def new_screen_def)
  have d: "sn_dialog (snd (with_popup info body u)) = sn_dialog u" for info :: "nat view_info" and body u
    by (simp add: with_popup_def suggestions_element_def refresh_suggestions_def Let_def)
  have p: "\<not> isl (prompt_element demo_info (type_key ''sk-1'' (demo_dialog\<lparr>sn_view := v\<rparr>)))" for v
    using r(1) by (simp add: prompt_element_def editor_element_def demo_info_def s bind_outcome_def isl_def split: sum.splits)
  have k: "\<not> isl (connect_modal_element demo_info u)"
    if "sn_dialog u = sn_dialog (type_key ''sk-1'' demo_dialog)" for u
    using r(2) by (simp add: connect_modal_element_def connect_inner_def editor_element_def key_editor_def
        demo_info_def s that bind_outcome_def Let_def isl_def split: sum.splits)
  show ?thesis
    using p k
    by (auto simp: shown_def render_screen_def bind_outcome_def Let_def isl_def with_popup_type_key d
        split: prod.splits sum.splits)
qed

theorem api_key_is_not_shown_witness:
  "shown (render_screen demo_env demo_info (type_key ''sk-1'' demo_dialog)) =
     shown (render_screen demo_env demo_info (type_key ''Zq*9'' demo_dialog)) \<and>
   (\<exists>e. shown (render_screen demo_env demo_info (type_key ''sk-1'' demo_dialog)) = Inr e)"
proof
  show "shown (render_screen demo_env demo_info (type_key ''sk-1'' demo_dialog)) =
     shown (render_screen demo_env demo_info (type_key ''Zq*9'' demo_dialog))"
    by (rule api_key_is_not_shown; code_simp)
qed (rule demo_dialog_shown)

theorem popup_marks_what_is_taken_witness:
  "\<exists>i < length (suggestions_for ''/m'').
      texts (fst (suggestions_element (demo_screen ''/m''))) =
        concat (map (\<lambda>k. let name = suggestions_for ''/m'' ! k in
          [(if k = i then suggestion_mark else ''  '') @ name, ''  '' @ command_desc name])
          [0 ..< length (suggestions_for ''/m'')]) \<and>
      sn_input (accept_suggestion (refresh_suggestions (demo_screen ''/m''))) = suggestions_for ''/m'' ! i"
proof -
  have p: "command_prefix (demo_screen ''/m'') = ''/m''" by code_simp
  have "sn_choices (refresh_suggestions (demo_screen ''/m'')) \<noteq> []" by code_simp
  from popup_marks_what_is_taken[OF demo_reachable this] show ?thesis unfolding p .
qed

end
