(* ===== verification/Cli.thy ===== *)
theory Cli
  imports Auth
begin

text \<open>
  The command line (\<open>src/main.cpp\<close>): the options, the pid file of the daemon with the commands
  \<open>start\<close>, \<open>stop\<close> and \<open>status\<close>, the session backend, and \<open>main\<close>. The operating system is an argument:
  which processes and ports answer, what \<open>fork\<close>, \<open>kill\<close>, \<open>chdir\<close> return, and how a server, a prompt
  and the interface end. Files are a map from paths to contents.
\<close>

section \<open>Options\<close>

record args =
  ar_message :: string
  ar_cwd :: string
  ar_server_cmd :: string
  ar_addr :: string
  ar_port :: int
  ar_poll_ms :: int
  ar_session :: bool
  ar_daemon :: bool
  ar_pidfile :: string
  ar_connect_host :: string
  ar_connect_port :: int

definition default_args :: args where
  "default_args = \<lparr>ar_message = [], ar_cwd = [], ar_server_cmd = [], ar_addr = ''127.0.0.1'', ar_port = 5500,
     ar_poll_ms = 2000, ar_session = False, ar_daemon = False, ar_pidfile = [], ar_connect_host = [],
     ar_connect_port = 5500\<rparr>"

definition is_c_space :: "char \<Rightarrow> bool" where
  "is_c_space c \<longleftrightarrow> c = CHR '' '' \<or> (9 \<le> byte c \<and> byte c \<le> 13)"

definition is_dec :: "char \<Rightarrow> bool" where "is_dec c \<longleftrightarrow> 48 \<le> byte c \<and> byte c \<le> 57"

text \<open>The number at the front of a text, as \<open>strtol\<close> and \<open>operator>>\<close> read it: blanks, a sign, digits.\<close>

definition scan_int :: "string \<Rightarrow> int option" where
  "scan_int s =
     (let t = dropWhile is_c_space s;
          neg = (t \<noteq> [] \<and> hd t = CHR ''-'');
          u = (if t \<noteq> [] \<and> (hd t = CHR ''-'' \<or> hd t = CHR ''+'') then tl t else t);
          ds = takeWhile is_dec u in
      if ds = [] then None else Some (if neg then - int (digits_value ds) else int (digits_value ds)))"

definition stoi :: "string \<Rightarrow> int option" where
  "stoi s = (case scan_int s of
     Some i \<Rightarrow> if -2147483648 \<le> i \<and> i \<le> 2147483647 then Some i else None | None \<Rightarrow> None)"

text \<open>Why the options were not accepted: the help was asked for, a message was printed, or nothing was.\<close>

datatype refusal = ShowHelp | Complain string | Quiet

fun split_last :: "char \<Rightarrow> string \<Rightarrow> (string \<times> string) option" where
  "split_last d [] = None"
| "split_last d (c # cs) =
     (case split_last d cs of
        Some (a, b) \<Rightarrow> Some (c # a, b)
      | None \<Rightarrow> if c = d then Some ([], cs) else None)"

definition connect_option :: "string \<Rightarrow> args \<Rightarrow> refusal + args" where
  "connect_option v a =
     (case split_last (CHR '':'') v of
        None \<Rightarrow> Inr (a\<lparr>ar_connect_host := v\<rparr>)
      | Some (h, p) \<Rightarrow>
          (case stoi p of
             Some n \<Rightarrow> Inr (a\<lparr>ar_connect_host := h, ar_connect_port := n\<rparr>)
           | None \<Rightarrow> Inl (Complain (''Error: invalid port in --connect '' @ v))))"

definition server_commands :: "string list" where "server_commands = [''start'', ''stop'', ''status'']"

text \<open>An option with a value, and what a missing value is answered with.\<close>

definition missing_value :: "string \<Rightarrow> refusal option" where
  "missing_value opt =
     (if opt \<in> {''-m'', ''--message'', ''-C'', ''--cwd''} then Some (Complain (''Error: '' @ opt @ '' requires a value''))
      else if opt = ''--server'' then Some (Complain ''Error: --server requires start|stop|status'')
      else if opt = ''--connect'' then Some (Complain ''Error: --connect requires HOST[:PORT]'')
      else if opt \<in> {''--addr'', ''--port'', ''--poll-ms'', ''--pidfile''} then Some Quiet
      else None)"

definition valued_option :: "string \<Rightarrow> string \<Rightarrow> args \<Rightarrow> refusal + args" where
  "valued_option opt v a =
     (if opt = ''-m'' \<or> opt = ''--message'' then Inr (a\<lparr>ar_message := v\<rparr>)
      else if opt = ''-C'' \<or> opt = ''--cwd'' then Inr (a\<lparr>ar_cwd := v\<rparr>)
      else if opt = ''--server'' then
        (if v \<in> set server_commands then Inr (a\<lparr>ar_server_cmd := v\<rparr>)
         else Inl (Complain (''Error: unknown --server command '' @ [squote] @ v @ [squote] @ '' (start|stop|status)'')))
      else if opt = ''--addr'' then Inr (a\<lparr>ar_addr := v\<rparr>)
      else if opt = ''--port'' then
        (case stoi v of Some n \<Rightarrow> Inr (a\<lparr>ar_port := n\<rparr>) | None \<Rightarrow> Inl (Complain ''Error: invalid --port value''))
      else if opt = ''--poll-ms'' then
        (case stoi v of Some n \<Rightarrow> Inr (a\<lparr>ar_poll_ms := n\<rparr>) | None \<Rightarrow> Inl (Complain ''Error: invalid --poll-ms value''))
      else if opt = ''--pidfile'' then Inr (a\<lparr>ar_pidfile := v\<rparr>)
      else connect_option v a)"

fun parse_args :: "string list \<Rightarrow> args \<Rightarrow> refusal + args" where
  "parse_args [] a = Inr a"
| "parse_args (opt # rest) a =
     (if opt = ''-h'' \<or> opt = ''--help'' then Inl ShowHelp
      else if opt = ''--session'' then parse_args rest (a\<lparr>ar_session := True\<rparr>)
      else if opt = ''--daemon'' then parse_args rest (a\<lparr>ar_daemon := True\<rparr>)
      else (case missing_value opt of
          None \<Rightarrow> Inl (Complain (''Error: Unknown option '' @ [squote] @ opt @ [squote]))
        | Some refused \<Rightarrow>
            (case rest of
               [] \<Rightarrow> Inl refused
             | v # rest' \<Rightarrow> (case valued_option opt v a of Inl e \<Rightarrow> Inl e | Inr a' \<Rightarrow> parse_args rest' a'))))"

section \<open>Pid files\<close>

definition default_pidfile :: "string option \<Rightarrow> args \<Rightarrow> string" where
  "default_pidfile home a = (if ar_pidfile a = [] then path_join (default_dir home) ''server.pid'' else ar_pidfile a)"

definition session_pidfile :: "string option \<Rightarrow> string" where
  "session_pidfile home = path_join (default_dir home) ''session.pid''"

definition pidfile_of :: "string option \<Rightarrow> args \<Rightarrow> string" where
  "pidfile_of home a = (if ar_session a then session_pidfile home else default_pidfile home a)"

text \<open>\<open>f >> pid\<close> fails on a number that is no \<open>long long\<close>; the cast to \<open>pid_t\<close> wraps.\<close>

definition read_pid :: "string \<Rightarrow> (string \<rightharpoonup> string) \<Rightarrow> int" where
  "read_pid path fs =
     (case fs path of
        None \<Rightarrow> -1
      | Some s \<Rightarrow> (case scan_int s of
            None \<Rightarrow> -1
          | Some i \<Rightarrow> if i < -(2 ^ 63) \<or> 2 ^ 63 \<le> i \<or> i \<le> 0 then -1 else to_int32 i))"

text \<open>What the system answers. \<open>ce_exists\<close>: \<open>kill(pid, 0)\<close> finds the process.\<close>

record cli_env =
  ce_home :: "string option"
  ce_exists :: "int \<Rightarrow> bool"
  ce_fork :: int
  ce_self :: int
  ce_server :: int
  ce_kill :: bool
  ce_survives :: "nat \<Rightarrow> bool"
  ce_port_first :: bool
  ce_port :: "nat \<Rightarrow> bool"
  ce_chdir :: "string \<Rightarrow> bool"
  ce_connect :: "string \<Rightarrow> int \<Rightarrow> bool"
  ce_once :: "string \<Rightarrow> int"
  ce_tui :: int

type_synonym disk = "string \<rightharpoonup> string"

definition process_alive :: "cli_env \<Rightarrow> int \<Rightarrow> bool" where
  "process_alive env pid \<longleftrightarrow> 0 < pid \<and> ce_exists env pid"

definition session_port :: int where "session_port = 5501"
definition session_host :: string where "session_host = ''127.0.0.1''"

text \<open>The exit code of this process, what it printed and the files it leaves; in the child of a \<open>fork\<close>
  (\<open>ce_fork\<close> is 0) they are the child's.\<close>

type_synonym ending = "int \<times> string \<times> disk"

definition run_server :: "cli_env \<Rightarrow> args \<Rightarrow> string \<Rightarrow> disk \<Rightarrow> ending" where
  "run_server env a pidfile fs =
     (if ar_daemon a then
        (if fs pidfile \<noteq> None \<and> 0 < read_pid pidfile fs \<and> process_alive env (read_pid pidfile fs) then
           (1, ''Error: server already running (pid '' @ int_str (read_pid pidfile fs) @ '')'', fs)
         else (let fs1 = fs(pidfile := None) in
           if ce_fork env < 0 then (1, ''Error: fork failed'', fs1)
           else if 0 < ce_fork env then (0, [], fs1(pidfile := Some (int_str (ce_fork env))))
           else (ce_server env, [], (fs1(pidfile := Some (int_str (ce_self env))))(pidfile := None))))
      else (ce_server env, [], fs))"

fun gone_within :: "(nat \<Rightarrow> bool) \<Rightarrow> nat \<Rightarrow> nat \<Rightarrow> bool" where
  "gone_within survives i 0 = False"
| "gone_within survives i (Suc n) = (if \<not> survives i then True else gone_within survives (Suc i) n)"

definition server_name :: "args \<Rightarrow> string" where
  "server_name a = (if ar_session a then ''Session server'' else ''Swarm server'')"

definition shown_port :: "args \<Rightarrow> int" where
  "shown_port a = (if ar_session a then session_port else ar_port a)"

definition cmd_server :: "cli_env \<Rightarrow> args \<Rightarrow> disk \<Rightarrow> ending" where
  "cmd_server env a fs =
     (let pidfile = pidfile_of (ce_home env) a; existing = read_pid pidfile fs;
          live = (0 < existing \<and> process_alive env existing) in
      if ar_server_cmd a = ''start'' then
        (if live then (1, ''Error: server already running (pid '' @ int_str existing @ '')'', fs)
         else run_server env a pidfile fs)
      else if ar_server_cmd a = ''stop'' then
        (if \<not> live then (0, ''Server is not running'', if 0 < existing then fs(pidfile := None) else fs)
         else if \<not> ce_kill env then (1, ''Error: kill('' @ int_str existing @ '')'', fs)
         else if gone_within (ce_survives env) 0 120 then (0, ''Server stopped'', fs(pidfile := None))
         else (1, ''Error: server pid '' @ int_str existing @ '' did not exit after SIGTERM; pidfile kept'', fs))
      else if ar_server_cmd a = ''status'' then
        (if live then
           (0, server_name a @ '' is running (pid '' @ int_str existing @ '', '' @ ar_addr a @ '':'' @
             int_str (shown_port a) @ '')'', fs)
         else (0, ''Server is not running'', fs))
      else (1, ''Error: unknown --server command '' @ [squote] @ ar_server_cmd a @ [squote], fs))"

section \<open>The session backend and main\<close>

definition ensure_session_backend :: "cli_env \<Rightarrow> disk \<Rightarrow> ending" where
  "ensure_session_backend env fs =
     (if ce_port_first env then (0, [], fs)
      else (let pidfile = session_pidfile (ce_home env); stale = read_pid pidfile fs;
                fs1 = (if fs pidfile \<noteq> None \<and> (stale \<le> 0 \<or> \<not> process_alive env stale)
                       then fs(pidfile := None) else fs) in
        if ce_fork env < 0 then (1, ''Error: fork failed'', fs1)
        else if 0 < ce_fork env then
          (if gone_within (\<lambda>i. \<not> ce_port env i) 0 120 then (0, [], fs1)
           else (1, ''Error: session backend did not start on '' @ session_host @ '':'' @ int_str session_port, fs1))
        else (ce_server env, [], (fs1(pidfile := Some (int_str (ce_self env))))(pidfile := None))))"

text \<open>After the options: the directory, then a server command or an attached session.\<close>

definition attach_session :: "cli_env \<Rightarrow> args \<Rightarrow> disk \<Rightarrow> ending" where
  "attach_session env a fs =
     (if \<not> ce_connect env (ar_connect_host a) (ar_connect_port a) then
        (1, ''Error: could not connect to server at '' @ ar_connect_host a @ '':'' @ int_str (ar_connect_port a), fs)
      else (if ar_message a \<noteq> [] then ce_once env (ar_message a) else ce_tui env, [], fs))"

definition zvmh_main :: "cli_env \<Rightarrow> string list \<Rightarrow> disk \<Rightarrow> ending" where
  "zvmh_main env argv fs =
     (case parse_args argv default_args of
        Inl ShowHelp \<Rightarrow> (1, ''Usage: zvmh [OPTIONS]'', fs)
      | Inl (Complain e) \<Rightarrow> (1, e, fs)
      | Inl Quiet \<Rightarrow> (1, [], fs)
      | Inr a \<Rightarrow>
          if ar_cwd a \<noteq> [] \<and> \<not> ce_chdir env (ar_cwd a) then
            (1, ''Error: Could not change directory to '' @ [squote] @ ar_cwd a @ [squote], fs)
          else if ar_server_cmd a \<noteq> [] then cmd_server env a fs
          else if ar_connect_host a = [] then
            (case ensure_session_backend env fs of
               (rc, out, fs1) \<Rightarrow>
                 if rc \<noteq> 0 \<or> (\<not> ce_port_first env \<and> ce_fork env = 0) then (rc, out, fs1)
                 else attach_session env (a\<lparr>ar_connect_host := session_host, ar_connect_port := session_port\<rparr>) fs1)
          else attach_session env a fs)"


section \<open>Options read back\<close>

text \<open>An argument vector for given options.\<close>

definition args_line :: "args \<Rightarrow> string list" where
  "args_line a =
     (if ar_session a then [''--session''] else []) @ (if ar_daemon a then [''--daemon''] else []) @
     (if ar_server_cmd a = [] then [] else [''--server'', ar_server_cmd a]) @
     [''-m'', ar_message a, ''-C'', ar_cwd a, ''--addr'', ar_addr a, ''--port'', int_str (ar_port a),
      ''--poll-ms'', int_str (ar_poll_ms a), ''--pidfile'', ar_pidfile a,
      ''--connect'', ar_connect_host a @ CHR '':'' # int_str (ar_connect_port a)]"

definition int32 :: "int \<Rightarrow> bool" where "int32 i \<longleftrightarrow> -2147483648 \<le> i \<and> i \<le> 2147483647"

lemma nat_str_digits: "list_all is_dec (nat_str n) \<and> nat_str n \<noteq> []"
proof (induction n rule: nat_str.induct)
  case (1 n)
  have d: "is_dec (char_of (48 + m))" if "m < 10" for m :: nat
    using that by (simp add: is_dec_def)
  show ?case
    using 1 d[of n] d[of "n mod 10"] by (cases "n < 10") (simp_all add: nat_str.simps[of n])
qed

lemma dec_not_sign: "is_dec c \<Longrightarrow> \<not> is_c_space c \<and> c \<noteq> CHR ''-'' \<and> c \<noteq> CHR ''+'' \<and> c \<noteq> CHR '':''"
  by (auto simp: is_dec_def is_c_space_def)

lemma scan_digits:
  assumes "list_all is_dec ds" "ds \<noteq> []" "r = [] \<or> \<not> is_dec (hd r)"
  shows "scan_int (ds @ r) = Some (int (digits_value ds))" "scan_int (CHR ''-'' # ds @ r) = Some (- int (digits_value ds))"
proof -
  have t: "takeWhile is_dec (ds @ r) = ds"
    using assms(1,3) by (cases r) (simp_all add: list_all_iff takeWhile_append2)
  have d: "\<not> is_c_space (hd ds)" "hd ds \<noteq> CHR ''-''" "hd ds \<noteq> CHR ''+''"
    using dec_not_sign[of "hd ds"] assms(1,2) by (cases ds; auto)+
  then have "dropWhile is_c_space (ds @ r) = ds @ r" using assms(2) by (cases ds) simp_all
  with t d assms(2) show "scan_int (ds @ r) = Some (int (digits_value ds))" by (simp add: scan_int_def Let_def)
  have "\<not> is_c_space (CHR ''-'')" by (simp add: is_c_space_def)
  with t assms(2) show "scan_int (CHR ''-'' # ds @ r) = Some (- int (digits_value ds))"
    by (simp add: scan_int_def Let_def)
qed

lemma scan_int_str: "scan_int (int_str i) = Some i"
  using scan_digits[of "nat_str (nat i)" "[]"] scan_digits[of "nat_str (nat (- i))" "[]"]
    nat_str_digits nat_str_value by (simp add: int_str_def)

lemma stoi_int_str: "int32 i \<Longrightarrow> stoi (int_str i) = Some i"
  by (simp add: stoi_def scan_int_str int32_def)

lemma int_str_no_colon: "CHR '':'' \<notin> set (int_str i)"
proof -
  have "\<not> is_dec (CHR '':'')" by (simp add: is_dec_def)
  then have "CHR '':'' \<notin> set (nat_str n)" for n using nat_str_digits[of n] by (auto simp: list_all_iff)
  then show ?thesis by (simp add: int_str_def)
qed

lemma split_last_none: "d \<notin> set s \<Longrightarrow> split_last d s = None"
  by (induction s) auto

lemma split_last_append: "d \<notin> set b \<Longrightarrow> split_last d (a @ d # b) = Some (a, b)"
  by (induction a) (simp_all add: split_last_none)

lemma missing_simps:
  "missing_value ''-m'' \<noteq> None" "missing_value ''-C'' \<noteq> None" "missing_value ''--addr'' \<noteq> None"
  "missing_value ''--port'' \<noteq> None" "missing_value ''--poll-ms'' \<noteq> None" "missing_value ''--pidfile'' \<noteq> None"
  "missing_value ''--connect'' \<noteq> None" "missing_value ''--server'' \<noteq> None"
  by (simp_all add: missing_value_def)

lemma parse_valued:
  assumes "missing_value opt \<noteq> None" "opt \<noteq> ''-h''" "opt \<noteq> ''--help''" "opt \<noteq> ''--session''" "opt \<noteq> ''--daemon''"
  shows "parse_args (opt # v # rest) a = (case valued_option opt v a of Inl e \<Rightarrow> Inl e | Inr a' \<Rightarrow> parse_args rest a')"
  using assms by (auto simp del: parse_args.simps simp: parse_args.simps(2)[of opt])

lemma parse_each:
  "parse_args (''-m'' # v # rest) a = parse_args rest (a\<lparr>ar_message := v\<rparr>)"
  "parse_args (''-C'' # v # rest) a = parse_args rest (a\<lparr>ar_cwd := v\<rparr>)"
  "parse_args (''--addr'' # v # rest) a = parse_args rest (a\<lparr>ar_addr := v\<rparr>)"
  "parse_args (''--pidfile'' # v # rest) a = parse_args rest (a\<lparr>ar_pidfile := v\<rparr>)"
  "int32 i \<Longrightarrow> parse_args (''--port'' # int_str i # rest) a = parse_args rest (a\<lparr>ar_port := i\<rparr>)"
  "int32 i \<Longrightarrow> parse_args (''--poll-ms'' # int_str i # rest) a = parse_args rest (a\<lparr>ar_poll_ms := i\<rparr>)"
  "int32 i \<Longrightarrow> parse_args (''--connect'' # (h @ CHR '':'' # int_str i) # rest) a =
     parse_args rest (a\<lparr>ar_connect_host := h, ar_connect_port := i\<rparr>)"
  "c \<in> set server_commands \<Longrightarrow> parse_args (''--server'' # c # rest) a = parse_args rest (a\<lparr>ar_server_cmd := c\<rparr>)"
  by (simp_all add: parse_valued missing_simps valued_option_def stoi_int_str connect_option_def split_last_append
      int_str_no_colon del: parse_args.simps)

lemma parse_flags:
  "parse_args (''--session'' # rest) a = parse_args rest (a\<lparr>ar_session := True\<rparr>)"
  "parse_args (''--daemon'' # rest) a = parse_args rest (a\<lparr>ar_daemon := True\<rparr>)"
  by simp_all

text \<open>C40: every setting can be given on the command line and is read as it was meant: the options printed
  for given settings parse back to them, values with colons, blanks or leading dashes included.\<close>

theorem options_parse_print:
  assumes "int32 (ar_port a)" "int32 (ar_poll_ms a)" "int32 (ar_connect_port a)"
    and "ar_server_cmd a \<in> set ([] # server_commands)"
  shows "parse_args (args_line a) default_args = Inr a"
proof -
  let ?b = "default_args\<lparr>ar_session := ar_session a, ar_daemon := ar_daemon a\<rparr>"
  let ?tail = "[''-m'', ar_message a, ''-C'', ar_cwd a, ''--addr'', ar_addr a, ''--port'', int_str (ar_port a),
      ''--poll-ms'', int_str (ar_poll_ms a), ''--pidfile'', ar_pidfile a,
      ''--connect'', ar_connect_host a @ CHR '':'' # int_str (ar_connect_port a)]"
  have flags: "parse_args ((if ar_session a then [''--session''] else []) @ (if ar_daemon a then [''--daemon''] else []) @ r)
      default_args = parse_args r ?b" for r
    by (cases "ar_session a"; cases "ar_daemon a") (simp_all add: parse_flags default_args_def del: parse_args.simps)
  have server: "parse_args ((if ar_server_cmd a = [] then [] else [''--server'', ar_server_cmd a]) @ ?tail) ?b =
      parse_args ?tail (?b\<lparr>ar_server_cmd := ar_server_cmd a\<rparr>)"
    using assms(4) by (cases "ar_server_cmd a = []") (simp_all add: parse_each(8) default_args_def del: parse_args.simps)
  have "parse_args (args_line a) default_args = parse_args ?tail (?b\<lparr>ar_server_cmd := ar_server_cmd a\<rparr>)"
    unfolding args_line_def flags server ..
  also have "\<dots> = Inr (?b\<lparr>ar_server_cmd := ar_server_cmd a, ar_message := ar_message a, ar_cwd := ar_cwd a,
      ar_addr := ar_addr a, ar_port := ar_port a, ar_poll_ms := ar_poll_ms a, ar_pidfile := ar_pidfile a,
      ar_connect_host := ar_connect_host a, ar_connect_port := ar_connect_port a\<rparr>)"
    unfolding parse_each(1-4) parse_each(5)[OF assms(1)] parse_each(6)[OF assms(2)] parse_each(7)[OF assms(3)] parse_args.simps(1) ..
  finally show ?thesis by simp
qed


lemma digit_chars: "char_of (48::nat) = CHR ''0''" "char_of (49::nat) = CHR ''1''" "char_of (50::nat) = CHR ''2''"
    "char_of (52::nat) = CHR ''4''" "char_of (53::nat) = CHR ''5''"
  by code_simp+

lemma numbers: "int_str 42 = ''42''" "int_str 250 = ''250''" "int_str (-1) = ''-1''" "int_str 5500 = ''5500''" "int_str 5501 = ''5501''"
  by (simp_all add: int_str_def nat_str.simps digit_chars)

lemma options_parse_print_witness:
  "parse_args [''--daemon'', ''--server'', ''start'', ''-m'', ''--help'', ''-C'', [], ''--addr'', ''::1'', ''--port'', ''-1'',
      ''--poll-ms'', ''250'', ''--pidfile'', [], ''--connect'', ''a:b:5501''] default_args =
   Inr (default_args\<lparr>ar_daemon := True, ar_server_cmd := ''start'', ar_message := ''--help'', ar_addr := ''::1'',
      ar_port := -1, ar_poll_ms := 250, ar_connect_host := ''a:b'', ar_connect_port := 5501\<rparr>)"
proof -
  let ?a = "default_args\<lparr>ar_daemon := True, ar_server_cmd := ''start'', ar_message := ''--help'', ar_addr := ''::1'',
      ar_port := -1, ar_poll_ms := 250, ar_connect_host := ''a:b'', ar_connect_port := 5501\<rparr>"
  have i: "int32 (ar_port ?a)" "int32 (ar_poll_ms ?a)" "int32 (ar_connect_port ?a)"
    "ar_server_cmd ?a \<in> set ([] # server_commands)"
    by (simp_all add: int32_def server_commands_def)
  have "args_line ?a = [''--daemon'', ''--server'', ''start'', ''-m'', ''--help'', ''-C'', [], ''--addr'', ''::1'', ''--port'', ''-1'',
      ''--poll-ms'', ''250'', ''--pidfile'', [], ''--connect'', ''a:b:5501'']"
    by (simp add: args_line_def default_args_def numbers)
  with options_parse_print[OF i] show ?thesis by simp
qed

section \<open>The life of a daemon\<close>

definition live :: "cli_env \<Rightarrow> args \<Rightarrow> disk \<Rightarrow> bool" where
  "live env a fs \<longleftrightarrow> 0 < read_pid (pidfile_of (ce_home env) a) fs \<and>
     process_alive env (read_pid (pidfile_of (ce_home env) a) fs)"

lemma read_written_pid: "0 < p \<Longrightarrow> int32 p \<Longrightarrow> read_pid path (fs(path := Some (int_str p))) = p"
  using to_int32_id[of p] by (simp add: read_pid_def scan_int_str int32_def)

lemma server_cases:
  "ar_server_cmd a = ''start'' \<Longrightarrow> cmd_server env a fs =
     (if live env a fs then (1, ''Error: server already running (pid '' @ int_str (read_pid (pidfile_of (ce_home env) a) fs) @ '')'', fs)
      else run_server env a (pidfile_of (ce_home env) a) fs)"
  "ar_server_cmd a = ''status'' \<Longrightarrow> cmd_server env a fs =
     (if live env a fs then
        (0, server_name a @ '' is running (pid '' @ int_str (read_pid (pidfile_of (ce_home env) a) fs) @ '', '' @ ar_addr a @ '':'' @
          int_str (shown_port a) @ '')'', fs)
      else (0, ''Server is not running'', fs))"
  "ar_server_cmd a = ''stop'' \<Longrightarrow> cmd_server env a fs =
     (if \<not> live env a fs then
        (0, ''Server is not running'',
         if 0 < read_pid (pidfile_of (ce_home env) a) fs then fs(pidfile_of (ce_home env) a := None) else fs)
      else if \<not> ce_kill env then (1, ''Error: kill('' @ int_str (read_pid (pidfile_of (ce_home env) a) fs) @ '')'', fs)
      else if gone_within (ce_survives env) 0 120 then (0, ''Server stopped'', fs(pidfile_of (ce_home env) a := None))
      else (1, ''Error: server pid '' @ int_str (read_pid (pidfile_of (ce_home env) a) fs) @
        '' did not exit after SIGTERM; pidfile kept'', fs))"
  by (simp_all only: cmd_server_def live_def Let_def list.inject char.inject list.distinct simp_thms if_True if_False)

lemma pidfile_same [simp]: "pidfile_of h (a\<lparr>ar_server_cmd := c\<rparr>) = pidfile_of h a"
    "live env (a\<lparr>ar_server_cmd := c\<rparr>) fs = live env a fs"
  by (simp_all add: pidfile_of_def default_pidfile_def live_def)

text \<open>a daemon that was started in the background is the one the pid file names while it lives: a
  second start is refused and changes nothing, and status reports it.\<close>

theorem started_daemon_is_found:
  assumes "ar_daemon a" "\<not> live env a fs" "ce_fork env = p" "0 < p" "int32 p" "ce_exists env p"
    and "cmd_server env (a\<lparr>ar_server_cmd := ''start''\<rparr>) fs = (rc, out, fs')"
  shows "rc = 0 \<and> cmd_server env (a\<lparr>ar_server_cmd := ''start''\<rparr>) fs' =
      (1, ''Error: server already running (pid '' @ int_str p @ '')'', fs') \<and>
    cmd_server env (a\<lparr>ar_server_cmd := ''status''\<rparr>) fs' =
      (0, server_name a @ '' is running (pid '' @ int_str p @ '', '' @ ar_addr a @ '':'' @ int_str (shown_port a) @ '')'', fs')"
proof -
  let ?path = "pidfile_of (ce_home env) a"
  have "(rc, out, fs') = (0, [], fs(?path := Some (int_str p)))"
    using assms by (auto simp: server_cases(1) run_server_def Let_def live_def split: if_split_asm)
  then have r: "rc = 0" "fs' = fs(?path := Some (int_str p))" by simp_all
  have "read_pid ?path fs' = p" unfolding r(2) by (rule read_written_pid[OF assms(4,5)])
  then have "live env a fs'" "read_pid (pidfile_of (ce_home env) (a\<lparr>ar_server_cmd := c\<rparr>)) fs' = p" for c
    using assms(4,6) by (simp_all add: live_def process_alive_def)
  then show ?thesis
    by (simp add: r(1) server_cases(1,2) server_name_def shown_port_def)
qed

text \<open>a stop that reports success leaves no daemon behind in the pid file, so the next start is not
  refused; one that fails leaves the pid file as it was.\<close>

theorem stop_makes_room:
  assumes "cmd_server env (a\<lparr>ar_server_cmd := ''stop''\<rparr>) fs = (rc, out, fs')"
  shows "if rc = 0 then \<not> live env a fs' \<and>
      cmd_server env (a\<lparr>ar_server_cmd := ''start''\<rparr>) fs' =
        run_server env (a\<lparr>ar_server_cmd := ''start''\<rparr>) (pidfile_of (ce_home env) a) fs'
    else fs' = fs"
proof -
  have "\<not> live env a (fs(pidfile_of (ce_home env) a := None))" by (simp add: live_def read_pid_def)
  with assms have "if rc = 0 then \<not> live env a fs' else fs' = fs"
    by (auto simp: server_cases(3) split: if_split_asm)
  then show ?thesis by (simp add: server_cases(1))
qed

definition demo_cli :: cli_env where
  "demo_cli = \<lparr>ce_home = Some ''/h'', ce_exists = (\<lambda>p. p = 42), ce_fork = 42, ce_self = 42, ce_server = 0, ce_kill = True,
     ce_survives = (\<lambda>i. i < 3), ce_port_first = False, ce_port = (\<lambda>i. 2 < i), ce_chdir = (\<lambda>_. True),
     ce_connect = (\<lambda>_ _. True), ce_once = (\<lambda>_. 0), ce_tui = 0\<rparr>"

lemma started_daemon_is_found_witness:
  "(let a = default_args\<lparr>ar_daemon := True\<rparr>; fs = snd (snd (cmd_server demo_cli (a\<lparr>ar_server_cmd := ''start''\<rparr>) Map.empty)) in
    fst (snd (cmd_server demo_cli (a\<lparr>ar_server_cmd := ''status''\<rparr>) fs))) =
   ''Swarm server is running (pid 42, 127.0.0.1:5500)''"
proof -
  let ?a = "default_args\<lparr>ar_daemon := True\<rparr>"
  let ?r = "cmd_server demo_cli (?a\<lparr>ar_server_cmd := ''start''\<rparr>) Map.empty"
  have a: "ar_daemon ?a" "\<not> live demo_cli ?a Map.empty" "ce_fork demo_cli = 42" "(0::int) < 42" "int32 42" "ce_exists demo_cli 42"
    by (simp_all add: live_def read_pid_def demo_cli_def int32_def)
  have r: "?r = (fst ?r, fst (snd ?r), snd (snd ?r))" by simp
  have "int_str (shown_port ?a) = ''5500''" "server_name ?a = ''Swarm server''" "ar_addr ?a = ''127.0.0.1''"
    by (simp_all add: shown_port_def default_args_def numbers server_name_def)
  with started_daemon_is_found[OF a r] show ?thesis by (simp add: Let_def numbers)
qed

lemma stop_makes_room_witness:
  "\<not> live demo_cli default_args (snd (snd (cmd_server demo_cli (default_args\<lparr>ar_server_cmd := ''stop''\<rparr>)
     [''/h/.zvmh/server.pid'' \<mapsto> ''42'' @ NL])))"
proof -
  let ?r = "cmd_server demo_cli (default_args\<lparr>ar_server_cmd := ''stop''\<rparr>) [''/h/.zvmh/server.pid'' \<mapsto> ''42'' @ NL]"
  have "?r = (fst ?r, fst (snd ?r), snd (snd ?r))" by simp
  note s = stop_makes_room[OF this]
  have "fst ?r = 0" by code_simp
  with s show ?thesis by simp
qed

section \<open>What the command line does that it does not mean to\<close>

text \<open>Asking for the help ends with exit code 1; \<open>--pidfile\<close> is not heeded with \<open>--session\<close>; what
  follows the digits of a port is dropped, and any 32-bit number is a port.\<close>

lemma help_fails: "fst (zvmh_main env [''--help''] fs) = 1"
  by (simp add: zvmh_main_def)

lemma session_ignores_pidfile: "pidfile_of h (a\<lparr>ar_session := True, ar_pidfile := p\<rparr>) = session_pidfile h"
  by (simp add: pidfile_of_def)

lemma port_suffix_dropped: "stoi ''80x'' = Some 80" "stoi ''-7'' = Some (-7)"
  by code_simp+

end
