(* ===== verification/Spec2Isabelle.thy ===== *)
theory Spec2Isabelle
  imports Openrouter Auth Wire Paths Swarm_Run Swarm_Paths Swarm_Connection Remote_Client Served_Turn
    Served_Client Prompt_Editor Markdown Tool_Edit Tool_Patch Tool_Read Tool_Webfetch Tool_Search Tool_Bash
    Tool_Websearch Tool_Contracts Tui_Wrap Tui_Transcript Tui_Screen Tui_View Cli
begin

text \<open>
  A verification of zvmh, a coding agent for the terminal written in C++. The program has three parts. An
  agent runs turns: it sends the conversation to a language model, executes the tool calls of the answer
  and repeats, at most ten times. A swarm daemon hosts agents for its clients, routes messages between
  them and announces files that one of them changed under another. A terminal interface is a client of
  the daemon: it sends prompts over a socket and shows what streams back. All paths below are under
  \<open>src/src/\<close>.

  \<^bold>\<open>Theories and sources.\<close>
  \<^item> \<open>Zvmh_Prelude\<close>: byte strings, searching, trimming, joining, numbers as text, results that may throw,
    ordered maps; the locale \<open>keyed_store\<close> of everything that is looked up by key.
  \<^item> \<open>Utf8\<close> (\<open>utf8.h\<close>): validation and sanitising, against the encoding of Unicode scalar values.
  \<^item> \<open>Json_Value\<close>: JSON values and the reads the sources make of them. \<open>Messages\<close> (\<open>message/\<close>,
    \<open>tool/tool.h\<close>, \<open>provider/provider.h\<close>): conversations and when they are well-formed, stream events, the
    callbacks of a sink, tools.
  \<^item> \<open>Openrouter\<close> (\<open>provider/openrouter.cpp\<close>): the request body, the reader of server-sent events and the
    state of one completion.
  \<^item> \<open>Sys_Context\<close> (\<open>system/\<close>): sources of the system prompt, their snapshots and announcements.
  \<^item> \<open>Agent_State\<close> and \<open>Agent_Turn\<close> (\<open>agent.h\<close>, \<open>agent.cpp\<close>): the agent's record, \<open>TurnBridge\<close>, the rewriting
    of tool paths, and the whole of \<open>run_turn\<close>; \<open>Agent_World\<close>: what a turn leaves of a world invariant.
  \<^item> \<open>Auth\<close> (\<open>auth.cpp\<close>), \<open>Wire\<close> (\<open>server/protocol.h\<close>, \<open>wire_sink.h\<close>): credentials; frames, hashes and the
    newline framing of the socket. \<open>Paths\<close>: \<open>canonical_path\<close> of \<open>server/protocol.h\<close>, with the lexical normal form
    of a path, against the place it leads to.
  \<^item> \<open>Swarm_State\<close>, \<open>Swarm_Server\<close> (\<open>server/server.h\<close>, \<open>server.cpp\<close>): the daemon's tables, its handlers and
    its steps; \<open>Swarm_Run\<close>: its listening socket, the accept loop and how the process ends;
    \<open>Swarm_Connection\<close>: the thread of one connection from its first byte to the close; \<open>Swarm_Tools\<close>
    (\<open>tool/msg.h\<close>, \<open>tool/peers.h\<close>): the two tools over the interface of a peer.
  \<^item> \<open>Remote_Client\<close> (\<open>server/client.cpp\<close>, \<open>remote/\<close>): the other end of the socket. \<open>Swarm_Paths\<close>: reads and
    writes reported over it, under the canonical names of the files; it puts \<open>canonical_path\<close> for the
    function \<open>se_canon\<close> the daemon's theories leave open. \<open>Served_Turn\<close>: a prompt on its way to the daemon
    and its turn on the way back; \<open>Served_Client\<close>: the whole session of a client against its connection.
  \<^item> \<open>Tool_Edit\<close>, \<open>Tool_Patch\<close>, \<open>Tool_Read\<close>, \<open>Tool_Search\<close>, \<open>Tool_Bash\<close>, \<open>Tool_Webfetch\<close>, \<open>Tool_Websearch\<close>
    (\<open>tool/\<close>): the tools. \<open>Tool_Contracts\<close>: their parameter schemas, what it means to conform to one, and the
    table of the built-in tools (\<open>tool/registry.h\<close>) behind the environment of a turn.
  \<^item> \<open>Prompt_Editor\<close>, \<open>Markdown\<close> (\<open>tui/prompt_editor.h\<close>, \<open>tui/markdown.h\<close>): the editor of the prompt and the
    renderer of answers. \<open>Tui_Wrap\<close>, \<open>Tui_Transcript\<close>, \<open>Tui_Screen\<close> (\<open>tui/tui.cpp\<close>): laying out lines, the
    transcript with its live region and viewport, and the input side with its commands and threads;
    \<open>Tui_View\<close>: the tree of elements that is drawn from this state.
  \<^item> \<open>Cli\<close> (\<open>main.cpp\<close>): options, pid files, the daemon's commands and \<open>main\<close>.

  \<^bold>\<open>How the code is represented.\<close> A class or struct is a record whose fields are its members, under a prefix
  of their own (\<open>sv_\<close> the daemon, \<open>sc_\<close> and \<open>ra_\<close> the client, \<open>tx_\<close> the transcript, \<open>sn_\<close> the screen); a
  method is a function from the record to the record and the value returned. \<open>std::string\<close> is a list of
  bytes, \<open>int\<close> is \<open>int\<close> with \<open>to_int32\<close> where a value of another width is narrowed, the file hash is on
  64-bit words. An exception is \<open>Inl (Thrown what)\<close>, undefined behaviour \<open>Inl Undefined\<close>, and every
  handler that catches is a case on it. A \<open>std::map\<close> is an ordered association list. Mutexes make a
  method one step; where threads interleave, the theories have a step relation over these methods
  (\<open>Swarm_Server\<close>, \<open>Tui_Screen\<close>) or a list of steps (\<open>Tui_Transcript\<close>), and the invariants hold for every
  interleaving. What is outside the sources is an argument: the HTTP and JSON libraries, the system calls,
  the clock, the provider's answers, other processes. JSON parsing and printing appear as functions with
  the one assumption that what is printed is parsed back, wherever a property needs it.

  \<^bold>\<open>Interfaces.\<close> \<open>keyed_store\<close> is interpreted on the ordered maps, \<open>context_source\<close> on the text sources,
  \<open>swarm_peer\<close> on the hosted view of the daemon and on the remote client, \<open>env_invariant\<close> on the
  environment of a hosted turn, \<open>conversation\<close> on the agent's turns and clears, \<open>agent_facade\<close> on the
  remote agent the screen drives.

  \<^bold>\<open>Bounds.\<close> A turn has \<open>max_steps\<close> = 10 steps, as in the code, and recursion is on that number. Loops over
  input are recursive on the input. The loops that wait, the capture of a command's output, the
  reader thread of the client and the daemon's accept loop, consume a list of what arrives; that they end is a
  property of theirs, not built in. \<open>gone_within\<close> polls 120 times, as in the code.

  \<^bold>\<open>What is shown.\<close> The agent keeps its conversation well-formed through success, failure, exceptions
  and cancellation, returns whatever the provider and the tools do short of undefined behaviour (which
  the built-in tools show only on calls that break their schemas), and sends requests in which every tool
  call is answered; text and calls are reassembled from any interleaving and any cut of the stream. The
  daemon's tables agree in every reachable state; messages and change notices reach whom they must,
  once, and notices reported over the wire do so however the path of the file is spelled. A connection
  is handled by its bytes alone, ends with its socket and leaves nothing behind; no series of operations
  of a client ends the daemon; running a turn through the client is running it in the daemon. Patches are
  all or nothing and equal to their operations in turn, edits replace the match and nothing else, reads
  page through a file without loss, and the other tools stay within their limits. The editor does to the
  bytes what a glyph-wise editor does. The interface shows the text that was streamed, wraps it without
  losing anything visible, never runs two turns at once, runs the command that was typed and does not show
  the key that is typed into it. Lemmas named for it record where the code departs from what it or its
  comments intend.

  \<^bold>\<open>Not modelled.\<close> How the component library lays an element tree out on the terminal, its menu, focus and
  the cursor of the terminal; the percentage of the context bar (a \<open>double\<close>), the text of
  \<open>--help\<close> beyond its first line, log files and the detaching of a daemon from its terminal, the wording
  the C library gives errors and times, and the build files. \<open>accept\<close>, \<open>select\<close>, \<open>fork\<close> are represented by
  their answers and threads by the steps they may take. The descriptions of the tools are texts for the
  model. Of the paths of \<open>std::filesystem\<close> the lexical part is modelled; what \<open>weakly_canonical\<close> finds
  in the file system is a parameter.
\<close>

section \<open>A turn and the requests it makes\<close>

text \<open>C1: every request of a turn that is not yet cancelled carries a conversation the model's interface
  accepts: each tool call is answered, in order, before the next message, and none is left open.\<close>

theorem turn_requests_are_accepted:
  assumes "well_formed (ag_messages (ts_agent st))"
  shows "list_all (\<lambda>(cancelled, ms). cancelled \<or>
      (\<exists>js. jfind (request_body dump model system ms tools) ''messages'' = Some (JArr js) \<and> api_open [] js = Some []))
    (turn_requests env prompt st)"
proof -
  have "list_all request_in_order (turn_requests env prompt st)" by (rule turn_requests_in_order[OF assms])
  then show ?thesis
    using request_body_messages api_messages_answered
    by (fastforce simp: list_all_iff request_in_order_def split: prod.splits)
qed

theorem turn_requests_are_accepted_witness:
  "list_all (\<lambda>(cancelled, ms). cancelled \<or>
      (\<exists>js. jfind (request_body (\<lambda>_. ''{}'') ''m'' ''s'' ms []) ''messages'' = Some (JArr js) \<and> api_open [] js = Some []))
    (turn_requests script_env ''list'' script_start) \<and>
   length (turn_requests script_env ''list'' script_start) = 2"
proof
  show "length (turn_requests script_env ''list'' script_start) = 2" by code_simp
qed (rule turn_requests_are_accepted, simp add: script_start_def script_agent_def)

section \<open>What is stored and what is shown\<close>

text \<open>The callbacks of one answer change the transcript as its text deltas do.\<close>

lemma shown_deltas:
  "tui_run (map TuiSink (concat (map bridge_sink es))) t =
   tui_run (map (\<lambda>d. TuiSink (SinkTextDelta d)) (concat (map (\<lambda>e. case e of TextDelta d \<Rightarrow> [d] | _ \<Rightarrow> []) es))) t"
proof (induction es arbitrary: t)
  case (Cons e es)
  then show ?case by (cases e) (simp_all add: tui_run_def)
qed simp

lemma stream_text_deltas: "concat (concat (map (\<lambda>e. case e of TextDelta d \<Rightarrow> [d] | _ \<Rightarrow> []) es)) = stream_text es"
proof (induction es)
  case (Cons e es)
  then show ?case by (cases e) simp_all
qed simp

text \<open>C2: what the interface shows of an answer is what the conversation stores of it: after the callbacks
  of a provider's events the transcript ends with the rendering of the text that \<open>TurnBridge\<close> collected
  from the same events, as if it had been added in one piece.\<close>

theorem shown_text_is_stored_text:
  assumes "tx_live_index t = None" "tx_live_text t = []" "live_block (br_text (bridge_run es)) \<noteq> []"
  shows "tx_lines (tui_run (map TuiSink (concat (map bridge_sink es))) t) =
    tx_lines (append_block (render_markdown (br_text (bridge_run es))) t)"
proof -
  have b: "br_text (bridge_run es) = stream_text es" using bridge_run_spec by blast
  have "tx_lines (append_block (render_markdown (stream_text es)) t) =
      tx_lines (ensure_leading_gap t) @ live_block (stream_text es) @ [text_line []]"
    using assms(3) by (simp add: b append_block_def Let_def live_block_def[symmetric] mark_dirty_def add_lines_def)
  then show ?thesis
    using streaming_block[OF assms(1,2), of "concat (map (\<lambda>e. case e of TextDelta d \<Rightarrow> [d] | _ \<Rightarrow> []) es)"] assms(3)
    by (auto simp: shown_deltas stream_text_deltas b Let_def)
qed

theorem shown_text_is_stored_text_witness:
  "tx_lines (tui_run (map TuiSink (concat (map bridge_sink
      [TextDelta ''- o'', ToolUseStart 0 ''c1'' ''ls'', TextDelta ''ne'', MessageEnd ''stop'']))) (new_transcript demo_box)) =
   tx_lines (append_block (render_markdown ''- one'') (new_transcript demo_box))"
proof -
  let ?es = "[TextDelta ''- o'', ToolUseStart 0 ''c1'' ''ls'', TextDelta ''ne'', MessageEnd ''stop'']"
  have a: "tx_live_index (new_transcript demo_box) = None" "tx_live_text (new_transcript demo_box) = []"
    by (simp_all add: new_transcript_def)
  have t: "br_text (bridge_run ?es) = ''- one''" by code_simp
  have "live_block ''- one'' \<noteq> []" by code_simp
  then have "live_block (br_text (bridge_run ?es)) \<noteq> []" unfolding t .
  from shown_text_is_stored_text[OF a this] show ?thesis unfolding t .
qed

end
